(* ===== verification/Prelude.thy ===== *)
theory Prelude
  imports Main "HOL-Library.Monad_Syntax" "HOL-Library.Code_Target_Numeral"
begin

text \<open>
  Shared vocabulary of the development: Rust strings as lists of Unicode scalar values, the
  part of \<^verbatim>\<open>str\<close>, \<^verbatim>\<open>char\<close>, slice and integer API the modelled code calls, Rust's
  \<^verbatim>\<open>Ordering\<close> with the contract of \<^verbatim>\<open>Ord\<close> as a locale, and the generic list lemmas the
  component proofs use.

  A \<^verbatim>\<open>&str\<close> is a list of scalar values (\<open>ustr\<close>); \<open>as_bytes\<close> is its UTF-8 encoding, so code
  that counts or compares bytes is modelled on bytes and code that walks characters on
  scalars. A \<^verbatim>\<open>Result<T, String>\<close> is a sum with an error datatype of the component on the
  left; a message's variable parts are the constructor's arguments.
\<close>

named_theorems str_simps \<open>unfolding rules for the string primitives\<close>

section \<open>Characters and strings\<close>

type_synonym uchar = nat
type_synonym ustr = "uchar list"
type_synonym byte = nat

definition lit :: "string \<Rightarrow> ustr" where
  "lit s = map of_char s"

lemma lit_simps [simp]:
  "lit [] = []"
  "lit (c # s) = of_char c # lit s"
  by (simp_all add: lit_def)

lemma length_lit [simp]: "length (lit s) = length s"
  by (simp add: lit_def)

text \<open>\<^verbatim>\<open>char::is_whitespace\<close>: the Unicode White\_Space property.\<close>

definition is_whitespace :: "uchar \<Rightarrow> bool" where
  "is_whitespace c \<longleftrightarrow>
     (9 \<le> c \<and> c \<le> 13) \<or> c = 32 \<or> c = 133 \<or> c = 160 \<or> c = 5760 \<or>
     (8192 \<le> c \<and> c \<le> 8202) \<or> c = 8232 \<or> c = 8233 \<or> c = 8239 \<or> c = 8287 \<or> c = 12288"

definition is_ascii_digit :: "uchar \<Rightarrow> bool" where
  "is_ascii_digit c \<longleftrightarrow> 48 \<le> c \<and> c \<le> 57"

definition is_ascii :: "uchar \<Rightarrow> bool" where
  "is_ascii c \<longleftrightarrow> c < 128"

definition to_ascii_lowercase :: "uchar \<Rightarrow> uchar" where
  "to_ascii_lowercase c = (if 65 \<le> c \<and> c \<le> 90 then c + 32 else c)"

definition str_to_ascii_lowercase :: "ustr \<Rightarrow> ustr" where
  "str_to_ascii_lowercase s = map to_ascii_lowercase s"

definition trim_start :: "ustr \<Rightarrow> ustr" where
  "trim_start s = dropWhile is_whitespace s"

definition trim_end_matches :: "(uchar \<Rightarrow> bool) \<Rightarrow> ustr \<Rightarrow> ustr" where
  "trim_end_matches p s = rev (dropWhile p (rev s))"

definition trim_end :: "ustr \<Rightarrow> ustr" where
  "trim_end s = trim_end_matches is_whitespace s"

definition trim :: "ustr \<Rightarrow> ustr" where
  "trim s = trim_end (trim_start s)"

definition starts_with :: "ustr \<Rightarrow> ustr \<Rightarrow> bool" where
  "starts_with s p \<longleftrightarrow> take (length p) s = p"

definition ends_with :: "ustr \<Rightarrow> ustr \<Rightarrow> bool" where
  "ends_with s p \<longleftrightarrow> drop (length s - length p) s = p"

definition strip_prefix :: "ustr \<Rightarrow> ustr \<Rightarrow> ustr option" where
  "strip_prefix s p = (if starts_with s p then Some (drop (length p) s) else None)"

text \<open>\<^verbatim>\<open>str::contains(&str)\<close>: the needle starts at some position of the haystack.\<close>

fun contains :: "ustr \<Rightarrow> ustr \<Rightarrow> bool" where
  "contains [] n = (n = [])"
| "contains (c # cs) n = (starts_with (c # cs) n \<or> contains cs n)"

text \<open>\<^verbatim>\<open>str::split(char)\<close>: always at least one piece.\<close>

fun split_on :: "uchar \<Rightarrow> ustr \<Rightarrow> ustr list" where
  "split_on d [] = [[]]"
| "split_on d (c # cs) =
     (if c = d then [] # split_on d cs
      else (case split_on d cs of [] \<Rightarrow> [[c]] | p # ps \<Rightarrow> (c # p) # ps))"

text \<open>\<^verbatim>\<open>str::split_whitespace\<close>: the maximal runs of non-white-space characters.\<close>

fun split_pred :: "(uchar \<Rightarrow> bool) \<Rightarrow> ustr \<Rightarrow> ustr list" where
  "split_pred p [] = [[]]"
| "split_pred p (c # cs) =
     (if p c then [] # split_pred p cs
      else (case split_pred p cs of [] \<Rightarrow> [[c]] | w # ws \<Rightarrow> (c # w) # ws))"

definition split_whitespace :: "ustr \<Rightarrow> ustr list" where
  "split_whitespace s = filter (\<lambda>w. w \<noteq> []) (split_pred is_whitespace s)"

text \<open>\<^verbatim>\<open>str::split_once(char)\<close>: at the first separator.\<close>

definition split_once :: "uchar \<Rightarrow> ustr \<Rightarrow> (ustr \<times> ustr) option" where
  "split_once d s =
     (if d \<in> set s then Some (takeWhile (\<lambda>c. c \<noteq> d) s, tl (dropWhile (\<lambda>c. c \<noteq> d) s)) else None)"

text \<open>\<^verbatim>\<open>char::is_control\<close>: the general category Cc.\<close>

definition is_control :: "uchar \<Rightarrow> bool" where
  "is_control c \<longleftrightarrow> c < 32 \<or> (127 \<le> c \<and> c < 160)"

fun join :: "ustr \<Rightarrow> ustr list \<Rightarrow> ustr" where
  "join sep [] = []"
| "join sep [w] = w"
| "join sep (w # v # ws) = w @ sep @ join sep (v # ws)"

text \<open>Decimal rendering of an unsigned integer (\<^verbatim>\<open>format!("{}")\<close>) and its parse.\<close>

fun dec :: "nat \<Rightarrow> ustr" where
  "dec n = (if n < 10 then [48 + n] else dec (n div 10) @ [48 + n mod 10])"

declare dec.simps [simp del]

definition digits_value :: "ustr \<Rightarrow> nat" where
  "digits_value s = foldl (\<lambda>n c. 10 * n + (c - 48)) 0 s"

text \<open>
  \<^verbatim>\<open>str::parse::<uN>\<close>: an optional plus sign, then at least one digit and nothing else, and the
  value fits the type.
\<close>

definition parse_uint :: "nat \<Rightarrow> ustr \<Rightarrow> nat option" where
  "parse_uint maxv s =
     (let d = (case s of c # cs \<Rightarrow> if c = 43 then cs else s | [] \<Rightarrow> s)
      in if d \<noteq> [] \<and> list_all is_ascii_digit d \<and> digits_value d \<le> maxv
         then Some (digits_value d) else None)"

section \<open>UTF-8\<close>

definition utf8_char :: "uchar \<Rightarrow> byte list" where
  "utf8_char c =
     (if c < 128 then [c]
      else if c < 2048 then [192 + c div 64, 128 + c mod 64]
      else if c < 65536 then [224 + c div 4096, 128 + c div 64 mod 64, 128 + c mod 64]
      else [240 + c div 262144, 128 + c div 4096 mod 64, 128 + c div 64 mod 64, 128 + c mod 64])"

definition as_bytes :: "ustr \<Rightarrow> byte list" where
  "as_bytes s = concat (map utf8_char s)"

text \<open>\<^verbatim>\<open>str::len\<close> counts bytes.\<close>

definition str_len :: "ustr \<Rightarrow> nat" where
  "str_len s = length (as_bytes s)"

definition scalar :: "uchar \<Rightarrow> bool" where
  "scalar c \<longleftrightarrow> c < 55296 \<or> (57344 \<le> c \<and> c < 1114112)"

section \<open>Slices and vectors\<close>

fun position :: "('a \<Rightarrow> bool) \<Rightarrow> 'a list \<Rightarrow> nat option" where
  "position p [] = None"
| "position p (x # xs) = (if p x then Some 0 else map_option Suc (position p xs))"

fun rposition :: "('a \<Rightarrow> bool) \<Rightarrow> 'a list \<Rightarrow> nat option" where
  "rposition p [] = None"
| "rposition p (x # xs) =
     (case rposition p xs of
        Some i \<Rightarrow> Some (Suc i)
      | None \<Rightarrow> if p x then Some 0 else None)"

text \<open>\<^verbatim>\<open>slice::windows(2)\<close>.\<close>

fun windows2 :: "'a list \<Rightarrow> ('a \<times> 'a) list" where
  "windows2 (x # y # xs) = (x, y) # windows2 (y # xs)"
| "windows2 _ = []"

fun find_map :: "('a \<Rightarrow> 'b option) \<Rightarrow> 'a list \<Rightarrow> 'b option" where
  "find_map f [] = None"
| "find_map f (x # xs) = (case f x of Some y \<Rightarrow> Some y | None \<Rightarrow> find_map f xs)"

text \<open>\<^verbatim>\<open>slice::get(i)\<close>.\<close>

definition get :: "'a list \<Rightarrow> nat \<Rightarrow> 'a option" where
  "get xs i = (if i < length xs then Some (xs ! i) else None)"

section \<open>Fallible iteration\<close>

text \<open>\<^verbatim>\<open>iter.map(f).collect::<Result<Vec<_>, _>>()\<close> with state threaded through \<open>f\<close>: stops at the
  first error.\<close>

fun try_map :: "('s \<Rightarrow> 'a \<Rightarrow> 'e + ('b \<times> 's)) \<Rightarrow> 's \<Rightarrow> 'a list \<Rightarrow> 'e + ('b list \<times> 's)" where
  "try_map f s [] = Inr ([], s)"
| "try_map f s (x # xs) =
     (case f s x of
        Inl e \<Rightarrow> Inl e
      | Inr (y, s') \<Rightarrow>
          (case try_map f s' xs of
             Inl e \<Rightarrow> Inl e
           | Inr (ys, s'') \<Rightarrow> Inr (y # ys, s'')))"

text \<open>The same without state.\<close>

fun try_each :: "('a \<Rightarrow> 'e + 'b) \<Rightarrow> 'a list \<Rightarrow> 'e + 'b list" where
  "try_each f [] = Inr []"
| "try_each f (x # xs) =
     (case f x of
        Inl e \<Rightarrow> Inl e
      | Inr y \<Rightarrow> (case try_each f xs of Inl e \<Rightarrow> Inl e | Inr ys \<Rightarrow> Inr (y # ys)))"

definition ok_or :: "'e \<Rightarrow> 'a option \<Rightarrow> 'e + 'a" where
  "ok_or e x = (case x of None \<Rightarrow> Inl e | Some y \<Rightarrow> Inr y)"

section \<open>Machine integers\<close>

definition u64_max :: nat where
  "u64_max = 2 ^ 64 - 1"

definition sat_add :: "nat \<Rightarrow> nat \<Rightarrow> nat \<Rightarrow> nat" where
  "sat_add m a b = min m (a + b)"

definition sat_mul :: "nat \<Rightarrow> nat \<Rightarrow> nat \<Rightarrow> nat" where
  "sat_mul m a b = min m (a * b)"

section \<open>Ordering\<close>

datatype ordering = OLess | OEqual | OGreater

primrec ordering_reverse :: "ordering \<Rightarrow> ordering" where
  "ordering_reverse OLess = OGreater"
| "ordering_reverse OEqual = OEqual"
| "ordering_reverse OGreater = OLess"

definition nat_cmp :: "nat \<Rightarrow> nat \<Rightarrow> ordering" where
  "nat_cmp a b = (if a < b then OLess else if a = b then OEqual else OGreater)"


text \<open>
  The contract of Rust's \<^verbatim>\<open>Ord::cmp\<close>: a total order up to the equality it induces. Every
  comparison the code sorts or searches by is an interpretation of this locale.
\<close>

locale ord_contract =
  fixes cmp :: "'a \<Rightarrow> 'a \<Rightarrow> ordering"
  assumes cmp_refl: "cmp a a = OEqual"
    and cmp_flip: "cmp b a = ordering_reverse (cmp a b)"
    and cmp_le_trans:
      "cmp a b \<noteq> OGreater \<Longrightarrow> cmp b c \<noteq> OGreater \<Longrightarrow> cmp a c \<noteq> OGreater"
begin

lemma eq_sym: "cmp a b = OEqual \<Longrightarrow> cmp b a = OEqual"
  by (simp add: cmp_flip [of b a])

lemma greater_iff_less: "cmp a b = OGreater \<longleftrightarrow> cmp b a = OLess"
  using cmp_flip [of b a] by (cases "cmp a b") auto

lemma eq_trans: "cmp a b = OEqual \<Longrightarrow> cmp b c = OEqual \<Longrightarrow> cmp a c = OEqual"
  by (metis cmp_flip cmp_le_trans ordering.distinct ordering.exhaust ordering_reverse.simps)

lemma less_le_trans: "cmp a b = OLess \<Longrightarrow> cmp b c \<noteq> OGreater \<Longrightarrow> cmp a c = OLess"
  by (metis cmp_flip cmp_le_trans ordering.distinct ordering.exhaust ordering_reverse.simps)

lemma le_less_trans: "cmp a b \<noteq> OGreater \<Longrightarrow> cmp b c = OLess \<Longrightarrow> cmp a c = OLess"
  by (metis cmp_flip cmp_le_trans ordering.distinct ordering.exhaust ordering_reverse.simps)

lemma cmp_cong_left: "cmp a b = OEqual \<Longrightarrow> cmp a c = cmp b c"
  by (metis cmp_flip eq_sym eq_trans le_less_trans ordering.distinct ordering.exhaust
      ordering_reverse.simps)

lemma cmp_cong_right: "cmp a b = OEqual \<Longrightarrow> cmp c a = cmp c b"
  by (metis cmp_cong_left cmp_flip)

end

interpretation nat_ord: ord_contract nat_cmp
  by unfold_locales (auto simp: nat_cmp_def split: if_splits)

section \<open>Lemmas\<close>

lemma nat_cmp_eq_iff [simp]:
  "nat_cmp a b = OEqual \<longleftrightarrow> a = b"
  "nat_cmp a b = OLess \<longleftrightarrow> a < b"
  "nat_cmp a b = OGreater \<longleftrightarrow> b < a"
  by (auto simp: nat_cmp_def)

lemma position_None_iff [simp]: "position p xs = None \<longleftrightarrow> (\<forall>x \<in> set xs. \<not> p x)"
  by (induction xs) auto

lemma position_SomeD:
  "position p xs = Some i \<Longrightarrow> i < length xs \<and> p (xs ! i) \<and> (\<forall>j < i. \<not> p (xs ! j))"
proof (induction xs arbitrary: i)
  case (Cons x xs)
  then show ?case
    by (auto simp: nth_Cons' split: if_splits)
qed simp

lemma rposition_None_iff [simp]: "rposition p xs = None \<longleftrightarrow> (\<forall>x \<in> set xs. \<not> p x)"
  by (induction xs) (auto split: option.splits)

lemma rposition_SomeD:
  "rposition p xs = Some i \<Longrightarrow>
   i < length xs \<and> p (xs ! i) \<and> (\<forall>j < length xs. i < j \<longrightarrow> \<not> p (xs ! j))"
proof (induction xs arbitrary: i)
  case (Cons x xs)
  show ?case
  proof (cases "rposition p xs")
    case None
    with Cons.prems show ?thesis
      by (auto simp: nth_Cons' split: if_splits)
  next
    case (Some k)
    with Cons.prems Cons.IH [OF Some] show ?thesis
      by (auto simp: nth_Cons')
  qed
qed simp

lemma rposition_append:
  "rposition p (xs @ ys) =
     (case rposition p ys of Some i \<Rightarrow> Some (length xs + i) | None \<Rightarrow> rposition p xs)"
  by (induction xs) (simp_all split: option.split del: rposition_None_iff)

lemma find_map_None_iff [simp]: "find_map f xs = None \<longleftrightarrow> (\<forall>x \<in> set xs. f x = None)"
  by (induction xs) (auto split: option.splits)

lemma find_map_SomeD: "find_map f xs = Some y \<Longrightarrow> \<exists>x \<in> set xs. f x = Some y"
  by (induction xs) (auto split: option.splits)

lemma split_on_not_Nil [simp]: "split_on d s \<noteq> []"
  by (induction s) (auto split: list.splits)

lemma split_pred_not_Nil [simp]: "split_pred p s \<noteq> []"
  by (induction s) (auto split: list.splits)

lemma split_on_no_sep: "d \<notin> set s \<Longrightarrow> split_on d s = [s]"
  by (induction s) auto

lemma split_on_append: "d \<notin> set s \<Longrightarrow> split_on d (s @ d # t) = s # split_on d t"
  by (induction s) auto

text \<open>Splitting undoes joining when no piece holds the separator.\<close>

lemma split_on_join:
  "ps \<noteq> [] \<Longrightarrow> \<forall>p \<in> set ps. d \<notin> set p \<Longrightarrow> split_on d (join [d] ps) = ps"
  by (induction "[d]" ps rule: join.induct) (auto simp: split_on_no_sep split_on_append)

lemma join_split_on [simp]: "join [d] (split_on d s) = s"
proof (induction s)
  case (Cons c s)
  then show ?case
    by (cases "split_on d s"; cases "tl (split_on d s)") auto
qed simp

lemma split_once_append: "d \<notin> set s \<Longrightarrow> split_once d (s @ d # t) = Some (s, t)"
  by (induction s) (auto simp: split_once_def)

lemma split_once_absent [simp]: "d \<notin> set s \<Longrightarrow> split_once d s = None"
  by (simp add: split_once_def)

lemma split_once_SomeD: "split_once d s = Some (a, b) \<Longrightarrow> s = a @ d # b \<and> d \<notin> set a"
proof (induction s arbitrary: a b)
  case (Cons c s)
  show ?case
  proof (cases "c = d")
    case True
    with Cons.prems show ?thesis by (auto simp: split_once_def)
  next
    case False
    with Cons.prems Cons.IH [of "tl a" b] show ?thesis
      by (auto simp: split_once_def split: if_splits)
  qed
qed (simp add: split_once_def)

lemma join_Cons_ne: "ws \<noteq> [] \<Longrightarrow> join sep (w # ws) = w @ sep @ join sep ws"
  by (cases ws) simp_all

lemma join_append_ne:
  "us \<noteq> [] \<Longrightarrow> ws \<noteq> [] \<Longrightarrow> join sep (us @ ws) = join sep us @ sep @ join sep ws"
  by (induction sep us rule: join.induct) (simp_all add: join_Cons_ne)

lemma set_join: "c \<in> set (join sep ws) \<Longrightarrow> c \<in> set sep \<or> (\<exists>w \<in> set ws. c \<in> set w)"
  by (induction sep ws rule: join.induct) auto

lemma split_on_pieces: "p \<in> set (split_on d s) \<Longrightarrow> d \<notin> set p"
  by (induction s arbitrary: p) (auto split: if_splits list.splits)

lemma trim_id:
  assumes "s \<noteq> []" and "\<not> is_whitespace (hd s)" and "\<not> is_whitespace (last s)"
  shows "trim s = s"
proof -
  have "trim_start s = s"
    using assms by (cases s) (auto simp: trim_start_def)
  moreover have "trim_end s = s"
    using assms by (cases s rule: rev_cases) (auto simp: trim_end_def trim_end_matches_def)
  ultimately show ?thesis by (simp add: trim_def)
qed

lemma trim_Nil [simp]: "trim [] = []"
  by (simp add: trim_def trim_start_def trim_end_def trim_end_matches_def)

lemma trim_ends:
  assumes "trim s \<noteq> []"
  shows "\<not> is_whitespace (hd (trim s))" and "\<not> is_whitespace (last (trim s))"
proof -
  let ?t = "trim_start s"
  have "?t \<noteq> []"
    using assms by (auto simp: trim_def trim_end_def trim_end_matches_def)
  then have t: "\<not> is_whitespace (hd ?t)"
    unfolding trim_start_def by (rule hd_dropWhile)
  show "\<not> is_whitespace (last (trim s))"
    using assms hd_dropWhile [of is_whitespace "rev ?t"]
    by (simp add: trim_def trim_end_def trim_end_matches_def last_rev del: dropWhile_eq_Nil_conv)
  have "takeWhile is_whitespace (rev ?t) @ dropWhile is_whitespace (rev ?t) = rev ?t"
    by (rule takeWhile_dropWhile_id)
  then have "?t = trim s @ rev (takeWhile is_whitespace (rev ?t))"
    by (metis rev_append rev_rev_ident trim_def trim_end_def trim_end_matches_def)
  then have "hd ?t = hd (trim s)"
    using assms by (metis hd_append2)
  with t show "\<not> is_whitespace (hd (trim s))" by simp
qed

lemma trim_idem [simp]: "trim (trim s) = trim s"
proof (cases "trim s = []")
  case False
  then show ?thesis by (intro trim_id trim_ends)
qed simp


lemma starts_with_append [simp]: "starts_with (p @ s) p"
  by (simp add: starts_with_def)

lemma strip_prefix_append [simp]: "strip_prefix (p @ s) p = Some s"
  by (simp add: strip_prefix_def)

lemma digit_not_whitespace [simp]: "is_ascii_digit c \<Longrightarrow> \<not> is_whitespace c"
  by (auto simp: is_ascii_digit_def is_whitespace_def)

lemma dec_not_Nil [simp]: "dec n \<noteq> []"
  by (subst dec.simps) simp

lemma dec_digits: "c \<in> set (dec n) \<Longrightarrow> is_ascii_digit c"
proof (induction n rule: dec.induct)
  case (1 n)
  then show ?case
    by (subst (asm) (2) dec.simps) (auto simp: is_ascii_digit_def split: if_splits)
qed

lemma digits_value_dec: "digits_value (dec n) = n"
proof (induction n rule: dec.induct)
  case (1 n)
  then show ?case
    by (subst dec.simps) (auto simp: digits_value_def)
qed

lemma parse_uint_dec: "n \<le> m \<Longrightarrow> parse_uint m (dec n) = Some n"
proof -
  assume "n \<le> m"
  obtain c cs where d: "dec n = c # cs"
    by (cases "dec n") auto
  have "is_ascii_digit c"
    by (rule dec_digits [of c n]) (simp add: d)
  then have "c \<noteq> 43"
    by (auto simp: is_ascii_digit_def)
  moreover have "list_all is_ascii_digit (dec n)"
    by (auto simp: list_all_iff dest: dec_digits)
  ultimately show ?thesis
    using \<open>n \<le> m\<close> digits_value_dec [of n] by (simp add: parse_uint_def d)
qed

lemma parse_uint_bound: "parse_uint m s = Some n \<Longrightarrow> n \<le> m"
  by (auto simp: parse_uint_def Let_def split: if_splits)

end
