(* ===== verification/Version.thy ===== *)
theory Version
  imports Prelude
begin

text \<open>
  \<^verbatim>\<open>crates/daemon/src/detection/version.rs\<close>: CLI versions scanned out of a program's version
  output, their ordering, and the version ranges that gate detection rules.

  The scan of \<^verbatim>\<open>CliVersion::parse\<close> walks bytes; every test it makes is on an ASCII byte, and no
  byte of a multi-byte character is ASCII, so the model walks scalar values. The two loop
  indices become the suffix still to read and the character before it.
\<close>

section \<open>Versions\<close>

record cli_version =
  parts :: "nat list"
  raw :: ustr

text \<open>The inner loop: collect dotted digit runs. Returns the parts pushed, the open component,
  its digit count, the character before the rest, and the rest.\<close>

fun number_run ::
  "nat list \<Rightarrow> nat \<Rightarrow> nat \<Rightarrow> uchar option \<Rightarrow> ustr \<Rightarrow> nat list \<times> nat \<times> nat \<times> uchar option \<times> ustr"
where
  "number_run ps cur digits prev [] = (ps, cur, digits, prev, [])"
| "number_run ps cur digits prev (c # cs) =
     (if is_ascii_digit c then
        number_run ps (sat_add u64_max (sat_mul u64_max cur 10) (c - 48)) (Suc digits) (Some c) cs
      else if c = 46 \<and> 0 < digits \<and> (case cs of d # _ \<Rightarrow> is_ascii_digit d | [] \<Rightarrow> False) then
        number_run (ps @ [cur]) 0 0 (Some c) cs
      else (ps, cur, digits, prev, c # cs))"

lemma number_run_rest:
  "number_run ps cur d prev s = (ps', cur', d', prev', rest) \<Longrightarrow> length rest \<le> length s"
proof (induction ps cur d prev s rule: number_run.induct)
  case (2 ps cur digits prev c cs)
  then show ?case
    by (force split: if_splits)
qed simp

definition version_boundary :: "uchar option \<Rightarrow> bool" where
  "version_boundary prev \<longleftrightarrow>
     (case prev of None \<Rightarrow> True | Some b \<Rightarrow> b \<in> {32, 118, 86, 40, 9, 10})"

definition version_raw :: "ustr \<Rightarrow> ustr \<Rightarrow> ustr" where
  "version_raw s rest =
     trim_end_matches (\<lambda>c. c \<in> {44, 41, 59})
       (case split_whitespace s of w # _ \<Rightarrow> w | [] \<Rightarrow> take (length s - length rest) s)"

function version_scan :: "uchar option \<Rightarrow> ustr \<Rightarrow> cli_version option" where
  "version_scan prev [] = None"
| "version_scan prev (c # cs) =
     (if \<not> is_ascii_digit c \<or> \<not> version_boundary prev then version_scan (Some c) cs
      else
        (case number_run [] 0 0 prev (c # cs) of
           (ps, cur, digits, prev', rest) \<Rightarrow>
             (let ps' = (if 0 < digits then ps @ [cur] else ps)
              in if 2 \<le> length ps'
                 then Some \<lparr>parts = ps', raw = version_raw (c # cs) rest\<rparr>
                 else version_scan prev' rest)))"
  by pat_completeness auto
termination
  by (relation "measure (\<lambda>(prev, s). length s)") (auto simp: less_Suc_eq_le dest!: sym [THEN number_run_rest])

definition version_parse :: "ustr \<Rightarrow> cli_version option" where
  "version_parse text = version_scan None text"

definition component :: "cli_version \<Rightarrow> nat \<Rightarrow> nat" where
  "component v i = (case get (parts v) i of Some x \<Rightarrow> x | None \<Rightarrow> 0)"

fun cmp_components :: "cli_version \<Rightarrow> cli_version \<Rightarrow> nat list \<Rightarrow> ordering" where
  "cmp_components a b [] = OEqual"
| "cmp_components a b (i # is) =
     (case nat_cmp (component a i) (component b i) of
        OEqual \<Rightarrow> cmp_components a b is
      | ord \<Rightarrow> ord)"

definition version_cmp :: "cli_version \<Rightarrow> cli_version \<Rightarrow> ordering" where
  "version_cmp a b = cmp_components a b [0..<max (length (parts a)) (length (parts b))]"

definition version_eq :: "cli_version \<Rightarrow> cli_version \<Rightarrow> bool" where
  "version_eq a b \<longleftrightarrow> version_cmp a b = OEqual"

section \<open>Version ranges\<close>

datatype comparator = GreaterOrEqual | Greater | LessOrEqual | Less | Equal | NotEqual

definition comparator_tokens :: "(ustr \<times> comparator) list" where
  "comparator_tokens =
     [(lit ''>='', GreaterOrEqual), (lit ''<='', LessOrEqual), (lit ''!='', NotEqual),
      (lit ''=='', Equal), (lit ''>'', Greater), (lit ''<'', Less), (lit ''='', Equal)]"

definition comparator_parse :: "ustr \<Rightarrow> (comparator \<times> ustr) option" where
  "comparator_parse text =
     find_map (\<lambda>(token, comparator).
       map_option (\<lambda>rest. (comparator, trim rest)) (strip_prefix text token)) comparator_tokens"

primrec comparator_admits :: "comparator \<Rightarrow> cli_version \<Rightarrow> cli_version \<Rightarrow> bool" where
  "comparator_admits GreaterOrEqual v b = (version_cmp v b \<noteq> OLess)"
| "comparator_admits Greater v b = (version_cmp v b = OGreater)"
| "comparator_admits LessOrEqual v b = (version_cmp v b \<noteq> OGreater)"
| "comparator_admits Less v b = (version_cmp v b = OLess)"
| "comparator_admits Equal v b = (version_cmp v b = OEqual)"
| "comparator_admits NotEqual v b = (version_cmp v b \<noteq> OEqual)"

record version_range =
  bounds :: "(comparator \<times> cli_version) list"
  range_raw :: ustr

datatype range_error =
    EmptyComparator ustr
  | NoComparator ustr ustr
  | UnparseableVersion ustr ustr

definition range_clause :: "ustr \<Rightarrow> ustr \<Rightarrow> range_error + (comparator \<times> cli_version)" where
  "range_clause text piece =
     (let clause = trim piece
      in if clause = [] then Inl (EmptyComparator text)
         else (case comparator_parse clause of
                 None \<Rightarrow> Inl (NoComparator text clause)
               | Some (comparator, rest) \<Rightarrow>
                   (case version_parse rest of
                      None \<Rightarrow> Inl (UnparseableVersion text clause)
                    | Some bound \<Rightarrow> Inr (comparator, bound))))"

definition range_parse :: "ustr \<Rightarrow> range_error + version_range" where
  "range_parse text =
     (let trimmed = trim text
      in if trimmed = [] \<or> trimmed = lit ''*''
         then Inr \<lparr>bounds = [], range_raw = lit ''*''\<rparr>
         else (case try_each (range_clause text) (split_on 44 trimmed) of
                 Inl e \<Rightarrow> Inl e
               | Inr bs \<Rightarrow> Inr \<lparr>bounds = bs, range_raw = trimmed\<rparr>))"

definition range_admits :: "version_range \<Rightarrow> cli_version option \<Rightarrow> bool" where
  "range_admits r version =
     (case version of
        None \<Rightarrow> True
      | Some v \<Rightarrow> list_all (\<lambda>(comparator, bound). comparator_admits comparator v bound) (bounds r))"

definition is_unbounded :: "version_range \<Rightarrow> bool" where
  "is_unbounded r \<longleftrightarrow> bounds r = []"


section \<open>The scan\<close>

definition version_wf :: "cli_version \<Rightarrow> bool" where
  "version_wf v \<longleftrightarrow> 2 \<le> length (parts v) \<and> list_all (\<lambda>p. p \<le> u64_max) (parts v)"

lemma number_run_bounds:
  "number_run ps cur d prev s = (ps', cur', d', prev', rest) \<Longrightarrow>
   list_all (\<lambda>p. p \<le> u64_max) ps \<Longrightarrow> cur \<le> u64_max \<Longrightarrow>
   list_all (\<lambda>p. p \<le> u64_max) ps' \<and> cur' \<le> u64_max"
proof (induction ps cur d prev s rule: number_run.induct)
  case (2 ps cur digits prev c cs)
  then show ?case
    by (auto simp: sat_add_def split: if_splits)
qed simp

lemma version_scan_wf: "version_scan prev s = Some v \<Longrightarrow> version_wf v"
proof (induction prev s rule: version_scan.induct)
  case (2 prev c cs)
  obtain ps cur d prev' rest where run: "number_run [] 0 0 prev (c # cs) = (ps, cur, d, prev', rest)"
    by (cases "number_run [] 0 0 prev (c # cs)")
  from number_run_bounds [OF run] have "list_all (\<lambda>p. p \<le> u64_max) ps" and "cur \<le> u64_max"
    by simp_all
  with "2.prems" "2.IH" run show ?case
    by (auto simp: version_wf_def Let_def simp del: number_run.simps split: if_splits)
qed simp

text \<open>Digits accumulate without saturating while the value fits 64 bits.\<close>

lemma foldl_digits_mono: "(a::nat) \<le> foldl (\<lambda>n c. 10 * n + (c - 48)) a ds"
proof (induction ds arbitrary: a)
  case (Cons c ds)
  have "a \<le> 10 * a + (c - 48)" by simp
  also have "\<dots> \<le> foldl (\<lambda>n c. 10 * n + (c - 48)) (10 * a + (c - 48)) ds"
    by (rule Cons.IH)
  finally show ?case by simp
qed simp

lemma number_run_digits:
  assumes "list_all is_ascii_digit ds" and "ds \<noteq> []"
    and "foldl (\<lambda>n c. 10 * n + (c - 48)) cur ds \<le> u64_max"
  shows "number_run ps cur d prev (ds @ rest) =
         number_run ps (foldl (\<lambda>n c. 10 * n + (c - 48)) cur ds) (d + length ds) (Some (last ds)) rest"
  using assms
proof (induction ds arbitrary: cur d prev)
  case (Cons c ds)
  let ?v = "10 * cur + (c - 48)"
  have "?v \<le> u64_max"
    using Cons.prems(3) foldl_digits_mono [of ?v ds] by simp
  then have sat: "sat_add u64_max (sat_mul u64_max cur 10) (c - 48) = ?v"
    by (simp add: sat_add_def sat_mul_def)
  show ?case
  proof (cases "ds = []")
    case True
    with Cons.prems sat show ?thesis by simp
  next
    case False
    with Cons.prems sat Cons.IH [of ?v "Suc d" "Some c"] show ?thesis
      by simp
  qed
qed simp

definition run_stop :: "ustr \<Rightarrow> bool" where
  "run_stop s \<longleftrightarrow>
     (case s of
        [] \<Rightarrow> True
      | c # cs \<Rightarrow> \<not> is_ascii_digit c \<and>
          (c = 46 \<longrightarrow> (case cs of d # _ \<Rightarrow> \<not> is_ascii_digit d | [] \<Rightarrow> True)))"

definition version_text :: "nat list \<Rightarrow> ustr" where
  "version_text ps = join [46] (map dec ps)"

lemma number_run_stop:
  "run_stop s \<Longrightarrow> number_run ps cur d prev s = (ps, cur, d, prev, s)"
  by (cases s) (auto simp: run_stop_def split: list.splits)

lemma number_run_dec:
  "n \<le> u64_max \<Longrightarrow> number_run ps 0 0 prev (dec n @ rest) =
     number_run ps n (length (dec n)) (Some (last (dec n))) rest"
  using number_run_digits [of "dec n" 0 ps 0 prev rest] digits_value_dec [of n]
  by (auto simp: digits_value_def list_all_iff dest: dec_digits)

lemma hd_dec_digit: "is_ascii_digit (hd (dec n))"
  by (rule dec_digits [of _ n]) simp

lemma version_text_head: "ps \<noteq> [] \<Longrightarrow> \<exists>c cs. version_text ps @ s = c # cs \<and> is_ascii_digit c"
proof -
  assume "ps \<noteq> []"
  then obtain n ns where ps: "ps = n # ns"
    by (cases ps) auto
  obtain c cs where d: "dec n = c # cs"
    by (cases "dec n") auto
  with hd_dec_digit [of n] show ?thesis
    unfolding ps version_text_def by (cases ns) auto
qed

lemma number_run_version_text:
  assumes "ps \<noteq> []" and "list_all (\<lambda>p. p \<le> u64_max) ps" and "run_stop s"
  shows "\<exists>d prev'. 0 < d \<and>
    number_run acc 0 0 prev (version_text ps @ s) = (acc @ butlast ps, last ps, d, prev', s)"
  using assms
proof (induction ps arbitrary: acc prev)
  case (Cons n ns)
  show ?case
  proof (cases "ns = []")
    case True
    with Cons.prems show ?thesis
      by (auto simp: version_text_def number_run_dec number_run_stop)
  next
    case False
    have "number_run acc 0 0 prev (version_text (n # ns) @ s) =
          number_run acc 0 0 prev (dec n @ 46 # version_text ns @ s)"
      using False by (cases ns) (simp_all add: version_text_def)
    also have "\<dots> = number_run acc n (length (dec n)) (Some (last (dec n))) (46 # version_text ns @ s)"
      using Cons.prems by (simp add: number_run_dec)
    also have "\<dots> = number_run (acc @ [n]) 0 0 (Some 46) (version_text ns @ s)"
      using version_text_head [OF False, of s]
      by (auto simp: is_ascii_digit_def split: list.splits)
    finally show ?thesis
      using Cons.IH [OF False, of "acc @ [n]" "Some 46"] Cons.prems False by simp
  qed
qed simp

text \<open>The scan skips any prefix without digits.\<close>

lemma version_scan_skip:
  "list_all (\<lambda>c. \<not> is_ascii_digit c) pre \<Longrightarrow>
   version_scan prev (pre @ s) = version_scan (if pre = [] then prev else Some (last pre)) s"
  by (induction pre arbitrary: prev) auto

lemma version_scan_at_text:
  assumes "2 \<le> length ps" and "list_all (\<lambda>p. p \<le> u64_max) ps" and "run_stop s"
    and "version_boundary prev"
  shows "version_scan prev (version_text ps @ s) =
    Some \<lparr>parts = ps, raw = version_raw (version_text ps @ s) s\<rparr>"
proof -
  have ne: "ps \<noteq> []" using assms(1) by auto
  obtain c cs where t: "version_text ps @ s = c # cs" and c: "is_ascii_digit c"
    using version_text_head [OF ne] by blast
  obtain d prev' where d: "0 < d" and
    run: "number_run [] 0 0 prev (version_text ps @ s) = (butlast ps, last ps, d, prev', s)"
    using number_run_version_text [OF ne assms(2,3), of "[]" prev] by auto
  from run d c assms(1,4) ne show ?thesis
    unfolding t by (simp del: number_run.simps)
qed

section \<open>Ordering\<close>

lemma component_beyond [simp]: "length (parts v) \<le> i \<Longrightarrow> component v i = 0"
  by (simp add: component_def get_def)

lemma cmp_components_append:
  "cmp_components a b (is @ js) =
     (case cmp_components a b is of OEqual \<Rightarrow> cmp_components a b js | ord \<Rightarrow> ord)"
  by (induction "is") (auto split: ordering.splits)

lemma cmp_components_eq_iff:
  "cmp_components a b is = OEqual \<longleftrightarrow> (\<forall>i \<in> set is. component a i = component b i)"
  by (induction "is") (auto split: ordering.splits)

text \<open>Padding with zero components does not change the comparison.\<close>

lemma version_cmp_pad:
  assumes "max (length (parts a)) (length (parts b)) \<le> n"
  shows "version_cmp a b = cmp_components a b [0..<n]"
proof -
  let ?w = "max (length (parts a)) (length (parts b))"
  have "[0..<n] = [0..<?w] @ [?w..<n]"
    using assms upt_add_eq_append [of 0 ?w "n - ?w"] by simp
  moreover have "cmp_components a b [?w..<n] = OEqual"
    by (simp add: cmp_components_eq_iff)
  ultimately show ?thesis
    by (auto simp: version_cmp_def cmp_components_append split: ordering.splits)
qed

lemma cmp_components_flip:
  "cmp_components b a is = ordering_reverse (cmp_components a b is)"
proof (induction "is")
  case (Cons i "is")
  then show ?case
    by (auto simp: nat_cmp_def)
qed simp

lemma cmp_components_trans:
  "cmp_components a b is \<noteq> OGreater \<Longrightarrow> cmp_components b c is \<noteq> OGreater \<Longrightarrow>
   cmp_components a c is \<noteq> OGreater"
  by (induction "is") (auto split: ordering.splits)

lemma cmp_components_less_iff:
  "cmp_components a b is = OLess \<longleftrightarrow>
   (\<exists>k < length is. component a (is ! k) < component b (is ! k) \<and>
        (\<forall>j < k. component a (is ! j) = component b (is ! j)))"
proof (induction "is")
  case (Cons i "is")
  show ?case
  proof (cases "component a i" "component b i" rule: linorder_cases)
    case less
    then show ?thesis by (simp add: nat_cmp_def Ex_less_Suc2)
  next
    case equal
    with Cons show ?thesis by (simp add: nat_cmp_def Ex_less_Suc2 All_less_Suc2)
  next
    case greater
    then show ?thesis by (simp add: nat_cmp_def Ex_less_Suc2 All_less_Suc2)
  qed
qed simp

interpretation version_ord: ord_contract version_cmp
proof
  fix a b c :: cli_version
  show "version_cmp a a = OEqual"
    by (simp add: version_cmp_def cmp_components_eq_iff)
  show "version_cmp b a = ordering_reverse (version_cmp a b)"
    by (simp add: version_cmp_def cmp_components_flip [of b a] max.commute)
  let ?n = "max (length (parts a)) (max (length (parts b)) (length (parts c)))"
  have ab: "version_cmp a b = cmp_components a b [0..<?n]"
    and bc: "version_cmp b c = cmp_components b c [0..<?n]"
    and ac: "version_cmp a c = cmp_components a c [0..<?n]"
    by (rule version_cmp_pad; simp)+
  assume "version_cmp a b \<noteq> OGreater" and "version_cmp b c \<noteq> OGreater"
  then show "version_cmp a c \<noteq> OGreater"
    unfolding ab bc ac by (rule cmp_components_trans)
qed


section \<open>Ranges\<close>

lemma version_text_chars: "c \<in> set (version_text ps) \<Longrightarrow> is_ascii_digit c \<or> c = 46"
  by (auto simp: version_text_def dest!: set_join dec_digits)

lemma last_join: "ws \<noteq> [] \<Longrightarrow> last ws \<noteq> [] \<Longrightarrow> last (join sep ws) = last (last ws) \<and> join sep ws \<noteq> []"
  by (induction sep ws rule: join.induct) auto

lemma version_text_last: "ps \<noteq> [] \<Longrightarrow> version_text ps \<noteq> [] \<and> is_ascii_digit (last (version_text ps))"
  using last_join [of "map dec ps" "[46]"] dec_digits [OF last_in_set [of "dec (last ps)"]]
  by (simp add: version_text_def last_map)

lemma trim_version_text: "ps \<noteq> [] \<Longrightarrow> trim (version_text ps) = version_text ps"
  using version_text_last [of ps] version_text_head [of ps "[]"]
  by (intro trim_id) auto

primrec comparator_token :: "comparator \<Rightarrow> ustr" where
  "comparator_token GreaterOrEqual = lit ''>=''"
| "comparator_token Greater = lit ''>''"
| "comparator_token LessOrEqual = lit ''<=''"
| "comparator_token Less = lit ''<''"
| "comparator_token Equal = lit ''=''"
| "comparator_token NotEqual = lit ''!=''"

lemma comparator_parse_token:
  assumes "ps \<noteq> []"
  shows "comparator_parse (comparator_token c @ version_text ps) = Some (c, version_text ps)"
proof -
  obtain d ds where t: "version_text ps = d # ds" and d: "is_ascii_digit d"
    using version_text_head [OF assms, of "[]"] by auto
  have "d \<noteq> 61"
    using d by (auto simp: is_ascii_digit_def)
  with trim_version_text [OF assms] show ?thesis
    unfolding t
    by (cases c)
       (simp_all add: comparator_parse_def comparator_tokens_def strip_prefix_def starts_with_def)
qed

definition bound_text :: "comparator \<times> nat list \<Rightarrow> ustr" where
  "bound_text b = comparator_token (fst b) @ version_text (snd b)"

lemma bound_text_chars:
  "c \<in> set (bound_text b) \<Longrightarrow> is_ascii_digit c \<or> c \<in> {46, 60, 61, 62, 33}"
  by (cases b; cases "fst b") (auto simp: bound_text_def dest!: version_text_chars)

lemma bound_text_ends:
  assumes "snd b \<noteq> []"
  shows "bound_text b \<noteq> []" and "\<not> is_whitespace (hd (bound_text b))"
    and "\<not> is_whitespace (last (bound_text b))"
proof -
  show ne: "bound_text b \<noteq> []"
    using version_text_last [OF assms] by (simp add: bound_text_def)
  have "\<not> is_whitespace c" if "c \<in> set (bound_text b)" for c
    using bound_text_chars [OF that] by (auto simp: is_whitespace_def is_ascii_digit_def)
  then show "\<not> is_whitespace (hd (bound_text b))" and "\<not> is_whitespace (last (bound_text b))"
    using ne by simp_all
qed

lemma range_clause_bound_text:
  assumes "2 \<le> length (snd b)" and "list_all (\<lambda>p. p \<le> u64_max) (snd b)"
  shows "\<exists>v. range_clause text (bound_text b) = Inr (fst b, v) \<and> parts v = snd b"
proof -
  have ne: "snd b \<noteq> []" using assms(1) by auto
  have "version_parse (version_text (snd b)) =
      Some \<lparr>parts = snd b, raw = version_raw (version_text (snd b)) []\<rparr>"
    using version_scan_at_text [of "snd b" "[]" None] assms
    by (simp add: version_parse_def run_stop_def version_boundary_def)
  moreover have "trim (bound_text b) = bound_text b"
    using bound_text_ends [OF ne] by (intro trim_id)
  ultimately show ?thesis
    using bound_text_ends(1) [OF ne] comparator_parse_token [OF ne, of "fst b"]
    by (auto simp: range_clause_def bound_text_def Let_def)
qed

definition range_text :: "(comparator \<times> nat list) list \<Rightarrow> ustr" where
  "range_text bs = join [44] (map bound_text bs)"

lemma try_each_bound_text:
  assumes "\<forall>b \<in> set bs. 2 \<le> length (snd b) \<and> list_all (\<lambda>p. p \<le> u64_max) (snd b)"
  shows "\<exists>vs. try_each (range_clause t) (map bound_text bs) = Inr vs \<and>
    map (\<lambda>(c, v). (c, parts v)) vs = bs"
  using assms
proof (induction bs)
  case (Cons b bs)
  then obtain vs where "try_each (range_clause t) (map bound_text bs) = Inr vs"
      and "map (\<lambda>(c, v). (c, parts v)) vs = bs"
    by auto
  moreover obtain v where "range_clause t (bound_text b) = Inr (fst b, v)" and "parts v = snd b"
    using range_clause_bound_text [of b t] Cons.prems by auto
  ultimately show ?case
    by (intro exI [of _ "(fst b, v) # vs"]) simp
qed simp

lemma range_text_trim:
  assumes "bs \<noteq> []" and "\<forall>b \<in> set bs. snd b \<noteq> []"
  shows "range_text bs \<noteq> []" and "trim (range_text bs) = range_text bs"
    and "range_text bs \<noteq> lit ''*''" and "split_on 44 (range_text bs) = map bound_text bs"
proof -
  have ne: "\<forall>b \<in> set bs. bound_text b \<noteq> []"
    using assms(2) bound_text_ends(1) by blast
  then show rne: "range_text bs \<noteq> []"
    using assms(1) last_join [of "map bound_text bs" "[44]"]
    by (simp add: range_text_def last_map)
  have chars: "is_ascii_digit c \<or> c \<in> {46, 60, 61, 62, 33, 44}" if "c \<in> set (range_text bs)" for c
    using that unfolding range_text_def by (auto dest!: set_join bound_text_chars)
  have "\<not> is_whitespace c" if "c \<in> set (range_text bs)" for c
    using chars [OF that] by (auto simp: is_whitespace_def is_ascii_digit_def)
  with rne show "trim (range_text bs) = range_text bs"
    by (intro trim_id) simp_all
  show "range_text bs \<noteq> lit ''*''"
  proof
    assume "range_text bs = lit ''*''"
    with chars [of 42] show False by (simp add: is_ascii_digit_def)
  qed
  have "\<forall>p \<in> set (map bound_text bs). 44 \<notin> set p"
    by (auto dest!: bound_text_chars simp: is_ascii_digit_def)
  then show "split_on 44 (range_text bs) = map bound_text bs"
    using assms(1) unfolding range_text_def by (intro split_on_join) simp_all
qed

text \<open>Comparators other than \<open>NotEqual\<close> cut the order at one point, so they are convex.\<close>

lemma comparator_convex:
  assumes "c \<noteq> NotEqual" and "comparator_admits c a w" and "comparator_admits c b w"
    and "version_cmp a v \<noteq> OGreater" and "version_cmp v b \<noteq> OGreater"
  shows "comparator_admits c v w"
proof -
  note trans = version_ord.cmp_le_trans and flip = version_ord.greater_iff_less
  show ?thesis
  proof (cases c)
    case GreaterOrEqual
    with assms show ?thesis using trans [of w a v] flip [of w] by simp
  next
    case Greater
    with assms show ?thesis using version_ord.less_le_trans [of w a v] flip by simp
  next
    case LessOrEqual
    with assms show ?thesis using trans [of v b w] by simp
  next
    case Less
    with assms show ?thesis using version_ord.le_less_trans [of v b w] by simp
  next
    case Equal
    with assms have "version_cmp v w \<noteq> OGreater" and "version_cmp w v \<noteq> OGreater"
      using version_ord.cmp_cong_left [of a w v] version_ord.cmp_cong_right [of b w v] by auto
    with Equal show ?thesis using flip [of w v] by (cases "version_cmp v w") simp_all
  qed (use assms in simp)
qed


section \<open>Properties\<close>

text \<open>
  \<^verbatim>\<open>CliVersion::parse\<close> reads back a printed version wherever it stands in the output: after any
  prefix without digits that is empty or ends at a boundary character, and before any text that
  does not continue the dotted run, the parsed components are exactly the printed ones, whatever
  padding the CLI adds.
\<close>

theorem version_parse_finds:
  assumes "list_all (\<lambda>c. \<not> is_ascii_digit c) pre"
    and "pre = [] \<or> version_boundary (Some (last pre))"
    and "2 \<le> length ps" and "list_all (\<lambda>p. p \<le> u64_max) ps" and "run_stop suf"
  shows "\<exists>v. version_parse (pre @ version_text ps @ suf) = Some v \<and> parts v = ps"
proof -
  have "version_boundary (if pre = [] then None else Some (last pre))"
    using assms(2) by (auto simp: version_boundary_def)
  then show ?thesis
    using version_scan_at_text [OF assms(3-5)] version_scan_skip [OF assms(1), of None]
    by (simp add: version_parse_def)
qed

theorem version_parse_finds_witness:
  "\<exists>v. version_parse (lit ''claude v'' @ version_text [2, 1, 263] @ lit '' (Claude)'') = Some v \<and>
     parts v = [2, 1, 263]"
  by (rule version_parse_finds)
     (simp_all add: is_ascii_digit_def version_boundary_def u64_max_def run_stop_def)

text \<open>
  A version that parses has at least two components and each fits 64 bits, the saturating
  arithmetic included.
\<close>

theorem version_parse_wf:
  assumes "version_parse s = Some v"
  shows "version_wf v"
  using assms unfolding version_parse_def by (rule version_scan_wf)

theorem version_parse_wf_witness:
  "version_wf \<lparr>parts = [1, 18], raw = version_text [1, 18]\<rparr>"
proof (rule version_parse_wf)
  have "version_raw (version_text [1, 18]) [] = version_text [1, 18]"
    by code_simp
  then show "version_parse (version_text [1, 18] @ []) = Some \<lparr>parts = [1, 18], raw = version_text [1, 18]\<rparr>"
    unfolding version_parse_def
    by (subst version_scan_at_text) (simp_all add: u64_max_def run_stop_def version_boundary_def)
qed

text \<open>
  \<^verbatim>\<open>Ord for CliVersion\<close> compares by the first component that differs, missing components
  reading as zero; two versions are equal exactly when all components agree under that padding.
\<close>

theorem version_cmp_first_difference:
  "version_cmp a b =
     (if \<exists>k. component a k < component b k \<and> (\<forall>j < k. component a j = component b j) then OLess
      else if \<forall>k. component a k = component b k then OEqual
      else OGreater)"
proof -
  let ?w = "max (length (parts a)) (length (parts b))"
  have less: "version_cmp a b = OLess \<longleftrightarrow>
      (\<exists>k. component a k < component b k \<and> (\<forall>j < k. component a j = component b j))"
  proof -
    have "k < ?w" if "component a k < component b k" for k
      using that component_beyond [of a k] component_beyond [of b k] by (cases "k < ?w") auto
    then show ?thesis
      by (fastforce simp: version_cmp_def cmp_components_less_iff)
  qed
  have "version_cmp a b = OEqual \<longleftrightarrow> (\<forall>k. component a k = component b k)"
    using component_beyond [of a] component_beyond [of b]
    by (auto simp: version_cmp_def cmp_components_eq_iff)
  with less show ?thesis
    by (cases "version_cmp a b") auto
qed

theorem version_cmp_first_difference_witness:
  "version_cmp \<lparr>parts = [2, 3], raw = []\<rparr> \<lparr>parts = [2, 3, 0], raw = []\<rparr> = OEqual \<and>
   version_cmp \<lparr>parts = [2, 3], raw = []\<rparr> \<lparr>parts = [2, 3, 7], raw = []\<rparr> = OLess"
proof
  have c: "component \<lparr>parts = [2, 3, 0], raw = []\<rparr> k = component \<lparr>parts = [2, 3], raw = []\<rparr> k" for k
    by (cases k rule: nat.exhaust; cases "k - 1"; cases "k - 2") (auto simp: component_def get_def)
  show "version_cmp \<lparr>parts = [2, 3], raw = []\<rparr> \<lparr>parts = [2, 3, 0], raw = []\<rparr> = OEqual"
    by (subst version_cmp_first_difference) (simp add: c)
  have "component \<lparr>parts = [2, 3], raw = []\<rparr> 2 < component \<lparr>parts = [2, 3, 7], raw = []\<rparr> 2 \<and>
    (\<forall>j < 2. component \<lparr>parts = [2, 3], raw = []\<rparr> j = component \<lparr>parts = [2, 3, 7], raw = []\<rparr> j)"
    by (auto simp: component_def get_def less_2_cases_iff)
  then have "\<exists>k. component \<lparr>parts = [2, 3], raw = []\<rparr> k < component \<lparr>parts = [2, 3, 7], raw = []\<rparr> k \<and>
    (\<forall>j < k. component \<lparr>parts = [2, 3], raw = []\<rparr> j = component \<lparr>parts = [2, 3, 7], raw = []\<rparr> j)"
    by (rule exI)
  then show "version_cmp \<lparr>parts = [2, 3], raw = []\<rparr> \<lparr>parts = [2, 3, 7], raw = []\<rparr> = OLess"
    by (subst version_cmp_first_difference) (rule if_P)
qed

text \<open>
  A version range round-trips: the text of any non-empty conjunction of comparators parses
  back to the same comparators over the same components, in order.
\<close>

theorem range_parse_roundtrip:
  assumes "bs \<noteq> []"
    and "\<forall>b \<in> set bs. 2 \<le> length (snd b) \<and> list_all (\<lambda>p. p \<le> u64_max) (snd b)"
  shows "\<exists>r. range_parse (range_text bs) = Inr r \<and> map (\<lambda>(c, v). (c, parts v)) (bounds r) = bs"
proof -
  have ne: "\<forall>b \<in> set bs. snd b \<noteq> []"
    using assms(2) by auto
  obtain vs where "try_each (range_clause (range_text bs)) (map bound_text bs) = Inr vs"
    and "map (\<lambda>(c, v). (c, parts v)) vs = bs"
    using try_each_bound_text [OF assms(2)] by blast
  then show ?thesis
    using range_text_trim [OF assms(1) ne] by (simp add: range_parse_def)
qed

theorem range_parse_roundtrip_witness:
  "\<exists>r. range_parse (range_text [(GreaterOrEqual, [1, 16]), (Less, [1, 19])]) = Inr r \<and>
     map (\<lambda>(c, v). (c, parts v)) (bounds r) = [(GreaterOrEqual, [1, 16]), (Less, [1, 19])]"
  by (rule range_parse_roundtrip) (simp_all add: u64_max_def)

text \<open>
  A range without a \<^verbatim>\<open>!=\<close> comparator is an interval of the version order: it admits every
  version between two it admits. An unknown version is admitted by every range.
\<close>

theorem range_admits_convex:
  assumes "\<forall>(c, w) \<in> set (bounds r). c \<noteq> NotEqual"
    and "range_admits r (Some a)" and "range_admits r (Some b)"
    and "version_cmp a v \<noteq> OGreater" and "version_cmp v b \<noteq> OGreater"
  shows "range_admits r (Some v) \<and> range_admits r None"
  using assms comparator_convex [of _ a _ b v]
  by (fastforce simp: range_admits_def list_all_iff)

theorem range_admits_convex_witness:
  "range_admits \<lparr>bounds = [(GreaterOrEqual, \<lparr>parts = [1, 16], raw = []\<rparr>),
       (Less, \<lparr>parts = [1, 19], raw = []\<rparr>)], range_raw = []\<rparr> (Some \<lparr>parts = [1, 18, 15], raw = []\<rparr>) \<and>
   range_admits \<lparr>bounds = [(GreaterOrEqual, \<lparr>parts = [1, 16], raw = []\<rparr>),
       (Less, \<lparr>parts = [1, 19], raw = []\<rparr>)], range_raw = []\<rparr> None"
  by (rule range_admits_convex
        [where a = "\<lparr>parts = [1, 16], raw = []\<rparr>" and b = "\<lparr>parts = [1, 18, 20], raw = []\<rparr>"])
     (simp_all add: range_admits_def version_cmp_def component_def get_def nat_cmp_def upt_rec)

end
