(* ===== verification/Progress.thy ===== *)
theory Progress
  imports Prelude
begin

text \<open>
  \<^verbatim>\<open>crates/daemon/src/detection/progress.rs\<close> and \<^verbatim>\<open>ProgressState\<close> of \<^verbatim>\<open>schema.rs\<close>: the incremental
  scanner that reads OSC 9;4 progress reports out of the raw PTY byte stream, one byte at a time,
  across reads that split anywhere. Bytes are numbers below 256.
\<close>

section \<open>Reports\<close>

datatype progress_state = Removed | Normal | Error | Indeterminate | Paused

definition from_code :: "nat \<Rightarrow> progress_state option" where
  "from_code code =
     (if code = 0 then Some Removed
      else if code = 1 then Some Normal
      else if code = 2 then Some Error
      else if code = 3 then Some Indeterminate
      else if code = 4 then Some Paused
      else None)"

record progress_report =
  report_state :: progress_state
  percent :: "nat option"

definition parse_progress :: "ustr \<Rightarrow> progress_report option" where
  "parse_progress payload =
     (case split_on 59 payload of
        f0 # f1 # f2 # rest \<Rightarrow>
          (if f0 \<noteq> lit ''9'' then None
           else if f1 \<noteq> lit ''4'' then None
           else do {
             code \<leftarrow> parse_uint 255 (trim f2);
             state \<leftarrow> from_code code;
             Some \<lparr>report_state = state,
                   percent = (case rest of
                      [] \<Rightarrow> None
                    | value # _ \<Rightarrow>
                        (case parse_uint 255 (trim value) of
                           None \<Rightarrow> None
                         | Some p \<Rightarrow> if p \<le> 100 then Some p else None))\<rparr>
           })
      | _ \<Rightarrow> None)"

section \<open>The scanner\<close>

datatype scan_state = Text | Escape | Payload | PayloadEscape

record progress_scanner =
  scan :: scan_state
  payload :: ustr
  ignoring :: bool
  latest :: "progress_report option"

definition MAX_PAYLOAD :: nat where
  "MAX_PAYLOAD = 64"

definition scanner_new :: progress_scanner where
  "scanner_new = \<lparr>scan = Text, payload = [], ignoring = False, latest = None\<rparr>"

definition latest_state :: "progress_scanner \<Rightarrow> progress_state option" where
  "latest_state s = map_option report_state (latest s)"

definition accumulate :: "progress_scanner \<Rightarrow> byte \<Rightarrow> progress_scanner" where
  "accumulate s b =
     (if ignoring s then s
      else if MAX_PAYLOAD \<le> str_len (payload s) then s\<lparr>ignoring := True, payload := []\<rparr>
      else if is_ascii b then s\<lparr>payload := payload s @ [b]\<rparr>
      else s\<lparr>ignoring := True, payload := []\<rparr>)"

definition finish :: "progress_scanner \<Rightarrow> progress_scanner" where
  "finish s =
     (let s' = (if \<not> ignoring s
                then (case parse_progress (payload s) of
                        Some report \<Rightarrow> s\<lparr>latest := Some report\<rparr>
                      | None \<Rightarrow> s)
                else s)
      in s'\<lparr>payload := [], ignoring := False, scan := Text\<rparr>)"

definition push :: "progress_scanner \<Rightarrow> byte \<Rightarrow> progress_scanner" where
  "push s b =
     (case scan s of
        Text \<Rightarrow> if b = 27 then s\<lparr>scan := Escape\<rparr> else s
      | Escape \<Rightarrow>
          (if b = 93 then s\<lparr>payload := [], ignoring := False, scan := Payload\<rparr>
           else if b = 27 then s\<lparr>scan := Escape\<rparr>
           else s\<lparr>scan := Text\<rparr>)
      | Payload \<Rightarrow>
          (if b = 7 then finish s
           else if b = 27 then s\<lparr>scan := PayloadEscape\<rparr>
           else accumulate s b)
      | PayloadEscape \<Rightarrow>
          (if b = 92 then finish s
           else if b = 93 then s\<lparr>payload := [], ignoring := False, scan := Payload\<rparr>
           else s\<lparr>payload := [], scan := Text\<rparr>))"

definition scanner_write :: "progress_scanner \<Rightarrow> byte list \<Rightarrow> progress_scanner" where
  "scanner_write s bytes = foldl push s bytes"

section \<open>The scanner's invariant\<close>

text \<open>The buffer stays within the bound, holds ASCII only, and is empty while ignoring or outside
  a payload.\<close>

definition scanner_inv :: "progress_scanner \<Rightarrow> bool" where
  "scanner_inv s \<longleftrightarrow>
     length (payload s) \<le> MAX_PAYLOAD \<and> list_all is_ascii (payload s) \<and>
     (ignoring s \<longrightarrow> payload s = []) \<and> (scan s \<in> {Text, Escape} \<longrightarrow> payload s = [])"

lemma str_len_ascii: "list_all is_ascii s \<Longrightarrow> str_len s = length s"
  by (induction s) (auto simp: str_len_def as_bytes_def utf8_char_def is_ascii_def)

lemma scanner_inv_new: "scanner_inv scanner_new"
  by (simp add: scanner_inv_def scanner_new_def)

lemma push_inv: "scanner_inv s \<Longrightarrow> scanner_inv (push s b)"
  by (cases "scan s")
     (auto simp: push_def scanner_inv_def finish_def accumulate_def str_len_ascii Let_def
       split: option.splits)

lemma scanner_write_inv: "scanner_inv s \<Longrightarrow> scanner_inv (scanner_write s bs)"
  unfolding scanner_write_def by (induction bs arbitrary: s) (auto simp: push_inv)

lemma scanner_write_append: "scanner_write s (as @ bs) = scanner_write (scanner_write s as) bs"
  by (simp add: scanner_write_def)

lemma scanner_write_concat: "foldl scanner_write s chunks = scanner_write s (concat chunks)"
  by (induction chunks arbitrary: s) (simp_all add: scanner_write_append, simp add: scanner_write_def)

section \<open>Reading a report\<close>

primrec state_code :: "progress_state \<Rightarrow> nat" where
  "state_code Removed = 0"
| "state_code Normal = 1"
| "state_code Error = 2"
| "state_code Indeterminate = 3"
| "state_code Paused = 4"

lemma from_code_state_code [simp]: "from_code (state_code st) = Some st"
  by (cases st) (simp_all add: from_code_def)

definition progress_payload :: "progress_state \<Rightarrow> nat \<Rightarrow> ustr" where
  "progress_payload st p = lit ''9;4;'' @ dec (state_code st) @ lit '';'' @ dec p"

lemma trim_dec [simp]: "trim (dec n) = dec n"
  using dec_digits [of "hd (dec n)" n] dec_digits [of "last (dec n)" n] by (intro trim_id) auto

lemma split_dec: "split_on 59 (dec n) = [dec n]" "split_on 59 (dec n @ 59 # s) = dec n # split_on 59 s"
proof -
  have "59 \<notin> set (dec n)"
    by (auto dest!: dec_digits simp: is_ascii_digit_def)
  then show "split_on 59 (dec n) = [dec n]" "split_on 59 (dec n @ 59 # s) = dec n # split_on 59 s"
    by (simp_all add: split_on_no_sep split_on_append)
qed

lemma parse_progress_payload:
  assumes "p \<le> 100"
  shows "parse_progress (progress_payload st p) = Some \<lparr>report_state = st, percent = Some p\<rparr>"
proof -
  have "state_code st \<le> 255"
    by (cases st) simp_all
  then show ?thesis
    using assms by (simp add: parse_progress_def progress_payload_def split_dec parse_uint_dec)
qed

lemma write_payload:
  assumes "scan s = Payload" and "\<not> ignoring s" and "list_all is_ascii (payload s @ bs)"
    and "length (payload s @ bs) \<le> MAX_PAYLOAD" and "list_all (\<lambda>b. b \<noteq> 7 \<and> b \<noteq> 27) bs"
  shows "scanner_write s bs = s\<lparr>payload := payload s @ bs\<rparr>"
  using assms
proof (induction bs arbitrary: s)
  case (Cons b bs)
  have "push s b = s\<lparr>payload := payload s @ [b]\<rparr>"
    using Cons.prems by (simp add: push_def accumulate_def str_len_ascii)
  then show ?case
    using Cons.prems Cons.IH [of "s\<lparr>payload := payload s @ [b]\<rparr>"]
    by (simp add: scanner_write_def)
qed (simp add: scanner_write_def)

lemma write_text:
  "scan s = Text \<Longrightarrow> list_all (\<lambda>b. b \<noteq> 27) bs \<Longrightarrow> scanner_write s bs = s"
  by (induction bs) (auto simp: scanner_write_def push_def)

lemma dec_length_percent: "p \<le> 100 \<Longrightarrow> length (dec p) \<le> 3"
  by (simp add: dec.simps [of p] dec.simps [of "p div 10"] dec.simps [of "p div 10 div 10"])

lemma progress_payload_bytes:
  assumes "p \<le> 100"
  shows "list_all is_ascii (progress_payload st p)" and "length (progress_payload st p) \<le> MAX_PAYLOAD"
    and "list_all (\<lambda>b. b \<noteq> 7 \<and> b \<noteq> 27) (progress_payload st p)"
proof -
  have "is_ascii_digit c \<or> c \<in> {57, 59, 52}" if "c \<in> set (progress_payload st p)" for c
    using that by (auto simp: progress_payload_def dest: dec_digits)
  then show "list_all is_ascii (progress_payload st p)"
    and "list_all (\<lambda>b. b \<noteq> 7 \<and> b \<noteq> 27) (progress_payload st p)"
    by (fastforce simp: list_all_iff is_ascii_def is_ascii_digit_def)+
  have "state_code st \<le> 100"
    by (cases st) simp_all
  then show "length (progress_payload st p) \<le> MAX_PAYLOAD"
    using dec_length_percent [OF assms] dec_length_percent [of "state_code st"]
    by (simp add: progress_payload_def MAX_PAYLOAD_def)
qed


lemma write_report:
  assumes "scan s = Text" and "list_all (\<lambda>b. b \<noteq> 27) pre" and "p \<le> 100"
    and "fin = [7] \<or> fin = [27, 92]"
  shows "scanner_write s (pre @ [27, 93] @ progress_payload st p @ fin) =
    s\<lparr>scan := Text, payload := [], ignoring := False,
      latest := Some \<lparr>report_state = st, percent = Some p\<rparr>\<rparr>"
proof -
  let ?o = "s\<lparr>payload := [], ignoring := False, scan := Payload\<rparr>"
  let ?b = "?o\<lparr>payload := progress_payload st p\<rparr>"
  have "scanner_write s (pre @ [27, 93]) = ?o"
    using write_text [OF assms(1,2)] assms(1)
    by (simp add: scanner_write_append) (simp add: scanner_write_def push_def)
  moreover have "scanner_write ?o (progress_payload st p) = ?b"
    using progress_payload_bytes [OF assms(3)] by (subst write_payload) simp_all
  moreover have "scanner_write ?b fin =
      s\<lparr>scan := Text, payload := [], ignoring := False,
        latest := Some \<lparr>report_state = st, percent = Some p\<rparr>\<rparr>"
    using assms(4) parse_progress_payload [OF assms(3)]
    by (auto simp: scanner_write_def push_def finish_def)
  ultimately show ?thesis
    by (metis append.assoc scanner_write_append)
qed

section \<open>Properties\<close>

text \<open>
  A progress report is read however the PTY splits it: when the chunks written to a scanner
  outside any sequence concatenate to ordinary text followed by one OSC 9;4 report, ended by BEL or
  by ESC backslash, the scanner ends outside any sequence and the report is the latest.
\<close>

theorem progress_report_read:
  assumes "scan s = Text" and "list_all (\<lambda>b. b \<noteq> 27) pre" and "p \<le> 100"
    and "fin = [7] \<or> fin = [27, 92]"
    and "concat chunks = pre @ [27, 93] @ progress_payload st p @ fin"
  shows "latest (foldl scanner_write s chunks) = Some \<lparr>report_state = st, percent = Some p\<rparr> \<and>
    scan (foldl scanner_write s chunks) = Text"
  using write_report [OF assms(1-4)] assms(5) by (simp add: scanner_write_concat)

theorem progress_report_read_witness:
  "latest (foldl scanner_write scanner_new
       [lit ''build'' @ [27], [93] @ lit ''9;4;1'', lit '';'', lit ''50'', [7]]) =
     Some \<lparr>report_state = Normal, percent = Some 50\<rparr> \<and>
   scan (foldl scanner_write scanner_new
       [lit ''build'' @ [27], [93] @ lit ''9;4;1'', lit '';'', lit ''50'', [7]]) = Text"
  by (rule progress_report_read [where pre = "lit ''build''" and fin = "[7]"])
     (simp_all add: scanner_new_def progress_payload_def dec.simps)

text \<open>
  Whatever bytes a scanner is fed, its buffer never exceeds the payload bound, holds ASCII only,
  and is empty while ignoring or outside a payload, so a stream cannot make it grow.
\<close>

theorem scanner_bounded:
  "scanner_inv (foldl scanner_write scanner_new chunks) \<and>
   str_len (payload (foldl scanner_write scanner_new chunks)) \<le> MAX_PAYLOAD"
proof -
  have "scanner_inv (foldl scanner_write scanner_new chunks)"
    unfolding scanner_write_concat by (rule scanner_write_inv [OF scanner_inv_new])
  then show ?thesis
    by (simp add: scanner_inv_def str_len_ascii)
qed

text \<open>
  Inside a payload a second ESC sends the scanner to plain text, so the sequence that follows is
  lost; outside a payload the same two bytes keep it.
\<close>

lemma double_escape_drops_next_report:
  "latest (scanner_write scanner_new ([27, 93, 48, 27, 27, 93] @ progress_payload Normal 50 @ [7])) = None"
  "latest (scanner_write scanner_new ([27, 27, 93] @ progress_payload Normal 50 @ [7])) =
     Some \<lparr>report_state = Normal, percent = Some 50\<rparr>"
  by code_simp+

end
