(* ===== verification/Providers.thy ===== *)
theory Providers
  imports Prelude
begin

text \<open>
  \<^verbatim>\<open>crates/kanna-agent-protocol/src/providers.rs\<close> (the provider registry and compact selectors),
  \<^verbatim>\<open>crates/kanna-server/src/task_creator/provider.rs\<close> (which provider a spawn uses, and the model
  and effort it may draw) and the caller-declared labels of \<^verbatim>\<open>crates/kanna-server/src/db/stage_runs.rs\<close>.

  Whether a provider's executable is found (\<^verbatim>\<open>environment::resolve_provider_executable\<close>, a search
  of the file system) is the predicate argument \<open>available\<close> of \<open>resolve_agent_provider\<close>. Of an
  \<^verbatim>\<open>AgentDefinition\<close> only its provider list is read.
\<close>

section \<open>The registry\<close>

datatype agent_provider = Claude | Copilot | Codex | Opencode | Antigravity

datatype agent_session_type = Pty | Agent

datatype effort_override = Flag ustr | Config ustr

definition ALL_PROVIDERS :: "agent_provider list" where
  "ALL_PROVIDERS = [Claude, Copilot, Codex, Opencode, Antigravity]"

primrec provider_str :: "agent_provider \<Rightarrow> ustr" where
  "provider_str Claude = lit ''claude''"
| "provider_str Copilot = lit ''copilot''"
| "provider_str Codex = lit ''codex''"
| "provider_str Opencode = lit ''opencode''"
| "provider_str Antigravity = lit ''antigravity''"

definition executable :: "agent_provider \<Rightarrow> ustr" where
  "executable p = (case p of Antigravity \<Rightarrow> lit ''agy'' | _ \<Rightarrow> provider_str p)"

definition default_session_type :: "agent_provider \<Rightarrow> agent_session_type" where
  "default_session_type p = Pty"

definition supports_headless :: "agent_provider \<Rightarrow> bool" where
  "supports_headless p \<longleftrightarrow> p \<in> {Claude, Codex, Opencode}"

definition model_override_flag :: "agent_provider \<Rightarrow> ustr option" where
  "model_override_flag p =
     (case p of
        Claude \<Rightarrow> Some (lit ''--model'') | Copilot \<Rightarrow> Some (lit ''--model'')
      | Codex \<Rightarrow> Some (lit ''-m'') | Opencode \<Rightarrow> Some (lit ''-m'')
      | Antigravity \<Rightarrow> None)"

definition effort_override_of :: "agent_provider \<Rightarrow> effort_override" where
  "effort_override_of p =
     (case p of
        Codex \<Rightarrow> Config (lit ''model_reasoning_effort'')
      | Opencode \<Rightarrow> Flag (lit ''--variant'')
      | _ \<Rightarrow> Flag (lit ''--effort''))"

definition effort_values :: "agent_provider \<Rightarrow> ustr list option" where
  "effort_values p =
     (case p of
        Codex \<Rightarrow> None | Opencode \<Rightarrow> None
      | Claude \<Rightarrow> Some [lit ''low'', lit ''medium'', lit ''high'', lit ''xhigh'', lit ''max'']
      | Copilot \<Rightarrow> Some [lit ''none'', lit ''minimal'', lit ''low'', lit ''medium'', lit ''high'',
                           lit ''xhigh'', lit ''max'']
      | Antigravity \<Rightarrow> Some [lit ''low'', lit ''medium'', lit ''high''])"

definition quit_command :: "agent_provider \<Rightarrow> ustr" where
  "quit_command p = (case p of Codex \<Rightarrow> lit ''/quit'' | _ \<Rightarrow> lit ''/exit'')"

definition provider_from_str :: "ustr \<Rightarrow> agent_provider option" where
  "provider_from_str value = find (\<lambda>p. provider_str p = value) ALL_PROVIDERS"

section \<open>Compact selectors\<close>

record provider_selector =
  provider :: agent_provider
  model :: "ustr option"
  effort :: "ustr option"

datatype provider_error =
    ModelUnsupported agent_provider
  | EffortUnsupported ustr agent_provider

datatype selector_error =
    SelectorIsEmpty ustr
  | EmptySegment ustr
  | UnsupportedProvider ustr ustr
  | SelectorRefused ustr provider_error

definition EFFORT_ALIASES :: "(ustr \<times> ustr) list" where
  "EFFORT_ALIASES =
     [(lit ''lo'', lit ''low''), (lit ''low'', lit ''low''), (lit ''med'', lit ''medium''),
      (lit ''medium'', lit ''medium''), (lit ''hi'', lit ''high''), (lit ''high'', lit ''high''),
      (lit ''xhi'', lit ''xhigh''), (lit ''xhigh'', lit ''xhigh''), (lit ''max'', lit ''max'')]"

definition effort_alias :: "ustr \<Rightarrow> ustr option" where
  "effort_alias segment = map_of EFFORT_ALIASES segment"

definition validate_provider_model :: "agent_provider \<Rightarrow> ustr option \<Rightarrow> provider_error + unit" where
  "validate_provider_model p m =
     (if m \<noteq> None \<and> model_override_flag p = None then Inl (ModelUnsupported p) else Inr ())"

definition validate_provider_effort :: "agent_provider \<Rightarrow> ustr option \<Rightarrow> provider_error + unit" where
  "validate_provider_effort p eff =
     (case eff of
        None \<Rightarrow> Inr ()
      | Some e \<Rightarrow>
          (case effort_values p of
             None \<Rightarrow> Inr ()
           | Some values \<Rightarrow> if e \<in> set values then Inr () else Inl (EffortUnsupported e p)))"

definition parse_provider_selector :: "ustr \<Rightarrow> selector_error + provider_selector" where
  "parse_provider_selector text =
     (let value = trim text
      in if value = [] then Inl (SelectorIsEmpty value)
         else
           (let (head, rest) =
                  (case split_once 45 value of None \<Rightarrow> (value, None) | Some (h, r) \<Rightarrow> (h, Some r))
            in (case provider_from_str head of
                  None \<Rightarrow> Inl (UnsupportedProvider head value)
                | Some p \<Rightarrow>
                    (case rest of
                       None \<Rightarrow> Inr \<lparr>provider = p, model = None, effort = None\<rparr>
                     | Some r \<Rightarrow>
                         (let segments = split_on 45 r
                          in if [] \<in> set segments then Inl (EmptySegment value)
                             else
                               (let alias = effort_alias (last segments);
                                    model_segments = (if alias \<noteq> None then butlast segments else segments);
                                    m = (if model_segments = [] then None
                                         else Some (join [45] model_segments))
                                in (case validate_provider_model p m of
                                      Inl e \<Rightarrow> Inl (SelectorRefused value e)
                                    | Inr _ \<Rightarrow>
                                        (case validate_provider_effort p alias of
                                           Inl e \<Rightarrow> Inl (SelectorRefused value e)
                                         | Inr _ \<Rightarrow> Inr \<lparr>provider = p, model = m, effort = alias\<rparr>))))))))"

section \<open>Choosing the provider\<close>

datatype agent_type_error =
    UnsupportedAgentType ustr
  | HeadlessUnsupported agent_provider

definition normalize_agent_type :: "ustr option \<Rightarrow> ustr option" where
  "normalize_agent_type t =
     (case t of
        Some v \<Rightarrow> if v = lit ''sdk'' \<or> v = lit ''chat'' then Some (lit ''agent'') else Some v
      | None \<Rightarrow> None)"

definition resolve_agent_type ::
  "ustr option \<Rightarrow> agent_provider \<Rightarrow> agent_type_error + agent_session_type" where
  "resolve_agent_type explicit p =
     (case (case normalize_agent_type explicit of
              Some v \<Rightarrow> if v = lit ''pty'' then Inr Pty
                        else if v = lit ''agent'' then Inr Agent
                        else Inl (UnsupportedAgentType v)
            | None \<Rightarrow> Inr (default_session_type p)) of
        Inl e \<Rightarrow> Inl e
      | Inr t \<Rightarrow> if t = Agent \<and> \<not> supports_headless p then Inl (HeadlessUnsupported p) else Inr t)"

datatype candidates_error = NotConfigured | Unsupported ustr

definition csv_entries :: "ustr \<Rightarrow> ustr list" where
  "csv_entries source = filter (\<lambda>v. v \<noteq> []) (map trim (split_on 44 source))"

definition blank :: "ustr \<Rightarrow> bool" where
  "blank s \<longleftrightarrow> trim s = []"

definition candidate_source ::
  "ustr option \<Rightarrow> ustr list option \<Rightarrow> ustr list option \<Rightarrow> ustr list option \<Rightarrow> ustr option
     \<Rightarrow> ustr list \<times> bool" where
  "candidate_source explicit stage repo agent fallback =
     (case Option.bind explicit (\<lambda>v. if blank v then None else Some v) of
        Some source \<Rightarrow> (csv_entries source, False)
      | None \<Rightarrow>
     (case Option.bind stage (\<lambda>v. if v = [] then None else Some v) of
        Some providers \<Rightarrow> (providers, True)
      | None \<Rightarrow>
     (case Option.bind repo (\<lambda>v. if v = [] then None else Some v) of
        Some providers \<Rightarrow> (providers, False)
      | None \<Rightarrow>
     (case Option.bind agent (\<lambda>v. if v = [] then None else Some v) of
        Some providers \<Rightarrow> (providers, False)
      | None \<Rightarrow>
     (case Option.bind fallback (\<lambda>v. if blank v then None else Some v) of
        Some source \<Rightarrow> (csv_entries source, False)
      | None \<Rightarrow> ([], False))))))"

definition candidate_provider :: "bool \<Rightarrow> ustr \<Rightarrow> candidates_error + agent_provider" where
  "candidate_provider selector_syntax candidate =
     (if selector_syntax
      then (case parse_provider_selector candidate of
              Inr sel \<Rightarrow> Inr (provider sel)
            | Inl _ \<Rightarrow> Inl (Unsupported candidate))
      else ok_or (Unsupported candidate) (provider_from_str candidate))"

definition resolve_agent_provider_candidates ::
  "ustr option \<Rightarrow> ustr list option \<Rightarrow> ustr list option \<Rightarrow> ustr list option \<Rightarrow> ustr option
     \<Rightarrow> candidates_error + agent_provider list" where
  "resolve_agent_provider_candidates explicit stage repo agent fallback =
     (let (raw_candidates, selector_syntax) = candidate_source explicit stage repo agent fallback
      in if raw_candidates = [] then Inl NotConfigured
         else try_each (candidate_provider selector_syntax) raw_candidates)"

datatype resolve_error =
    Candidates candidates_error
  | Unavailable "agent_provider list"

definition resolve_agent_provider ::
  "(agent_provider \<Rightarrow> bool) \<Rightarrow> ustr option \<Rightarrow> ustr list option \<Rightarrow> ustr list option \<Rightarrow> ustr list option
     \<Rightarrow> ustr option \<Rightarrow> resolve_error + agent_provider" where
  "resolve_agent_provider available explicit stage repo agent fallback =
     (case resolve_agent_provider_candidates explicit stage repo agent fallback of
        Inl e \<Rightarrow> Inl (Candidates e)
      | Inr candidates \<Rightarrow> ok_or (Unavailable candidates) (find available candidates))"

section \<open>The tuning plan\<close>

record tuning_layer =
  layer_providers :: "ustr list"
  layer_model :: "ustr option"
  layer_effort :: "ustr option"

definition stage_tuning_layers :: "ustr list option \<Rightarrow> tuning_layer list" where
  "stage_tuning_layers stage =
     map (\<lambda>sel. \<lparr>layer_providers = [provider_str (provider sel)],
                 layer_model = model sel, layer_effort = effort sel\<rparr>)
       (filter (\<lambda>sel. model sel \<noteq> None \<or> effort sel \<noteq> None)
         (List.map_filter (\<lambda>entry. case parse_provider_selector entry of Inr sel \<Rightarrow> Some sel | Inl _ \<Rightarrow> None)
           (case stage of Some entries \<Rightarrow> entries | None \<Rightarrow> [])))"

definition named_providers :: "ustr list \<Rightarrow> ustr list" where
  "named_providers providers = filter (\<lambda>e. e \<noteq> []) (map trim (concat (map (split_on 44) providers)))"

definition layer_selects_provider :: "ustr list \<Rightarrow> agent_provider \<Rightarrow> bool" where
  "layer_selects_provider providers p =
     (case named_providers providers of
        [] \<Rightarrow> True
      | preferred # _ \<Rightarrow> preferred = provider_str p)"

definition layers_for :: "tuning_layer list \<Rightarrow> agent_provider \<Rightarrow> tuning_layer list" where
  "layers_for layers p = filter (\<lambda>l. layer_selects_provider (layer_providers l) p) layers"

definition model_for :: "tuning_layer list \<Rightarrow> agent_provider \<Rightarrow> ustr option" where
  "model_for layers p = find_map layer_model (layers_for layers p)"

definition effort_for :: "tuning_layer list \<Rightarrow> agent_provider \<Rightarrow> ustr option" where
  "effort_for layers p = find_map layer_effort (layers_for layers p)"

section \<open>Overrides carried by a stage advance\<close>

datatype stage_trigger = Auto | Operator | Manager | Unspecified

primrec stage_trigger_str :: "stage_trigger \<Rightarrow> ustr" where
  "stage_trigger_str Auto = lit ''auto''"
| "stage_trigger_str Operator = lit ''operator''"
| "stage_trigger_str Manager = lit ''manager''"
| "stage_trigger_str Unspecified = lit ''unspecified''"

definition stage_trigger_from_caller :: "ustr \<Rightarrow> ustr + stage_trigger" where
  "stage_trigger_from_caller v =
     (if v = lit ''operator'' then Inr Operator
      else if v = lit ''manager'' then Inr Manager
      else Inl v)"

datatype override_source = SrcOperator | SrcManager | SrcAgent | SrcUnspecified

primrec override_source_str :: "override_source \<Rightarrow> ustr" where
  "override_source_str SrcOperator = lit ''operator''"
| "override_source_str SrcManager = lit ''manager''"
| "override_source_str SrcAgent = lit ''agent''"
| "override_source_str SrcUnspecified = lit ''unspecified''"

definition override_source_from_caller :: "ustr \<Rightarrow> ustr + override_source" where
  "override_source_from_caller v =
     (if v = lit ''operator'' then Inr SrcOperator
      else if v = lit ''manager'' then Inr SrcManager
      else if v = lit ''agent'' then Inr SrcAgent
      else Inl v)"

record stage_provider_override =
  ov_source :: ustr
  ov_provider :: ustr
  ov_model :: "ustr option"
  ov_effort :: "ustr option"

datatype shape_error = ShapeEmpty | ShapeUntrimmed | ShapeControl

datatype override_error =
    OverrideNeedsProvider
  | SourceWithoutOverride
  | OverrideNamesList ustr
  | OverrideUnsupported ustr
  | OverrideModelShape shape_error
  | OverrideEffortShape shape_error
  | OverrideRefused provider_error
  | UnknownOverrideSource ustr

text \<open>\<^verbatim>\<open>validate_model_shape\<close> and \<^verbatim>\<open>validate_effort_shape\<close> differ only in the word their messages use.\<close>

definition validate_shape :: "ustr option \<Rightarrow> shape_error + unit" where
  "validate_shape v =
     (case v of
        None \<Rightarrow> Inr ()
      | Some s \<Rightarrow>
          (if s = [] then Inl ShapeEmpty
           else if trim s \<noteq> s then Inl ShapeUntrimmed
           else if list_ex is_control s then Inl ShapeControl
           else Inr ()))"

definition server_validate_model :: "agent_provider \<Rightarrow> ustr option \<Rightarrow> override_error + unit" where
  "server_validate_model p m =
     (case validate_shape m of
        Inl e \<Rightarrow> Inl (OverrideModelShape e)
      | Inr _ \<Rightarrow> (case validate_provider_model p m of Inl e \<Rightarrow> Inl (OverrideRefused e) | Inr u \<Rightarrow> Inr u))"

definition server_validate_effort :: "agent_provider \<Rightarrow> ustr option \<Rightarrow> override_error + unit" where
  "server_validate_effort p e =
     (case validate_shape e of
        Inl err \<Rightarrow> Inl (OverrideEffortShape err)
      | Inr _ \<Rightarrow> (case validate_provider_effort p e of Inl err \<Rightarrow> Inl (OverrideRefused err) | Inr u \<Rightarrow> Inr u))"

definition nonblank :: "ustr option \<Rightarrow> ustr option" where
  "nonblank v = Option.bind v (\<lambda>s. if trim s = [] then None else Some (trim s))"

definition parse_stage_provider_override ::
  "ustr option \<Rightarrow> ustr option \<Rightarrow> ustr option \<Rightarrow> ustr option
     \<Rightarrow> override_error + stage_provider_override option" where
  "parse_stage_provider_override prov mdl eff src =
     (let m = nonblank mdl; e = nonblank eff; s = nonblank src
      in (case nonblank prov of
            None \<Rightarrow>
              (if m \<noteq> None \<or> e \<noteq> None then Inl OverrideNeedsProvider
               else if s \<noteq> None then Inl SourceWithoutOverride
               else Inr None)
          | Some provider_id \<Rightarrow>
              (if 44 \<in> set provider_id then Inl (OverrideNamesList provider_id)
               else
                 (case provider_from_str provider_id of
                    None \<Rightarrow> Inl (OverrideUnsupported provider_id)
                  | Some p \<Rightarrow>
                      (case server_validate_model p m of
                         Inl err \<Rightarrow> Inl err
                       | Inr _ \<Rightarrow>
                      (case server_validate_effort p e of
                         Inl err \<Rightarrow> Inl err
                       | Inr _ \<Rightarrow>
                      (case (case s of Some v \<Rightarrow> override_source_from_caller v
                             | None \<Rightarrow> Inr SrcUnspecified) of
                         Inl v \<Rightarrow> Inl (UnknownOverrideSource v)
                       | Inr source \<Rightarrow>
                           Inr (Some \<lparr>ov_source = override_source_str source,
                                      ov_provider = provider_str p, ov_model = m, ov_effort = e\<rparr>))))))))"


section \<open>Registry lemmas\<close>

lemma provider_str_chars:
  "provider_str p \<noteq> []" "45 \<notin> set (provider_str p)" "44 \<notin> set (provider_str p)"
  "\<not> is_whitespace (hd (provider_str p))" "\<not> is_whitespace (last (provider_str p))"
  by (cases p; simp add: is_whitespace_def)+

lemma provider_str_trim [simp]: "trim (provider_str p) = provider_str p"
  by (intro trim_id provider_str_chars)

lemma provider_str_inj [simp]: "provider_str p = provider_str q \<longleftrightarrow> p = q"
  by (cases p; cases q) simp_all

lemma provider_from_str_str [simp]: "provider_from_str (provider_str p) = Some p"
  by (cases p) (simp_all add: provider_from_str_def ALL_PROVIDERS_def)

lemma provider_from_str_iff: "provider_from_str s = Some p \<longleftrightarrow> s = provider_str p"
  by (auto simp: provider_from_str_def find_Some_iff) (metis provider_from_str_def provider_from_str_str find_Some_iff)

lemma effort_alias_canonical:
  assumes "effort_alias s = Some e"
  shows "effort_alias e = Some e" and "e \<noteq> []" and "45 \<notin> set e" and "\<not> is_whitespace (last e)"
proof -
  have "(s, e) \<in> set EFFORT_ALIASES"
    using assms by (auto simp: effort_alias_def dest: map_of_SomeD)
  then have "e \<in> {lit ''low'', lit ''medium'', lit ''high'', lit ''xhigh'', lit ''max''}"
    by (auto simp: EFFORT_ALIASES_def)
  then show "effort_alias e = Some e" and "e \<noteq> []" and "45 \<notin> set e" and "\<not> is_whitespace (last e)"
    by (auto simp: effort_alias_def EFFORT_ALIASES_def is_whitespace_def)
qed

section \<open>Selectors\<close>

definition selector_text :: "provider_selector \<Rightarrow> ustr" where
  "selector_text sel =
     provider_str (provider sel) @
     (case model sel of Some m \<Rightarrow> 45 # m | None \<Rightarrow> []) @
     (case effort sel of Some e \<Rightarrow> 45 # e | None \<Rightarrow> [])"

definition coherent :: "provider_selector \<Rightarrow> bool" where
  "coherent sel \<longleftrightarrow>
     validate_provider_model (provider sel) (model sel) = Inr () \<and>
     validate_provider_effort (provider sel) (effort sel) = Inr ()"

text \<open>The part of the parse after the first dash.\<close>

definition selector_tail :: "agent_provider \<Rightarrow> ustr list \<Rightarrow> provider_selector" where
  "selector_tail p segments =
     (let alias = effort_alias (last segments);
          ms = (if alias \<noteq> None then butlast segments else segments)
      in \<lparr>provider = p, model = (if ms = [] then None else Some (join [45] ms)), effort = alias\<rparr>)"

lemma parse_selector_dash:
  assumes "trim value = value" and "value = provider_str p @ 45 # r"
  shows "parse_provider_selector value = Inr sel \<longleftrightarrow>
    [] \<notin> set (split_on 45 r) \<and> sel = selector_tail p (split_on 45 r) \<and> coherent sel"
  using assms provider_str_chars(1,2) [of p]
  by (auto simp: parse_provider_selector_def Let_def split_once_append selector_tail_def coherent_def
      split: sum.splits)

lemma parse_selector_plain:
  "parse_provider_selector (provider_str p) = Inr \<lparr>provider = p, model = None, effort = None\<rparr>"
  using provider_str_chars(1,2) [of p] by (simp add: parse_provider_selector_def Let_def)

lemma parse_selector_cases:
  assumes "parse_provider_selector v = Inr sel"
  obtains (plain) p where "sel = \<lparr>provider = p, model = None, effort = None\<rparr>"
  | (dash) p r where "trim v = provider_str p @ 45 # r" "[] \<notin> set (split_on 45 r)"
      "sel = selector_tail p (split_on 45 r)" "coherent sel"
proof (cases "split_once 45 (trim v)")
  case None
  with assms show ?thesis
    by (auto simp: parse_provider_selector_def Let_def intro: plain split: if_splits option.splits)
next
  case (Some hr)
  then obtain h r where hr: "split_once 45 (trim v) = Some (h, r)"
    by (cases hr) auto
  with assms obtain p where "h = provider_str p"
    by (auto simp: parse_provider_selector_def Let_def provider_from_str_iff
        split: if_splits option.splits)
  with hr have v: "trim v = provider_str p @ 45 # r"
    by (auto dest: split_once_SomeD)
  have "parse_provider_selector (trim v) = Inr sel"
    using assms by (simp add: parse_provider_selector_def)
  with parse_selector_dash [OF trim_idem v, of sel] show ?thesis
    using dash [OF v] by blast
qed

lemma selector_tail_effort_text:
  assumes "effort_alias (last segs) = Some e" and "segs \<noteq> []"
  shows "selector_text (selector_tail p segs) = provider_str p @ 45 # join [45] (butlast segs @ [e])"
  using assms by (auto simp: selector_text_def selector_tail_def join_append_ne Let_def)

lemma selector_roundtrip_effort:
  assumes "effort_alias (last segs) = Some e" and "segs \<noteq> []" and "[] \<notin> set segs"
    and "\<forall>s \<in> set segs. 45 \<notin> set s" and "coherent (selector_tail p segs)"
  shows "parse_provider_selector (selector_text (selector_tail p segs)) = Inr (selector_tail p segs)"
proof -
  let ?segs = "butlast segs @ [e]"
  note e = effort_alias_canonical [OF assms(1)]
  let ?val = "provider_str p @ 45 # join [45] ?segs"
  have "last (join [45] ?segs) = last e" and "join [45] ?segs \<noteq> []"
    using e(2) by (cases "butlast segs = []"; simp add: join_append_ne)+
  then have trimmed: "trim ?val = ?val"
    using provider_str_chars(1,4) [of p] e(4) by (intro trim_id) simp_all
  have "split_on 45 (join [45] ?segs) = ?segs"
    using assms(4) e(3) by (intro split_on_join) (auto dest: in_set_butlastD)
  moreover have "selector_tail p ?segs = selector_tail p segs"
    using e(1) assms(1) by (simp add: selector_tail_def Let_def)
  moreover have "[] \<notin> set ?segs"
    using assms(3) e(2) by (auto dest: in_set_butlastD)
  ultimately show ?thesis
    using parse_selector_dash [OF trimmed refl, of "selector_tail p segs"] assms(5)
    by (simp add: selector_tail_effort_text [OF assms(1,2)])
qed

lemma selector_text_model:
  assumes "effort_alias (last (split_on 45 r)) = None"
  shows "selector_text (selector_tail p (split_on 45 r)) = provider_str p @ 45 # r"
  using assms by (simp add: selector_text_def selector_tail_def Let_def)

section \<open>Layers\<close>

lemma find_map_filter_Some_iff:
  "find_map f (filter P xs) = Some y \<longleftrightarrow>
   (\<exists>pre x post. xs = pre @ x # post \<and> P x \<and> f x = Some y \<and> (\<forall>z \<in> set pre. P z \<longrightarrow> f z = None))"
  (is "?L xs \<longleftrightarrow> ?R xs")
proof (induction xs)
  case (Cons x xs)
  show ?case
  proof (cases "P x \<and> f x \<noteq> None")
    case True
    then obtain v where v: "f x = Some v" by auto
    have "?R (x # xs) \<longleftrightarrow> v = y"
    proof
      assume "?R (x # xs)"
      then obtain pre z post where "x # xs = pre @ z # post" "f z = Some y"
        "\<forall>z \<in> set pre. P z \<longrightarrow> f z = None" by blast
      with True v show "v = y" by (cases pre) auto
    next
      assume "v = y"
      with True v have "x # xs = [] @ x # xs \<and> P x \<and> f x = Some y \<and> (\<forall>z \<in> set []. P z \<longrightarrow> f z = None)"
        by simp
      then show "?R (x # xs)" by blast
    qed
    with True v show ?thesis by simp
  next
    case False
    have "?R (x # xs) \<longleftrightarrow> ?R xs"
    proof
      assume "?R (x # xs)"
      then obtain pre z post where r: "x # xs = pre @ z # post" "P z" "f z = Some y"
        "\<forall>z \<in> set pre. P z \<longrightarrow> f z = None" by blast
      with False show "?R xs" by (cases pre) auto
    next
      assume "?R xs"
      then obtain pre z post where r: "xs = pre @ z # post" "P z" "f z = Some y"
        "\<forall>z \<in> set pre. P z \<longrightarrow> f z = None" by blast
      with False have "x # xs = (x # pre) @ z # post \<and> P z \<and> f z = Some y \<and>
          (\<forall>z \<in> set (x # pre). P z \<longrightarrow> f z = None)" by auto
      then show "?R (x # xs)" by blast
    qed
    with False Cons.IH show ?thesis by auto
  qed
qed simp

lemma layer_selects_iff:
  "layer_selects_provider ps p \<longleftrightarrow>
   named_providers ps = [] \<or> hd (named_providers ps) = provider_str p"
  by (auto simp: layer_selects_provider_def split: list.splits)

lemma named_single_provider [simp]: "named_providers [provider_str p] = [provider_str p]"
  using provider_str_chars [of p] by (simp add: named_providers_def split_on_no_sep)

lemma stage_layer_coherent:
  assumes "l \<in> set (layers_for (stage_tuning_layers stage) p)"
  shows "coherent \<lparr>provider = p, model = layer_model l, effort = layer_effort l\<rparr>"
proof -
  obtain v sel where sel: "parse_provider_selector v = Inr sel"
    and l: "l = \<lparr>layer_providers = [provider_str (provider sel)], layer_model = model sel,
                 layer_effort = effort sel\<rparr>" and p: "provider sel = p"
    using assms
    by (auto simp: layers_for_def stage_tuning_layers_def layer_selects_iff List.map_filter_def
        split: sum.splits option.splits)
  have "coherent sel"
    using sel by (cases rule: parse_selector_cases)
      (simp_all add: coherent_def validate_provider_model_def validate_provider_effort_def)
  with l p show ?thesis
    by (simp add: coherent_def)
qed

lemma server_validate_ok [simp]:
  "server_validate_model p m = Inr u \<longleftrightarrow>
     validate_shape m = Inr () \<and> validate_provider_model p m = Inr ()"
  "server_validate_effort p e = Inr u \<longleftrightarrow>
     validate_shape e = Inr () \<and> validate_provider_effort p e = Inr ()"
  by (auto simp: server_validate_model_def server_validate_effort_def split: sum.splits)

lemma override_source_not_auto: "override_source_str src \<noteq> lit ''auto''"
  by (cases src) simp_all

lemma nonblank_None_iff: "nonblank v = None \<longleftrightarrow> (case v of None \<Rightarrow> True | Some s \<Rightarrow> blank s)"
  by (auto simp: nonblank_def blank_def split: option.splits bind_splits)

section \<open>Properties\<close>








text \<open>
  Whatever selectors a workflow stage lists, the model and the effort its tuning layers give the
  resolved provider are ones that provider accepts.
\<close>

theorem stage_tuning_coherent:
  "validate_provider_model p (model_for (stage_tuning_layers stage) p) = Inr () \<and>
   validate_provider_effort p (effort_for (stage_tuning_layers stage) p) = Inr ()"
proof
  show "validate_provider_model p (model_for (stage_tuning_layers stage) p) = Inr ()"
  proof (cases "model_for (stage_tuning_layers stage) p")
    case (Some m)
    then obtain l where "l \<in> set (layers_for (stage_tuning_layers stage) p)" "layer_model l = Some m"
      unfolding model_for_def by (auto dest: find_map_SomeD)
    with stage_layer_coherent [of l stage p] Some show ?thesis
      by (simp add: coherent_def)
  qed (simp add: validate_provider_model_def)
  show "validate_provider_effort p (effort_for (stage_tuning_layers stage) p) = Inr ()"
  proof (cases "effort_for (stage_tuning_layers stage) p")
    case (Some e)
    then obtain l where "l \<in> set (layers_for (stage_tuning_layers stage) p)" "layer_effort l = Some e"
      unfolding effort_for_def by (auto dest: find_map_SomeD)
    with stage_layer_coherent [of l stage p] Some show ?thesis
      by (simp add: coherent_def)
  qed (simp add: validate_provider_effort_def)
qed

text \<open>
  An advance-carried override is recorded only as one coherent unit: a recorded override names a
  known provider, its model and effort are accepted by that provider and are trimmed, non-empty and
  free of control characters; nothing is recorded exactly when all four fields are blank.
\<close>

theorem stage_override_coherent:
  assumes "parse_stage_provider_override prov mdl eff src = Inr out"
  shows "case out of
      None \<Rightarrow> nonblank prov = None \<and> nonblank mdl = None \<and> nonblank eff = None \<and> nonblank src = None
    | Some ov \<Rightarrow> (\<exists>p. ov_provider ov = provider_str p \<and>
          coherent \<lparr>provider = p, model = ov_model ov, effort = ov_effort ov\<rparr>) \<and>
        validate_shape (ov_model ov) = Inr () \<and> validate_shape (ov_effort ov) = Inr () \<and>
        ov_source ov \<noteq> lit ''auto''"
  using assms
  by (auto simp: parse_stage_provider_override_def Let_def coherent_def
        override_source_not_auto simp del: lit_simps override_source_str.simps
      split: if_splits option.splits sum.splits)

theorem stage_override_coherent_witness:
  "case Some \<lparr>ov_source = lit ''agent'', ov_provider = lit ''claude'', ov_model = Some (lit ''opus''),
       ov_effort = Some (lit ''high'')\<rparr> of
      None \<Rightarrow> nonblank (Some (lit '' claude'')) = None \<and> nonblank (Some (lit ''opus'')) = None \<and>
        nonblank (Some (lit ''high'')) = None \<and> nonblank (Some (lit ''agent'')) = None
    | Some ov \<Rightarrow> (\<exists>p. ov_provider ov = provider_str p \<and>
          coherent \<lparr>provider = p, model = ov_model ov, effort = ov_effort ov\<rparr>) \<and>
        validate_shape (ov_model ov) = Inr () \<and> validate_shape (ov_effort ov) = Inr () \<and>
        ov_source ov \<noteq> lit ''auto''"
  by (rule stage_override_coherent) code_simp

text \<open>
  The first candidate of this stage is plain \<^verbatim>\<open>claude\<close>, whose defaults should apply, yet it draws the
  model and effort written beside the later selector for the same provider.
\<close>

lemma plain_selector_draws_later_model:
  "model_for (stage_tuning_layers (Some [lit ''claude'', lit ''codex'', lit ''claude-opus-max''])) Claude =
     Some (lit ''opus'')"
  "resolve_agent_provider (\<lambda>_. True) None (Some [lit ''claude'', lit ''codex'', lit ''claude-opus-max''])
     None None None = Inr Claude"
  by code_simp+

end
