(* ===== verification/Rules.thy ===== *)
theory Rules
  imports Version Progress Providers "HOL-Library.Product_Lexorder"
begin

text \<open>
  \<^verbatim>\<open>crates/daemon/src/detection/schema.rs\<close> and \<^verbatim>\<open>rules.rs\<close>: the declarative rule file, its
  compilation with every check that can refuse it, the merge of an override file over the bundled
  one, and the resolution of a compiled rule set for one provider and CLI version.

  The JSON text is read by \<^verbatim>\<open>serde_json\<close>, so the model starts at the deserialised \<open>rule_file\<close>. The
  error messages are constructors carrying the message's variable parts; the file's origin, a
  constant prefix of every message, is left out. The hash map of providers is a partial function,
  the hash set of ids a set. The Unicode lower-case table of \<^verbatim>\<open>char::to_lowercase\<close> is the argument
  \<open>lc\<close> of the definitions that fold glyphs.
\<close>

section \<open>The schema\<close>

datatype session_status = Busy | Waiting | Idle

datatype channel = Grid | Title | ProgressReport

datatype vocabulary_set =
    ComposerPrompts | IdlePromptGlyphs | SpinnerGlyphs | WorkingFooterGlyphs | InFlightMarkers
  | DoneFooterMarkers | BusyMarkers | WaitingMarkers | PermissionActionMarkers | MenuCaretGlyphs
  | DividerGlyphs | BoxBorderGlyphs | ComposerStatusSeparators | SubagentParentPrefixes
  | SubagentTaskPrefixes | BlockArtGlyphs | FooterProgressGlyphs | TurnSummaryGlyphs
  | WorktreePathMarkers | TitleBusyGlyphs | TitleIdleGlyphs

record versioned_strings =
  vs_id :: ustr
  vs_versions :: "ustr option"
  vs_values :: "ustr list"

record versioned_glyphs =
  vg_id :: ustr
  vg_versions :: "ustr option"
  vg_glyphs :: "ustr list"

record vocabulary =
  composer_prompts :: "versioned_glyphs list"
  idle_prompt_glyphs :: "versioned_glyphs list"
  spinner_glyphs :: "versioned_glyphs list"
  working_footer_glyphs :: "versioned_glyphs list"
  in_flight_markers :: "versioned_strings list"
  done_footer_markers :: "versioned_strings list"
  busy_markers :: "versioned_strings list"
  waiting_markers :: "versioned_strings list"
  permission_action_markers :: "versioned_strings list"
  menu_caret_glyphs :: "versioned_glyphs list"
  divider_glyphs :: "versioned_glyphs list"
  box_border_glyphs :: "versioned_glyphs list"
  composer_status_separators :: "versioned_strings list"
  subagent_parent_prefixes :: "versioned_strings list"
  subagent_task_prefixes :: "versioned_strings list"
  block_art_glyphs :: "versioned_glyphs list"
  footer_progress_glyphs :: "versioned_glyphs list"
  turn_summary_glyphs :: "versioned_glyphs list"
  worktree_path_markers :: "versioned_strings list"
  title_busy_glyphs :: "versioned_glyphs list"
  title_idle_glyphs :: "versioned_glyphs list"

datatype line_match =
    LContains ustr
  | LContainsAll "ustr list"
  | LEquals ustr
  | LStartsWith ustr
  | LContainsAny vocabulary_set
  | LContainsAllOf vocabulary_set
  | LStartsWithAny vocabulary_set
  | LStartsWithGlyph vocabulary_set
  | LStartsWithGlyphWord vocabulary_set
  | LAllCharactersIn vocabulary_set
  | LAnyOf "line_match list"
  | LAllOf "line_match list"
  | LNot line_match

datatype predicate =
    PAnyLine line_match
  | PAnyLineWrapped line_match
  | PLastNonEmptyLine line_match
  | PText line_match
  | PProgressState "progress_state list"
  | PStructural ustr

record chrome_entry =
  ce_id :: ustr
  ce_versions :: "ustr option"
  ce_match :: line_match

record rule =
  rule_id :: ustr
  rule_status :: session_status
  rule_channel :: channel
  rule_versions :: "ustr option"
  rule_priority :: int
  rule_when :: predicate

record common_rule_set =
  common_vocab :: vocabulary
  common_chrome_entries :: "chrome_entry list"
  common_rule_list :: "rule list"

record provider_rule_set =
  prs_provider :: agent_provider
  prs_version_probe :: "ustr list option"
  prs_vocabulary :: vocabulary
  prs_chrome :: "chrome_entry list"
  prs_rules :: "rule list"
  prs_status_rows :: "nat option"
  prs_waiting_prompt_rows :: "nat option"

record rule_file =
  schema_version :: nat
  file_common :: common_rule_set
  file_providers :: "provider_rule_set list"

definition SCHEMA_VERSION :: nat where
  "SCHEMA_VERSION = 1"

section \<open>Compiled rules\<close>

datatype namespace = Common | Provider

datatype matcher =
    MContains ustr
  | MContainsAll "ustr list"
  | MEquals ustr
  | MStartsWith ustr
  | MContainsAny vocabulary_set
  | MContainsAllOf vocabulary_set
  | MStartsWithAny vocabulary_set
  | MStartsWithGlyph vocabulary_set
  | MStartsWithGlyphWord vocabulary_set
  | MAllCharactersIn vocabulary_set
  | MAnyOf "matcher list"
  | MAllOf "matcher list"
  | MNot matcher

datatype compiled_predicate =
    AnyLine matcher
  | AnyLineWrapped matcher
  | LastNonEmptyLine matcher
  | TextMatches matcher
  | ProgressStateIn "progress_state list"
  | Structural ustr

record compiled_rule =
  cr_id :: ustr
  cr_status :: session_status
  cr_channel :: channel
  cr_namespace :: namespace
  cr_versions :: version_range
  cr_priority :: int
  cr_order :: nat
  cr_predicate :: compiled_predicate

record compiled_chrome =
  cc_id :: ustr
  cc_namespace :: namespace
  cc_versions :: version_range
  cc_matcher :: matcher

record vocabulary_entry =
  ve_id :: ustr
  ve_set :: vocabulary_set
  ve_versions :: version_range
  ve_values :: "ustr list"
  ve_glyphs :: "uchar list"

record compiled_provider =
  cp_probe_args :: "ustr list"
  cp_vocabulary :: "vocabulary_entry list"
  cp_chrome :: "compiled_chrome list"
  cp_rules :: "compiled_rule list"
  cp_status_rows :: "nat option"
  cp_waiting_prompt_rows :: "nat option"

record compiled_rules =
  common_vocabulary :: "vocabulary_entry list"
  common_chrome :: "compiled_chrome list"
  common_rules :: "compiled_rule list"
  providers :: "agent_provider \<rightharpoonup> compiled_provider"

definition STRUCTURAL_PREDICATES :: "ustr list" where
  "STRUCTURAL_PREDICATES =
     [lit ''claude-working-footer'', lit ''claude-active-subagent'', lit ''claude-parked-composer'',
      lit ''claude-selected-menu-option'', lit ''opencode-composer-status'',
      lit ''copilot-busy-above-path'', lit ''copilot-idle-composer-below-path'']"

section \<open>Compilation\<close>

datatype scope = CommonScope | ProviderScope agent_provider

datatype rule_error =
    WrongSchemaVersion nat
  | DeclaredTwice agent_provider
  | DuplicateId scope ustr
  | NoValues scope ustr
  | NoGlyphs scope ustr
  | NotSingleCharacter scope ustr ustr
  | InvalidRange ustr range_error
  | ChannelMismatch ustr channel channel
  | NoProgressStates ustr
  | UnknownStructural ustr ustr

definition parse_range :: "ustr option \<Rightarrow> ustr \<Rightarrow> rule_error + version_range" where
  "parse_range declared ident =
     (case range_parse (case declared of Some r \<Rightarrow> r | None \<Rightarrow> lit ''*'') of
        Inl e \<Rightarrow> Inl (InvalidRange ident e)
      | Inr r \<Rightarrow> Inr r)"

primrec compile_match :: "line_match \<Rightarrow> matcher" where
  "compile_match (LContains v) = MContains (str_to_ascii_lowercase v)"
| "compile_match (LContainsAll vs) = MContainsAll (map str_to_ascii_lowercase vs)"
| "compile_match (LEquals v) = MEquals v"
| "compile_match (LStartsWith v) = MStartsWith v"
| "compile_match (LContainsAny s) = MContainsAny s"
| "compile_match (LContainsAllOf s) = MContainsAllOf s"
| "compile_match (LStartsWithAny s) = MStartsWithAny s"
| "compile_match (LStartsWithGlyph s) = MStartsWithGlyph s"
| "compile_match (LStartsWithGlyphWord s) = MStartsWithGlyphWord s"
| "compile_match (LAllCharactersIn s) = MAllCharactersIn s"
| "compile_match (LAnyOf ms) = MAnyOf (map compile_match ms)"
| "compile_match (LAllOf ms) = MAllOf (map compile_match ms)"
| "compile_match (LNot m) = MNot (compile_match m)"

definition compile_predicate :: "predicate \<Rightarrow> ustr \<Rightarrow> rule_error + compiled_predicate" where
  "compile_predicate p ident =
     (case p of
        PAnyLine m \<Rightarrow> Inr (AnyLine (compile_match m))
      | PAnyLineWrapped m \<Rightarrow> Inr (AnyLineWrapped (compile_match m))
      | PLastNonEmptyLine m \<Rightarrow> Inr (LastNonEmptyLine (compile_match m))
      | PText m \<Rightarrow> Inr (TextMatches (compile_match m))
      | PProgressState states \<Rightarrow>
          (if states = [] then Inl (NoProgressStates ident) else Inr (ProgressStateIn states))
      | PStructural name \<Rightarrow>
          (case find (\<lambda>candidate. candidate = name) STRUCTURAL_PREDICATES of
             None \<Rightarrow> Inl (UnknownStructural ident name)
           | Some known \<Rightarrow> Inr (Structural known)))"

definition required_channel :: "compiled_predicate \<Rightarrow> channel" where
  "required_channel p =
     (case p of
        TextMatches _ \<Rightarrow> Title
      | ProgressStateIn _ \<Rightarrow> ProgressReport
      | _ \<Rightarrow> Grid)"

definition check_channel :: "compiled_predicate \<Rightarrow> channel \<Rightarrow> ustr \<Rightarrow> rule_error + unit" where
  "check_channel p ch ident =
     (if ch = required_channel p then Inr () else Inl (ChannelMismatch ident ch (required_channel p)))"

definition string_sets :: "vocabulary \<Rightarrow> (vocabulary_set \<times> versioned_strings list) list" where
  "string_sets v =
     [(InFlightMarkers, in_flight_markers v),
      (DoneFooterMarkers, done_footer_markers v),
      (BusyMarkers, busy_markers v),
      (WaitingMarkers, waiting_markers v),
      (PermissionActionMarkers, permission_action_markers v),
      (ComposerStatusSeparators, composer_status_separators v),
      (SubagentParentPrefixes, subagent_parent_prefixes v),
      (SubagentTaskPrefixes, subagent_task_prefixes v),
      (WorktreePathMarkers, worktree_path_markers v)]"

definition glyph_sets :: "vocabulary \<Rightarrow> (vocabulary_set \<times> versioned_glyphs list) list" where
  "glyph_sets v =
     [(ComposerPrompts, composer_prompts v),
      (IdlePromptGlyphs, idle_prompt_glyphs v),
      (SpinnerGlyphs, spinner_glyphs v),
      (WorkingFooterGlyphs, working_footer_glyphs v),
      (DividerGlyphs, divider_glyphs v),
      (BoxBorderGlyphs, box_border_glyphs v),
      (BlockArtGlyphs, block_art_glyphs v),
      (FooterProgressGlyphs, footer_progress_glyphs v),
      (TurnSummaryGlyphs, turn_summary_glyphs v),
      (TitleBusyGlyphs, title_busy_glyphs v),
      (TitleIdleGlyphs, title_idle_glyphs v),
      (MenuCaretGlyphs, menu_caret_glyphs v)]"

definition flatten_sets :: "('s \<times> 'e list) list \<Rightarrow> ('s \<times> 'e) list" where
  "flatten_sets sets = concat (map (\<lambda>(set, declared). map (Pair set) declared) sets)"

definition compile_string_entry ::
  "scope \<Rightarrow> ustr set \<Rightarrow> vocabulary_set \<times> versioned_strings \<Rightarrow> rule_error + (vocabulary_entry \<times> ustr set)" where
  "compile_string_entry label seen se =
     (case se of (s, entry) \<Rightarrow>
        if vs_id entry \<in> seen then Inl (DuplicateId label (vs_id entry))
        else if vs_values entry = [] then Inl (NoValues label (vs_id entry))
        else (case parse_range (vs_versions entry) (vs_id entry) of
                Inl e \<Rightarrow> Inl e
              | Inr r \<Rightarrow> Inr (\<lparr>ve_id = vs_id entry, ve_set = s, ve_versions = r,
                               ve_values = vs_values entry, ve_glyphs = []\<rparr>,
                              insert (vs_id entry) seen)))"

definition single_glyph :: "scope \<Rightarrow> ustr \<Rightarrow> ustr \<Rightarrow> rule_error + uchar" where
  "single_glyph label ident glyph =
     (case glyph of [c] \<Rightarrow> Inr c | _ \<Rightarrow> Inl (NotSingleCharacter label ident glyph))"

definition compile_glyph_entry ::
  "scope \<Rightarrow> ustr set \<Rightarrow> vocabulary_set \<times> versioned_glyphs \<Rightarrow> rule_error + (vocabulary_entry \<times> ustr set)" where
  "compile_glyph_entry label seen se =
     (case se of (s, entry) \<Rightarrow>
        if vg_id entry \<in> seen then Inl (DuplicateId label (vg_id entry))
        else if vg_glyphs entry = [] then Inl (NoGlyphs label (vg_id entry))
        else (case try_each (single_glyph label (vg_id entry)) (vg_glyphs entry) of
                Inl e \<Rightarrow> Inl e
              | Inr gs \<Rightarrow>
                  (case parse_range (vg_versions entry) (vg_id entry) of
                     Inl e \<Rightarrow> Inl e
                   | Inr r \<Rightarrow> Inr (\<lparr>ve_id = vg_id entry, ve_set = s, ve_versions = r,
                                    ve_values = [], ve_glyphs = gs\<rparr>,
                                   insert (vg_id entry) seen))))"

definition compile_vocabulary ::
  "vocabulary \<Rightarrow> scope \<Rightarrow> ustr set \<Rightarrow> rule_error + (vocabulary_entry list \<times> ustr set)" where
  "compile_vocabulary v label seen =
     (case try_map (compile_string_entry label) seen (flatten_sets (string_sets v)) of
        Inl e \<Rightarrow> Inl e
      | Inr (strings, seen') \<Rightarrow>
          (case try_map (compile_glyph_entry label) seen' (flatten_sets (glyph_sets v)) of
             Inl e \<Rightarrow> Inl e
           | Inr (gs, seen'') \<Rightarrow> Inr (strings @ gs, seen'')))"

definition compile_chrome_entry ::
  "scope \<Rightarrow> namespace \<Rightarrow> ustr set \<Rightarrow> chrome_entry \<Rightarrow> rule_error + (compiled_chrome \<times> ustr set)" where
  "compile_chrome_entry label ns seen entry =
     (if ce_id entry \<in> seen then Inl (DuplicateId label (ce_id entry))
      else (case parse_range (ce_versions entry) (ce_id entry) of
              Inl e \<Rightarrow> Inl e
            | Inr r \<Rightarrow> Inr (\<lparr>cc_id = ce_id entry, cc_namespace = ns, cc_versions = r,
                             cc_matcher = compile_match (ce_match entry)\<rparr>,
                            insert (ce_id entry) seen)))"

definition compile_chrome ::
  "chrome_entry list \<Rightarrow> namespace \<Rightarrow> scope \<Rightarrow> ustr set \<Rightarrow> rule_error + (compiled_chrome list \<times> ustr set)" where
  "compile_chrome declared ns label seen = try_map (compile_chrome_entry label ns) seen declared"

definition compile_rule ::
  "scope \<Rightarrow> namespace \<Rightarrow> nat \<Rightarrow> ustr set \<Rightarrow> nat \<times> rule \<Rightarrow> rule_error + (compiled_rule \<times> ustr set)" where
  "compile_rule label ns order_base seen ir =
     (case ir of (index, r) \<Rightarrow>
        if rule_id r \<in> seen then Inl (DuplicateId label (rule_id r))
        else (case compile_predicate (rule_when r) (rule_id r) of
                Inl e \<Rightarrow> Inl e
              | Inr p \<Rightarrow>
                  (case check_channel p (rule_channel r) (rule_id r) of
                     Inl e \<Rightarrow> Inl e
                   | Inr _ \<Rightarrow>
                       (case parse_range (rule_versions r) (rule_id r) of
                          Inl e \<Rightarrow> Inl e
                        | Inr vr \<Rightarrow>
                            Inr (\<lparr>cr_id = rule_id r, cr_status = rule_status r,
                                  cr_channel = rule_channel r, cr_namespace = ns, cr_versions = vr,
                                  cr_priority = rule_priority r, cr_order = order_base + index,
                                  cr_predicate = p\<rparr>,
                                 insert (rule_id r) seen)))))"

definition compile_rules ::
  "rule list \<Rightarrow> namespace \<Rightarrow> scope \<Rightarrow> ustr set \<Rightarrow> nat \<Rightarrow> rule_error + (compiled_rule list \<times> ustr set)" where
  "compile_rules declared ns label seen order_base =
     try_map (compile_rule label ns order_base) seen (List.enumerate 0 declared)"

definition compile_provider ::
  "(ustr set \<times> (agent_provider \<rightharpoonup> compiled_provider)) \<Rightarrow> nat \<times> provider_rule_set
     \<Rightarrow> rule_error + (unit \<times> (ustr set \<times> (agent_provider \<rightharpoonup> compiled_provider)))" where
  "compile_provider st ip =
     (case st of (seen, ps) \<Rightarrow> case ip of (index, prs) \<Rightarrow>
        let label = ProviderScope (prs_provider prs)
        in if ps (prs_provider prs) \<noteq> None then Inl (DeclaredTwice (prs_provider prs))
           else
             (case compile_vocabulary (prs_vocabulary prs) label seen of
                Inl e \<Rightarrow> Inl e
              | Inr (v, seen1) \<Rightarrow>
             (case compile_chrome (prs_chrome prs) Provider label seen1 of
                Inl e \<Rightarrow> Inl e
              | Inr (c, seen2) \<Rightarrow>
             (case compile_rules (prs_rules prs) Provider label seen2 ((index + 1) * 10000) of
                Inl e \<Rightarrow> Inl e
              | Inr (rs, seen3) \<Rightarrow>
                  Inr ((), (seen3, ps(prs_provider prs \<mapsto>
                    \<lparr>cp_probe_args = (case prs_version_probe prs of Some args \<Rightarrow> args | None \<Rightarrow> []),
                     cp_vocabulary = v, cp_chrome = c, cp_rules = rs,
                     cp_status_rows = prs_status_rows prs,
                     cp_waiting_prompt_rows = prs_waiting_prompt_rows prs\<rparr>)))))))"

definition compile :: "rule_file \<Rightarrow> rule_error + compiled_rules" where
  "compile f =
     (if schema_version f \<noteq> SCHEMA_VERSION then Inl (WrongSchemaVersion (schema_version f))
      else
        (case compile_vocabulary (common_vocab (file_common f)) CommonScope {} of
           Inl e \<Rightarrow> Inl e
         | Inr (cv, seen1) \<Rightarrow>
        (case compile_chrome (common_chrome_entries (file_common f)) Common CommonScope seen1 of
           Inl e \<Rightarrow> Inl e
         | Inr (cc, seen2) \<Rightarrow>
        (case compile_rules (common_rule_list (file_common f)) Common CommonScope seen2 0 of
           Inl e \<Rightarrow> Inl e
         | Inr (cr, seen3) \<Rightarrow>
        (case try_map compile_provider (seen3, Map.empty) (List.enumerate 0 (file_providers f)) of
           Inl e \<Rightarrow> Inl e
         | Inr (_, (_, ps)) \<Rightarrow>
             Inr \<lparr>common_vocabulary = cv, common_chrome = cc, common_rules = cr, providers = ps\<rparr>)))))"

section \<open>Merging an override\<close>

text \<open>\<^verbatim>\<open>iter_mut().find(p)\<close> followed by an assignment: changes the first match in place.\<close>

fun update_first :: "('a \<Rightarrow> bool) \<Rightarrow> ('a \<Rightarrow> 'a) \<Rightarrow> 'a list \<Rightarrow> 'a list option" where
  "update_first p f [] = None"
| "update_first p f (x # xs) =
     (if p x then Some (f x # xs) else map_option (Cons x) (update_first p f xs))"

definition merge_vocabulary :: "vocabulary_entry list \<Rightarrow> vocabulary_entry list \<Rightarrow> vocabulary_entry list" where
  "merge_vocabulary base overlay =
     foldl (\<lambda>acc entry.
       case update_first (\<lambda>existing. ve_id existing = ve_id entry) (\<lambda>_. entry) acc of
         Some acc' \<Rightarrow> acc'
       | None \<Rightarrow> acc @ [entry]) base overlay"

definition merge_chrome :: "compiled_chrome list \<Rightarrow> compiled_chrome list \<Rightarrow> compiled_chrome list" where
  "merge_chrome base overlay =
     foldl (\<lambda>acc entry.
       case update_first (\<lambda>existing. cc_id existing = cc_id entry) (\<lambda>_. entry) acc of
         Some acc' \<Rightarrow> acc'
       | None \<Rightarrow> acc @ [entry]) base overlay"

definition merge_rules :: "compiled_rule list \<Rightarrow> compiled_rule list \<Rightarrow> compiled_rule list" where
  "merge_rules base overlay =
     foldl (\<lambda>acc r.
       case update_first (\<lambda>existing. cr_id existing = cr_id r)
              (\<lambda>existing. r\<lparr>cr_order := cr_order existing\<rparr>) acc of
         Some acc' \<Rightarrow> acc'
       | None \<Rightarrow> acc @ [r]) base overlay"

definition merge_provider :: "compiled_provider \<Rightarrow> compiled_provider \<Rightarrow> compiled_provider" where
  "merge_provider base overlay =
     \<lparr>cp_probe_args = (if cp_probe_args overlay \<noteq> [] then cp_probe_args overlay else cp_probe_args base),
      cp_vocabulary = merge_vocabulary (cp_vocabulary base) (cp_vocabulary overlay),
      cp_chrome = merge_chrome (cp_chrome base) (cp_chrome overlay),
      cp_rules = merge_rules (cp_rules base) (cp_rules overlay),
      cp_status_rows = (if cp_status_rows overlay \<noteq> None then cp_status_rows overlay else cp_status_rows base),
      cp_waiting_prompt_rows =
        (if cp_waiting_prompt_rows overlay \<noteq> None then cp_waiting_prompt_rows overlay
         else cp_waiting_prompt_rows base)\<rparr>"

text \<open>The loop over the overlay's providers touches each key once, so it is pointwise.\<close>

definition merge_over :: "compiled_rules \<Rightarrow> compiled_rules \<Rightarrow> compiled_rules" where
  "merge_over base overlay =
     \<lparr>common_vocabulary = merge_vocabulary (common_vocabulary base) (common_vocabulary overlay),
      common_chrome = merge_chrome (common_chrome base) (common_chrome overlay),
      common_rules = merge_rules (common_rules base) (common_rules overlay),
      providers = (\<lambda>p.
        case providers overlay p of
          None \<Rightarrow> providers base p
        | Some op \<Rightarrow>
            (case providers base p of
               Some bp \<Rightarrow> Some (merge_provider bp op)
             | None \<Rightarrow> Some op))\<rparr>"


section \<open>Fresh identifiers\<close>

text \<open>
  Every compile step inserts its entry's id into the set of ids seen so far and refuses one that is
  already there. The contract of such a step, and what a run of steps keeps.
\<close>

locale fresh_ids =
  fixes step :: "ustr set \<Rightarrow> 'a \<Rightarrow> 'e + ('b \<times> ustr set)"
    and ident :: "'b \<Rightarrow> ustr"
  assumes step_fresh: "step seen x = Inr (y, seen') \<Longrightarrow> ident y \<notin> seen \<and> seen' = insert (ident y) seen"
begin

lemma run_fresh:
  "try_map step seen xs = Inr (ys, seen') \<Longrightarrow>
   distinct (map ident ys) \<and> ident ` set ys \<inter> seen = {} \<and> seen' = seen \<union> ident ` set ys"
proof (induction xs arbitrary: seen ys)
  case (Cons x xs)
  then obtain y s1 ys' where step: "step seen x = Inr (y, s1)"
    and run: "try_map step s1 xs = Inr (ys', seen')" and ys: "ys = y # ys'"
    by (auto split: sum.splits)
  from step_fresh [OF step] Cons.IH [OF run] show ?case
    unfolding ys by auto
qed simp

end

interpretation string_ids: fresh_ids "compile_string_entry label" ve_id for label
  by unfold_locales
     (auto simp: compile_string_entry_def split: prod.splits if_splits sum.splits)

interpretation glyph_ids: fresh_ids "compile_glyph_entry label" ve_id for label
  by unfold_locales
     (auto simp: compile_glyph_entry_def split: prod.splits if_splits sum.splits)

interpretation chrome_ids: fresh_ids "compile_chrome_entry label ns" cc_id for label ns
  by unfold_locales
     (auto simp: compile_chrome_entry_def split: if_splits sum.splits)

interpretation rule_ids: fresh_ids "compile_rule label ns order_base" cr_id for label ns order_base
  by unfold_locales
     (auto simp: compile_rule_def split: prod.splits if_splits sum.splits)

lemma try_map_all:
  assumes step: "\<And>s x y s'. f s x = Inr (y, s') \<Longrightarrow> P y"
  shows "try_map f s xs = Inr (ys, s') \<Longrightarrow> list_all P ys"
proof (induction xs arbitrary: s ys)
  case (Cons x xs)
  then obtain y s1 ys' where "f s x = Inr (y, s1)" and "try_map f s1 xs = Inr (ys', s')"
    and "ys = y # ys'"
    by (auto split: sum.splits)
  with step [of s x y s1] Cons.IH [of s1 ys'] show ?case
    by simp
qed simp

section \<open>What compilation guarantees\<close>

definition rule_wf :: "compiled_rule \<Rightarrow> bool" where
  "rule_wf r \<longleftrightarrow>
     cr_channel r = required_channel (cr_predicate r) \<and>
     (case cr_predicate r of
        Structural name \<Rightarrow> name \<in> set STRUCTURAL_PREDICATES
      | ProgressStateIn states \<Rightarrow> states \<noteq> []
      | _ \<Rightarrow> True)"

definition entry_wf :: "vocabulary_entry \<Rightarrow> bool" where
  "entry_wf e \<longleftrightarrow> (ve_values e = []) \<noteq> (ve_glyphs e = [])"

definition section_ids ::
  "vocabulary_entry list \<Rightarrow> compiled_chrome list \<Rightarrow> compiled_rule list \<Rightarrow> ustr list" where
  "section_ids v c r = map ve_id v @ map cc_id c @ map cr_id r"

definition common_ids :: "compiled_rules \<Rightarrow> ustr list" where
  "common_ids c = section_ids (common_vocabulary c) (common_chrome c) (common_rules c)"

definition provider_ids :: "compiled_provider \<Rightarrow> ustr list" where
  "provider_ids p = section_ids (cp_vocabulary p) (cp_chrome p) (cp_rules p)"

lemma compile_predicate_wf:
  "compile_predicate p i = Inr q \<Longrightarrow>
   (case q of Structural name \<Rightarrow> name \<in> set STRUCTURAL_PREDICATES
            | ProgressStateIn states \<Rightarrow> states \<noteq> [] | _ \<Rightarrow> True)"
  by (auto simp: compile_predicate_def find_Some_iff split: predicate.splits if_splits option.splits)

lemma compile_rule_wf: "compile_rule label ns ob seen ir = Inr (r, seen') \<Longrightarrow> rule_wf r"
  by (auto simp: compile_rule_def check_channel_def rule_wf_def dest: compile_predicate_wf
      split: prod.splits if_splits sum.splits)

lemma compile_rules_wf:
  "compile_rules declared ns label seen ob = Inr (rs, seen') \<Longrightarrow> list_all rule_wf rs"
  unfolding compile_rules_def by (rule try_map_all) (auto dest: compile_rule_wf)

lemma try_each_length: "try_each f xs = Inr ys \<Longrightarrow> length ys = length xs"
  by (induction xs arbitrary: ys) (auto split: sum.splits)

lemma compile_string_entry_wf: "compile_string_entry label seen se = Inr (e, seen') \<Longrightarrow> entry_wf e"
  by (auto simp: compile_string_entry_def entry_wf_def split: prod.splits if_splits sum.splits)

lemma compile_glyph_entry_wf: "compile_glyph_entry label seen se = Inr (e, seen') \<Longrightarrow> entry_wf e"
  by (auto simp: compile_glyph_entry_def entry_wf_def dest!: try_each_length
      split: prod.splits if_splits sum.splits)

lemma compile_vocabulary_wf:
  assumes "compile_vocabulary v label seen = Inr (es, seen')"
  shows "list_all entry_wf es"
proof -
  obtain ss s1 gs where "try_map (compile_string_entry label) seen (flatten_sets (string_sets v)) = Inr (ss, s1)"
    and "try_map (compile_glyph_entry label) s1 (flatten_sets (glyph_sets v)) = Inr (gs, seen')"
    and "es = ss @ gs"
    using assms by (auto simp: compile_vocabulary_def split: sum.splits)
  then show ?thesis
    by (auto dest!: try_map_all [where P = entry_wf, rotated]
        dest: compile_string_entry_wf compile_glyph_entry_wf)
qed

text \<open>One section of the file (common or a provider's): its ids are distinct, new, and recorded.\<close>

lemma compile_section_fresh:
  assumes "compile_vocabulary v label seen = Inr (es, s1)"
    and "compile_chrome cs ns label s1 = Inr (ccs, s2)"
    and "compile_rules rs ns label s2 ob = Inr (crs, s3)"
  shows "distinct (section_ids es ccs crs)" and "set (section_ids es ccs crs) \<inter> seen = {}"
    and "s3 = seen \<union> set (section_ids es ccs crs)"
proof -
  obtain ss t gs where ss: "try_map (compile_string_entry label) seen (flatten_sets (string_sets v)) = Inr (ss, t)"
    and gs: "try_map (compile_glyph_entry label) t (flatten_sets (glyph_sets v)) = Inr (gs, s1)"
    and es: "es = ss @ gs"
    using assms(1) by (auto simp: compile_vocabulary_def split: sum.splits)
  note facts = string_ids.run_fresh [OF ss] glyph_ids.run_fresh [OF gs]
    chrome_ids.run_fresh [OF assms(2) [unfolded compile_chrome_def]]
    rule_ids.run_fresh [OF assms(3) [unfolded compile_rules_def]]
  show "distinct (section_ids es ccs crs)" and "set (section_ids es ccs crs) \<inter> seen = {}"
    and "s3 = seen \<union> set (section_ids es ccs crs)"
    using facts unfolding section_ids_def es by auto
qed


definition provider_wf :: "compiled_provider \<Rightarrow> bool" where
  "provider_wf cp \<longleftrightarrow>
     distinct (provider_ids cp) \<and> list_all rule_wf (cp_rules cp) \<and> list_all entry_wf (cp_vocabulary cp)"

text \<open>Ids are unique across the whole file: within the common section, within each provider's, and
  between any two of them.\<close>

definition compiled_wf :: "compiled_rules \<Rightarrow> bool" where
  "compiled_wf c \<longleftrightarrow>
     distinct (common_ids c) \<and> list_all rule_wf (common_rules c) \<and>
     list_all entry_wf (common_vocabulary c) \<and>
     (\<forall>p cp. providers c p = Some cp \<longrightarrow>
        provider_wf cp \<and> set (provider_ids cp) \<inter> set (common_ids c) = {}) \<and>
     (\<forall>p q cp cq. providers c p = Some cp \<longrightarrow> providers c q = Some cq \<longrightarrow> p \<noteq> q \<longrightarrow>
        set (provider_ids cp) \<inter> set (provider_ids cq) = {})"

definition providers_inv ::
  "ustr set \<Rightarrow> ustr set \<times> (agent_provider \<rightharpoonup> compiled_provider) \<Rightarrow> bool" where
  "providers_inv common st \<longleftrightarrow>
     common \<subseteq> fst st \<and>
     (\<forall>p cp. snd st p = Some cp \<longrightarrow>
        provider_wf cp \<and> set (provider_ids cp) \<inter> common = {} \<and> set (provider_ids cp) \<subseteq> fst st) \<and>
     (\<forall>p q cp cq. snd st p = Some cp \<longrightarrow> snd st q = Some cq \<longrightarrow> p \<noteq> q \<longrightarrow>
        set (provider_ids cp) \<inter> set (provider_ids cq) = {})"

lemma compile_providerE:
  assumes "compile_provider (seen, ps) (i, prs) = Inr (u, st')"
  obtains cp s3 where "ps (prs_provider prs) = None" "st' = (s3, ps(prs_provider prs \<mapsto> cp))"
    "provider_wf cp" "set (provider_ids cp) \<inter> seen = {}" "s3 = seen \<union> set (provider_ids cp)"
proof -
  let ?label = "ProviderScope (prs_provider prs)"
  obtain v s1 c s2 rs s3 where new: "ps (prs_provider prs) = None"
    and v: "compile_vocabulary (prs_vocabulary prs) ?label seen = Inr (v, s1)"
    and c: "compile_chrome (prs_chrome prs) Provider ?label s1 = Inr (c, s2)"
    and rs: "compile_rules (prs_rules prs) Provider ?label s2 ((i + 1) * 10000) = Inr (rs, s3)"
    and st': "st' = (s3, ps(prs_provider prs \<mapsto>
      \<lparr>cp_probe_args = (case prs_version_probe prs of Some args \<Rightarrow> args | None \<Rightarrow> []),
       cp_vocabulary = v, cp_chrome = c, cp_rules = rs, cp_status_rows = prs_status_rows prs,
       cp_waiting_prompt_rows = prs_waiting_prompt_rows prs\<rparr>))"
    using assms
    by (auto simp: compile_provider_def Let_def split: if_splits sum.splits)
  note fresh = compile_section_fresh [OF v c rs] and wf = compile_vocabulary_wf [OF v] compile_rules_wf [OF rs]
  show thesis
    by (rule that [OF new st']) (use fresh wf in \<open>simp_all add: provider_wf_def provider_ids_def\<close>)
qed

lemma compile_provider_inv:
  assumes "providers_inv common st" and "compile_provider st ip = Inr (u, st')"
  shows "providers_inv common st'"
proof -
  obtain seen ps i prs where st: "st = (seen, ps)" and ip: "ip = (i, prs)"
    by (cases st; cases ip)
  obtain cp s3 where "ps (prs_provider prs) = None" and st': "st' = (s3, ps(prs_provider prs \<mapsto> cp))"
    and "provider_wf cp" and "set (provider_ids cp) \<inter> seen = {}" and "s3 = seen \<union> set (provider_ids cp)"
    using compile_providerE [OF assms(2) [unfolded st ip]] by blast
  with assms(1) show ?thesis
    unfolding providers_inv_def st st' by (auto split: if_splits) blast+
qed

lemma try_map_inv:
  assumes step: "\<And>s x y s'. I s \<Longrightarrow> f s x = Inr (y, s') \<Longrightarrow> I s'"
  shows "I s \<Longrightarrow> try_map f s xs = Inr (ys, s') \<Longrightarrow> I s'"
proof (induction xs arbitrary: s ys)
  case (Cons x xs)
  then obtain y s1 ys' where "f s x = Inr (y, s1)" and "try_map f s1 xs = Inr (ys', s')"
    by (auto split: sum.splits)
  with step [of s x y s1] Cons show ?case
    by blast
qed simp

lemma compileE:
  assumes "compile f = Inr c"
  obtains s1 s2 s3 us s4 where "schema_version f = SCHEMA_VERSION"
    "compile_vocabulary (common_vocab (file_common f)) CommonScope {} = Inr (common_vocabulary c, s1)"
    "compile_chrome (common_chrome_entries (file_common f)) Common CommonScope s1 = Inr (common_chrome c, s2)"
    "compile_rules (common_rule_list (file_common f)) Common CommonScope s2 0 = Inr (common_rules c, s3)"
    "try_map compile_provider (s3, Map.empty) (List.enumerate 0 (file_providers f)) = Inr (us, (s4, providers c))"
  using assms by (auto simp: compile_def split: if_splits sum.splits)

end
