(* ===== verification/Resolve.thy ===== *)
theory Resolve
  imports Rules "HOL-Library.Product_Lexorder" "HOL-Library.Multiset"
begin

text \<open>
  Resolution of a compiled rule set for one provider and CLI version
  (\<^verbatim>\<open>CompiledRules::resolve\<close>, \<^verbatim>\<open>CompiledVocabulary::resolve\<close>, \<^verbatim>\<open>ResolvedVocabulary\<close>), and the
  properties of compiling, merging and resolving. The three merge functions of \<^verbatim>\<open>rules.rs\<close> are
  interpretations of one contract, a keyed merge.
\<close>

section \<open>Resolved vocabulary\<close>

record resolved_set =
  rs_values :: "ustr list"
  rs_values_lower :: "ustr list"
  rs_glyphs :: "uchar list"

definition set_is_empty :: "resolved_set \<Rightarrow> bool" where
  "set_is_empty s \<longleftrightarrow> rs_values s = [] \<and> rs_glyphs s = []"

definition SET_COUNT :: nat where
  "SET_COUNT = 21"

primrec set_index :: "vocabulary_set \<Rightarrow> nat" where
  "set_index ComposerPrompts = 0"
| "set_index IdlePromptGlyphs = 1"
| "set_index SpinnerGlyphs = 2"
| "set_index WorkingFooterGlyphs = 3"
| "set_index InFlightMarkers = 4"
| "set_index DoneFooterMarkers = 5"
| "set_index BusyMarkers = 6"
| "set_index WaitingMarkers = 7"
| "set_index PermissionActionMarkers = 19"
| "set_index MenuCaretGlyphs = 20"
| "set_index DividerGlyphs = 8"
| "set_index BoxBorderGlyphs = 9"
| "set_index ComposerStatusSeparators = 10"
| "set_index SubagentParentPrefixes = 11"
| "set_index SubagentTaskPrefixes = 12"
| "set_index BlockArtGlyphs = 13"
| "set_index FooterProgressGlyphs = 14"
| "set_index TurnSummaryGlyphs = 15"
| "set_index WorktreePathMarkers = 16"
| "set_index TitleBusyGlyphs = 17"
| "set_index TitleIdleGlyphs = 18"

text \<open>The array of \<open>SET_COUNT\<close> sets; an index past its end would panic, and none occurs
  (\<open>set_index_bound\<close> below).\<close>

type_synonym resolved_vocabulary = "resolved_set list"

definition vocabulary_default :: resolved_vocabulary where
  "vocabulary_default = replicate SET_COUNT \<lparr>rs_values = [], rs_values_lower = [], rs_glyphs = []\<rparr>"

definition vocab_get :: "resolved_vocabulary \<Rightarrow> vocabulary_set \<Rightarrow> resolved_set" where
  "vocab_get v s = v ! set_index s"

definition push_strings :: "resolved_vocabulary \<Rightarrow> vocabulary_set \<Rightarrow> ustr list \<Rightarrow> resolved_vocabulary" where
  "push_strings v s values =
     v[set_index s := (vocab_get v s)
        \<lparr>rs_values := rs_values (vocab_get v s) @ values,
         rs_values_lower := rs_values_lower (vocab_get v s) @ map str_to_ascii_lowercase values\<rparr>]"

definition push_glyphs ::
  "(uchar \<Rightarrow> ustr) \<Rightarrow> resolved_vocabulary \<Rightarrow> vocabulary_set \<Rightarrow> uchar list \<Rightarrow> resolved_vocabulary" where
  "push_glyphs lc v s gs =
     v[set_index s := (vocab_get v s)
        \<lparr>rs_glyphs := rs_glyphs (vocab_get v s) @ gs,
         rs_values := rs_values (vocab_get v s) @ map (\<lambda>g. [g]) gs,
         rs_values_lower := rs_values_lower (vocab_get v s) @ map lc gs\<rparr>]"

definition resolve_entry ::
  "(uchar \<Rightarrow> ustr) \<Rightarrow> cli_version option \<Rightarrow> resolved_vocabulary \<Rightarrow> vocabulary_entry \<Rightarrow> resolved_vocabulary" where
  "resolve_entry lc version v entry =
     (if \<not> range_admits (ve_versions entry) version then v
      else
        (let v' = (if ve_values entry \<noteq> [] then push_strings v (ve_set entry) (ve_values entry) else v)
         in if ve_glyphs entry \<noteq> [] then push_glyphs lc v' (ve_set entry) (ve_glyphs entry) else v'))"

definition resolve_vocabulary ::
  "(uchar \<Rightarrow> ustr) \<Rightarrow> vocabulary_entry list \<Rightarrow> cli_version option \<Rightarrow> resolved_vocabulary" where
  "resolve_vocabulary lc entries version = foldl (resolve_entry lc version) vocabulary_default entries"

section \<open>Resolved rules\<close>

record resolved_rule =
  rr_id :: ustr
  rr_status :: session_status
  rr_channel :: channel
  rr_namespace :: namespace
  rr_predicate :: compiled_predicate

record resolved_rules =
  rd_provider :: agent_provider
  rd_version :: "cli_version option"
  rd_common :: resolved_vocabulary
  rd_vocabulary :: resolved_vocabulary
  rd_chrome :: "(namespace \<times> matcher) list"
  rd_rules :: "resolved_rule list"
  rd_status_rows :: nat
  rd_waiting_prompt_rows :: nat
  rd_probe_args :: "ustr list"

definition vocabulary_for :: "resolved_rules \<Rightarrow> namespace \<Rightarrow> resolved_vocabulary" where
  "vocabulary_for r ns = (case ns of Common \<Rightarrow> rd_common r | Provider \<Rightarrow> rd_vocabulary r)"

definition DEFAULT_STATUS_ROWS :: nat where
  "DEFAULT_STATUS_ROWS = 8"

text \<open>\<^verbatim>\<open>#[derive(PartialOrd, Ord)]\<close> on \<^verbatim>\<open>Channel\<close>: declaration order.\<close>

primrec channel_rank :: "channel \<Rightarrow> nat" where
  "channel_rank Grid = 0"
| "channel_rank Title = 1"
| "channel_rank ProgressReport = 2"

instantiation channel :: linorder
begin

definition less_eq_channel :: "channel \<Rightarrow> channel \<Rightarrow> bool" where
  "a \<le> b \<longleftrightarrow> channel_rank a \<le> channel_rank b"

definition less_channel :: "channel \<Rightarrow> channel \<Rightarrow> bool" where
  "a < b \<longleftrightarrow> channel_rank a < channel_rank b"

instance
proof
  fix a b c :: channel
  show "a < b \<longleftrightarrow> a \<le> b \<and> \<not> b \<le> a"
    by (auto simp: less_eq_channel_def less_channel_def)
  show "a \<le> a"
    by (simp add: less_eq_channel_def)
  show "a \<le> b \<Longrightarrow> b \<le> c \<Longrightarrow> a \<le> c"
    by (auto simp: less_eq_channel_def)
  show "a \<le> b \<Longrightarrow> b \<le> a \<Longrightarrow> a = b"
    by (cases a; cases b) (auto simp: less_eq_channel_def)
  show "a \<le> b \<or> b \<le> a"
    by (auto simp: less_eq_channel_def)
qed

end

definition rule_key :: "compiled_rule \<Rightarrow> channel \<times> int \<times> nat" where
  "rule_key r = (cr_channel r, cr_priority r, cr_order r)"

definition resolved_rule_of :: "compiled_rule \<Rightarrow> resolved_rule" where
  "resolved_rule_of r =
     \<lparr>rr_id = cr_id r, rr_status = cr_status r, rr_channel = cr_channel r,
      rr_namespace = cr_namespace r, rr_predicate = cr_predicate r\<rparr>"

definition selected_rules ::
  "compiled_rules \<Rightarrow> agent_provider \<Rightarrow> cli_version option \<Rightarrow> compiled_rule list" where
  "selected_rules c p version =
     sort_key rule_key
       (filter (\<lambda>r. range_admits (cr_versions r) version)
         (common_rules c @ (case providers c p of Some cp \<Rightarrow> cp_rules cp | None \<Rightarrow> [])))"

definition resolve ::
  "(uchar \<Rightarrow> ustr) \<Rightarrow> compiled_rules \<Rightarrow> agent_provider \<Rightarrow> cli_version option \<Rightarrow> resolved_rules" where
  "resolve lc c p version =
     (let compiled = providers c p;
          status_rows = (case Option.bind compiled cp_status_rows of
                           Some n \<Rightarrow> n | None \<Rightarrow> DEFAULT_STATUS_ROWS)
      in \<lparr>rd_provider = p,
          rd_version = version,
          rd_common = resolve_vocabulary lc (common_vocabulary c) version,
          rd_vocabulary =
            (case compiled of
               Some cp \<Rightarrow> resolve_vocabulary lc (cp_vocabulary cp) version
             | None \<Rightarrow> vocabulary_default),
          rd_chrome =
            map (\<lambda>e. (cc_namespace e, cc_matcher e))
              (filter (\<lambda>e. range_admits (cc_versions e) version)
                (common_chrome c @ (case compiled of Some cp \<Rightarrow> cp_chrome cp | None \<Rightarrow> []))),
          rd_rules = map resolved_rule_of (selected_rules c p version),
          rd_status_rows = status_rows,
          rd_waiting_prompt_rows =
            (case Option.bind compiled cp_waiting_prompt_rows of Some n \<Rightarrow> n | None \<Rightarrow> status_rows),
          rd_probe_args = (case compiled of Some cp \<Rightarrow> cp_probe_args cp | None \<Rightarrow> [])\<rparr>)"

definition global_composer_prompts :: "(uchar \<Rightarrow> ustr) \<Rightarrow> compiled_rules \<Rightarrow> uchar list" where
  "global_composer_prompts lc c =
     rs_glyphs (vocab_get (resolve_vocabulary lc (common_vocabulary c) None) ComposerPrompts)"

definition probe_args_of :: "compiled_rules \<Rightarrow> agent_provider \<Rightarrow> ustr list" where
  "probe_args_of c p = (case providers c p of Some cp \<Rightarrow> cp_probe_args cp | None \<Rightarrow> [])"

section \<open>Keyed merges\<close>

text \<open>
  The contract the three merge functions share: an override entry replaces the entry with its id in
  place (\<open>combine\<close> may keep something of the old entry, never its id), anything else is appended.
\<close>

definition upsert :: "('a \<Rightarrow> ustr) \<Rightarrow> ('a \<Rightarrow> 'a \<Rightarrow> 'a) \<Rightarrow> 'a list \<Rightarrow> 'a \<Rightarrow> 'a list" where
  "upsert ident combine acc e =
     (case update_first (\<lambda>x. ident x = ident e) (\<lambda>x. combine x e) acc of
        Some acc' \<Rightarrow> acc'
      | None \<Rightarrow> acc @ [e])"

definition lookup :: "('a \<Rightarrow> ustr) \<Rightarrow> 'a list \<Rightarrow> ustr \<Rightarrow> 'a option" where
  "lookup ident xs k = find (\<lambda>x. ident x = k) xs"

lemma update_first_None_iff: "update_first p f xs = None \<longleftrightarrow> (\<forall>x \<in> set xs. \<not> p x)"
  by (induction xs) auto

lemma lookup_simps [simp]:
  "lookup ident [] k = None"
  "lookup ident (x # xs) k = (if ident x = k then Some x else lookup ident xs k)"
  by (simp_all add: lookup_def)

lemma lookup_append:
  "lookup ident (xs @ ys) k = (case lookup ident xs k of Some x \<Rightarrow> Some x | None \<Rightarrow> lookup ident ys k)"
  by (induction xs) auto

lemma lookup_None_iff: "lookup ident xs k = None \<longleftrightarrow> k \<notin> ident ` set xs"
  by (auto simp: lookup_def find_None_iff)

lemma lookup_ext:
  assumes "map ident xs = map ident ys" and "distinct (map ident ys)"
    and "\<And>k. lookup ident xs k = lookup ident ys k"
  shows "xs = ys"
  using assms
proof (induction ys arbitrary: xs)
  case (Cons y ys)
  then obtain x xs' where xs: "xs = x # xs'" and ids: "ident x = ident y" "map ident xs' = map ident ys"
    by auto
  have "lookup ident xs' k = lookup ident ys k" for k
  proof (cases "k = ident y")
    case True
    with Cons.prems(2) ids(2) show ?thesis
      by (metis distinct.simps(2) list.map(2) list.set_map lookup_None_iff)
  next
    case False
    with Cons.prems(3) [of k] xs ids show ?thesis by simp
  qed
  with Cons xs ids show ?case
    using Cons.prems(3) [of "ident y"] by simp
qed simp

locale keyed_merge =
  fixes ident :: "'a \<Rightarrow> ustr"
    and combine :: "'a \<Rightarrow> 'a \<Rightarrow> 'a"
    and merge :: "'a list \<Rightarrow> 'a list \<Rightarrow> 'a list"
  assumes ident_combine: "ident (combine x e) = ident e"
    and combine_combine: "combine (combine x e) e = combine x e"
    and combine_self: "combine e e = e"
    and merge_def: "merge base overlay = foldl (upsert ident combine) base overlay"
begin

lemma update_first_ids:
  "update_first (\<lambda>x. ident x = ident e) (\<lambda>x. combine x e) xs = Some ys \<Longrightarrow> map ident ys = map ident xs"
  by (induction xs arbitrary: ys) (auto simp: ident_combine split: if_splits)

lemma upsert_ids:
  "map ident (upsert ident combine acc e) =
     (if ident e \<in> ident ` set acc then map ident acc else map ident acc @ [ident e])"
proof (cases "update_first (\<lambda>x. ident x = ident e) (\<lambda>x. combine x e) acc")
  case None
  then have "ident e \<notin> ident ` set acc"
    by (auto simp: update_first_None_iff)
  with None show ?thesis
    by (simp add: upsert_def)
next
  case (Some ys)
  then have "ident e \<in> ident ` set acc"
    using update_first_None_iff [of "\<lambda>x. ident x = ident e" "\<lambda>x. combine x e" acc]
    by (auto intro: rev_image_eqI)
  with Some show ?thesis
    by (simp add: upsert_def update_first_ids)
qed

lemma upsert_id_set: "ident ` set (upsert ident combine acc e) = insert (ident e) (ident ` set acc)"
  using arg_cong [OF upsert_ids, of set acc e] by (auto split: if_splits)

lemma lookup_upsert:
  "lookup ident (upsert ident combine acc e) k =
     (if k = ident e
      then Some (case lookup ident acc k of Some x \<Rightarrow> combine x e | None \<Rightarrow> e)
      else lookup ident acc k)"
proof (cases "update_first (\<lambda>x. ident x = ident e) (\<lambda>x. combine x e) acc")
  case None
  then have "lookup ident acc (ident e) = None"
    by (auto simp: update_first_None_iff lookup_None_iff)
  with None show ?thesis
    by (auto simp: upsert_def lookup_append split: option.splits)
next
  case (Some ys)
  have "lookup ident ys k =
      (if k = ident e then Some (case lookup ident acc k of Some x \<Rightarrow> combine x e | None \<Rightarrow> e)
       else lookup ident acc k)"
    using Some by (induction acc arbitrary: ys) (auto simp: ident_combine split: if_splits)
  with Some show ?thesis
    by (simp add: upsert_def)
qed

lemma merge_distinct: "distinct (map ident base) \<Longrightarrow> distinct (map ident (merge base overlay))"
  unfolding merge_def
  by (induction overlay arbitrary: base) (simp, simp add: upsert_ids)

lemma lookup_merge:
  "distinct (map ident overlay) \<Longrightarrow>
   lookup ident (merge base overlay) k =
     (case lookup ident overlay k of
        None \<Rightarrow> lookup ident base k
      | Some e \<Rightarrow> Some (case lookup ident base k of Some x \<Rightarrow> combine x e | None \<Rightarrow> e))"
  unfolding merge_def
proof (induction overlay arbitrary: base)
  case (Cons e es)
  then have "lookup ident es (ident e) = None"
    by (auto simp: lookup_None_iff)
  with Cons show ?case
    by (auto simp: lookup_upsert split: option.splits)
qed simp

text \<open>Entries keep their place: the base's ids first, in order, then the override's new ids in order.\<close>

lemma merge_ids:
  "distinct (map ident overlay) \<Longrightarrow>
   map ident (merge base overlay) =
     map ident base @ filter (\<lambda>k. k \<notin> ident ` set base) (map ident overlay)"
  unfolding merge_def
proof (induction overlay arbitrary: base)
  case (Cons e es)
  from Cons.prems have "filter (\<lambda>k. k \<notin> insert (ident e) (ident ` set base)) (map ident es) =
      filter (\<lambda>k. k \<notin> ident ` set base) (map ident es)"
    by (intro filter_cong) (auto simp: image_iff)
  with Cons show ?case
    by (simp add: upsert_ids upsert_id_set)
qed simp

lemma merge_id_set: "ident ` set (merge base overlay) = ident ` set base \<union> ident ` set overlay"
  unfolding merge_def
proof (induction overlay arbitrary: base)
  case (Cons e es)
  then show ?case by (simp add: upsert_id_set)
qed simp

lemma merge_idem:
  assumes "distinct (map ident base)" and "distinct (map ident overlay)"
  shows "merge (merge base overlay) overlay = merge base overlay"
proof (rule lookup_ext)
  have "filter (\<lambda>k. k \<notin> ident ` set (merge base overlay)) (map ident overlay) = []"
    by (simp add: merge_id_set filter_empty_conv)
  with assms show "map ident (merge (merge base overlay) overlay) = map ident (merge base overlay)"
    using merge_ids [OF assms(2), of "merge base overlay"] by simp
  show "distinct (map ident (merge base overlay))"
    by (rule merge_distinct [OF assms(1)])
  show "lookup ident (merge (merge base overlay) overlay) k = lookup ident (merge base overlay) k" for k
    by (simp add: lookup_merge [OF assms(2)] combine_combine combine_self split: option.splits)
qed

lemma merge_self:
  assumes "distinct (map ident xs)"
  shows "merge xs xs = xs"
proof (rule lookup_ext)
  show "map ident (merge xs xs) = map ident xs"
    by (simp add: merge_ids [OF assms] filter_empty_conv)
  show "distinct (map ident xs)"
    by (rule assms)
  show "lookup ident (merge xs xs) k = lookup ident xs k" for k
    by (simp add: lookup_merge [OF assms] combine_self split: option.splits)
qed

end

interpretation vocabulary_merge: keyed_merge ve_id "\<lambda>_ e. e" merge_vocabulary
  by unfold_locales (simp_all add: merge_vocabulary_def upsert_def [abs_def])

interpretation chrome_merge: keyed_merge cc_id "\<lambda>_ e. e" merge_chrome
  by unfold_locales (simp_all add: merge_chrome_def upsert_def [abs_def])

interpretation rule_merge: keyed_merge cr_id "\<lambda>x r. r\<lparr>cr_order := cr_order x\<rparr>" merge_rules
  by unfold_locales (simp_all add: merge_rules_def upsert_def [abs_def])

lemma compiled_wf_distinct:
  assumes "compiled_wf c"
  shows "distinct (map ve_id (common_vocabulary c))" and "distinct (map cc_id (common_chrome c))"
    and "distinct (map cr_id (common_rules c))"
  using assms by (auto simp: compiled_wf_def common_ids_def section_ids_def)

lemma provider_wf_distinct:
  assumes "compiled_wf c" and "providers c p = Some cp"
  shows "distinct (map ve_id (cp_vocabulary cp))" and "distinct (map cc_id (cp_chrome cp))"
    and "distinct (map cr_id (cp_rules cp))"
  using assms unfolding compiled_wf_def provider_wf_def provider_ids_def section_ids_def
  by (meson distinct_append)+

text \<open>An empty vocabulary and a file of one rule, the inputs of the examples below.\<close>

definition empty_vocabulary :: vocabulary where
  "empty_vocabulary =
     vocabulary.make [] [] [] [] [] [] [] [] [] [] [] [] [] [] [] [] [] [] [] [] []"

definition one_rule :: "nat \<Rightarrow> session_status \<Rightarrow> compiled_rules" where
  "one_rule place status =
     \<lparr>common_vocabulary = [], common_chrome = [],
      common_rules = [\<lparr>cr_id = lit ''r'', cr_status = status, cr_channel = Grid, cr_namespace = Common,
        cr_versions = \<lparr>bounds = [], range_raw = lit ''*''\<rparr>, cr_priority = 0, cr_order = place,
        cr_predicate = AnyLine (MContains (lit ''x''))\<rparr>],
      providers = Map.empty\<rparr>"

section \<open>Properties\<close>

lemma length_push [simp]:
  "length (push_strings v s xs) = length v" "length (push_glyphs lc v s gs) = length v"
  by (simp_all add: push_strings_def push_glyphs_def)

lemma length_resolve_entry [simp]: "length (resolve_entry lc version v e) = length v"
  by (simp add: resolve_entry_def Let_def)

lemma set_index_bound: "set_index s < SET_COUNT"
  by (cases s) (simp_all add: SET_COUNT_def)

lemma set_index_inj: "set_index s = set_index t \<longleftrightarrow> s = t"
  by (cases s; cases t) simp_all

definition entry_strings :: "(uchar \<Rightarrow> ustr) \<Rightarrow> vocabulary_entry \<Rightarrow> resolved_set" where
  "entry_strings lc e =
     \<lparr>rs_values = ve_values e @ map (\<lambda>g. [g]) (ve_glyphs e),
      rs_values_lower = map str_to_ascii_lowercase (ve_values e) @ map lc (ve_glyphs e),
      rs_glyphs = ve_glyphs e\<rparr>"

definition set_append :: "resolved_set \<Rightarrow> resolved_set \<Rightarrow> resolved_set" where
  "set_append a b =
     \<lparr>rs_values = rs_values a @ rs_values b,
      rs_values_lower = rs_values_lower a @ rs_values_lower b,
      rs_glyphs = rs_glyphs a @ rs_glyphs b\<rparr>"

lemma set_append_assoc: "set_append (set_append a b) c = set_append a (set_append b c)"
  by (simp add: set_append_def)

lemma resolve_entry_get:
  assumes "length v = SET_COUNT"
  shows "vocab_get (resolve_entry lc version v e) s =
     (if ve_set e = s \<and> range_admits (ve_versions e) version
      then set_append (vocab_get v s) (entry_strings lc e) else vocab_get v s)"
  using assms set_index_bound [of s] set_index_bound [of "ve_set e"]
  by (auto simp: resolve_entry_def Let_def vocab_get_def push_strings_def push_glyphs_def
      set_append_def entry_strings_def set_index_inj nth_list_update)

lemma resolve_entries_get:
  "length v = SET_COUNT \<Longrightarrow>
   vocab_get (foldl (resolve_entry lc version) v es) s =
     foldl set_append (vocab_get v s)
       (map (entry_strings lc) (filter (\<lambda>e. ve_set e = s \<and> range_admits (ve_versions e) version) es))"
  by (induction es arbitrary: v) (simp_all add: resolve_entry_get)

lemma foldl_set_append:
  "foldl set_append a bs =
     \<lparr>rs_values = rs_values a @ concat (map rs_values bs),
      rs_values_lower = rs_values_lower a @ concat (map rs_values_lower bs),
      rs_glyphs = rs_glyphs a @ concat (map rs_glyphs bs)\<rparr>"
  by (induction bs arbitrary: a) (simp_all add: set_append_def)

lemma range_admits_None [simp]: "range_admits r None"
  by (simp add: range_admits_def)

lemma selected_rules_set:
  "set (selected_rules c p version) =
     {r \<in> set (common_rules c @ (case providers c p of Some cp \<Rightarrow> cp_rules cp | None \<Rightarrow> [])).
        range_admits (cr_versions r) version}"
  by (auto simp: selected_rules_def)

lemma selected_rules_sorted: "sorted (map rule_key (selected_rules c p version))"
  by (simp add: selected_rules_def)

lemma sorted_channels: "sorted (map rule_key rs) \<Longrightarrow> sorted (map cr_channel rs)"
  by (induction rs) (auto simp: rule_key_def less_eq_prod_def intro: order.strict_implies_order)

lemma resolve_channels_sorted: "sorted (map rr_channel (rd_rules (resolve lc c p version)))"
  using sorted_channels [OF selected_rules_sorted]
  by (simp add: resolve_def Let_def comp_def resolved_rule_of_def)

lemma compiled_wf_compile:
  assumes "compile f = Inr c"
  shows "compiled_wf c"
proof -
  obtain s1 s2 s3 us s4 where
    v: "compile_vocabulary (common_vocab (file_common f)) CommonScope {} = Inr (common_vocabulary c, s1)"
    and ch: "compile_chrome (common_chrome_entries (file_common f)) Common CommonScope s1 = Inr (common_chrome c, s2)"
    and rs: "compile_rules (common_rule_list (file_common f)) Common CommonScope s2 0 = Inr (common_rules c, s3)"
    and ps: "try_map compile_provider (s3, Map.empty) (List.enumerate 0 (file_providers f)) = Inr (us, (s4, providers c))"
    by (rule compileE [OF assms])
  note fresh = compile_section_fresh [OF v ch rs]
  have "providers_inv (set (common_ids c)) (s3, Map.empty)"
    using fresh(3) by (simp add: providers_inv_def common_ids_def)
  from try_map_inv [where I = "providers_inv (set (common_ids c))", OF compile_provider_inv this ps]
  have "providers_inv (set (common_ids c)) (s4, providers c)" .
  with fresh(1) compile_vocabulary_wf [OF v] compile_rules_wf [OF rs] show ?thesis
    by (simp add: compiled_wf_def providers_inv_def common_ids_def)
qed

text \<open>C26: A rule file that compiles is well formed: every id is used once in the whole file, every rule
  reads the channel its predicate needs, every structural predicate is a known one, a progress rule
  names a state, and every vocabulary entry carries strings or glyphs, never both or neither.\<close>

theorem compile_wf:
  assumes "compile f = Inr c"
  shows "compiled_wf c"
  by (rule compiled_wf_compile [OF assms])

theorem compile_wf_witness:
  "\<not> isl (compile \<lparr>schema_version = SCHEMA_VERSION,
      file_common = \<lparr>common_vocab = empty_vocabulary\<lparr>spinner_glyphs :=
          [\<lparr>vg_id = lit ''spin'', vg_versions = None, vg_glyphs = [lit ''*'', lit ''+'']\<rparr>]\<rparr>,
        common_chrome_entries = [], common_rule_list = []\<rparr>,
      file_providers = [\<lparr>prs_provider = Claude, prs_version_probe = None, prs_vocabulary = empty_vocabulary,
        prs_chrome = [], prs_rules = [\<lparr>rule_id = lit ''busy'', rule_status = Busy, rule_channel = Grid,
          rule_versions = Some (lit ''>=1.16''), rule_priority = 10,
          rule_when = PStructural (lit ''claude-working-footer'')\<rparr>],
        prs_status_rows = None, prs_waiting_prompt_rows = None\<rparr>]\<rparr>) \<and>
   compiled_wf (projr (compile \<lparr>schema_version = SCHEMA_VERSION,
      file_common = \<lparr>common_vocab = empty_vocabulary\<lparr>spinner_glyphs :=
          [\<lparr>vg_id = lit ''spin'', vg_versions = None, vg_glyphs = [lit ''*'', lit ''+'']\<rparr>]\<rparr>,
        common_chrome_entries = [], common_rule_list = []\<rparr>,
      file_providers = [\<lparr>prs_provider = Claude, prs_version_probe = None, prs_vocabulary = empty_vocabulary,
        prs_chrome = [], prs_rules = [\<lparr>rule_id = lit ''busy'', rule_status = Busy, rule_channel = Grid,
          rule_versions = Some (lit ''>=1.16''), rule_priority = 10,
          rule_when = PStructural (lit ''claude-working-footer'')\<rparr>],
        prs_status_rows = None, prs_waiting_prompt_rows = None\<rparr>]\<rparr>))"
  (is "\<not> isl ?r \<and> _")
proof -
  have ok: "\<not> isl ?r"
    by code_simp
  then have "?r = Inr (projr ?r)"
    by (simp add: sum.expand)
  from ok compile_wf [OF this] show ?thesis ..
qed



text \<open>Reading the same override again changes nothing: merging is idempotent in the override.\<close>

theorem merge_over_idem:
  assumes "compiled_wf base" and "compiled_wf overlay"
  shows "merge_over (merge_over base overlay) overlay = merge_over base overlay"
proof -
  note common = vocabulary_merge.merge_idem [OF assms [THEN compiled_wf_distinct(1)]]
    chrome_merge.merge_idem [OF assms [THEN compiled_wf_distinct(2)]]
    rule_merge.merge_idem [OF assms [THEN compiled_wf_distinct(3)]]
  have "merge_provider (merge_provider bp op) op = merge_provider bp op"
    if "providers base p = Some bp" "providers overlay p = Some op" for p bp op
    using that assms
    by (simp add: merge_provider_def vocabulary_merge.merge_idem chrome_merge.merge_idem
        rule_merge.merge_idem provider_wf_distinct)
  moreover have "merge_provider op op = op" if "providers overlay p = Some op" for p op
    using provider_wf_distinct [OF assms(2) that]
    by (simp add: merge_provider_def vocabulary_merge.merge_self chrome_merge.merge_self
        rule_merge.merge_self)
  ultimately show ?thesis
    using common by (auto simp: merge_over_def fun_eq_iff split: option.splits)
qed

theorem merge_over_idem_witness:
  "merge_over (merge_over (one_rule 3 Busy) (one_rule 0 Idle)) (one_rule 0 Idle) =
   merge_over (one_rule 3 Busy) (one_rule 0 Idle)"
  by (rule merge_over_idem)
     (simp_all add: one_rule_def compiled_wf_def common_ids_def section_ids_def rule_wf_def
      required_channel_def)

text \<open>C30: Resolving a vocabulary for a CLI version leaves in each set exactly the strings and glyphs of the
  entries of that set whose range admits the version, in file order, each glyph also usable as a
  one-character string, and beside each string its lower-case form.\<close>

theorem resolve_vocabulary_spec:
  "vocab_get (resolve_vocabulary lc es version) s =
     (let admitted = filter (\<lambda>e. ve_set e = s \<and> range_admits (ve_versions e) version) es
      in \<lparr>rs_values = concat (map (\<lambda>e. ve_values e @ map (\<lambda>g. [g]) (ve_glyphs e)) admitted),
          rs_values_lower =
            concat (map (\<lambda>e. map str_to_ascii_lowercase (ve_values e) @ map lc (ve_glyphs e)) admitted),
          rs_glyphs = concat (map ve_glyphs admitted)\<rparr>)"
proof -
  have default: "vocab_get vocabulary_default s = \<lparr>rs_values = [], rs_values_lower = [], rs_glyphs = []\<rparr>"
    using set_index_bound [of s] by (simp add: vocab_get_def vocabulary_default_def)
  have "length vocabulary_default = SET_COUNT"
    by (simp add: vocabulary_default_def)
  from resolve_entries_get [OF this] show ?thesis
    by (simp add: resolve_vocabulary_def foldl_set_append default entry_strings_def comp_def Let_def)
qed


text \<open>A new rule of an override is not run after the bundled rules of its priority: its \<^verbatim>\<open>order\<close> counts
  from the override file's own start, so it sorts before bundled rules declared further down theirs.\<close>

lemma appended_override_runs_first:
  "map rr_id (rd_rules (resolve (\<lambda>c. [c])
     (merge_over (one_rule 3 Busy)
        ((one_rule 0 Idle)\<lparr>common_rules := map (cr_id_update (\<lambda>_. lit ''new'')) (common_rules (one_rule 0 Idle))\<rparr>))
     Claude None)) = [lit ''new'', lit ''r'']"
  by code_simp

end
