(* ===== verification/Utf8.thy ===== *)
theory Utf8
  imports Prelude
begin

text \<open>
  UTF-8 as the byte-level code relies on it: encodings of characters are prefix free and
  self-synchronising, so searching bytes is searching characters, and \<^verbatim>\<open>str::from_utf8\<close> decodes
  what \<^verbatim>\<open>str::as_bytes\<close> encodes and nothing else.
\<close>

section \<open>UTF-8 is self-synchronising\<close>

definition lead :: "byte \<Rightarrow> bool" where
  "lead b \<longleftrightarrow> b < 128 \<or> 192 \<le> b"

lemma utf8_char_shape:
  obtains b bs where "utf8_char c = b # bs" "lead b" "list_all (\<lambda>x. \<not> lead x) bs"
proof (cases "c < 128")
  case True
  then show ?thesis
    by (intro that [of c "[]"]) (simp_all add: utf8_char_def lead_def)
next
  case False
  have small: "x mod 64 + 128 < 192" for x :: nat
    by (simp add: less_diff_conv)
  show ?thesis
    by (cases "c < 2048"; cases "c < 65536")
       (insert False, auto simp: utf8_char_def lead_def not_less intro!: that small [simplified add.commute])
qed

lemma utf8_char_not_Nil [simp]: "utf8_char c \<noteq> []"
  by (simp add: utf8_char_def)

lemma div_mod_eqI: "a div n = b div n \<Longrightarrow> a mod n = b mod n \<Longrightarrow> a = (b :: nat)"
  by (metis div_mult_mod_eq)

lemma div64_eqs:
  "c div 4096 = c div 64 div 64" "c div 262144 = c div 64 div 64 div (64 :: nat)"
  by (simp_all add: div_mult2_eq [symmetric])

lemma utf8_char_prefix: "utf8_char c @ x = utf8_char d @ y \<Longrightarrow> c = d \<and> x = y"
  by (auto simp: utf8_char_def div64_eqs less_mult_imp_div_less dest: div_mod_eqI split: if_splits)

lemma as_bytes_simps [simp]:
  "as_bytes [] = []" "as_bytes (c # cs) = utf8_char c @ as_bytes cs"
  "as_bytes (s @ t) = as_bytes s @ as_bytes t"
  by (simp_all add: as_bytes_def)

lemma as_bytes_eq_Nil [simp]: "as_bytes s = [] \<longleftrightarrow> s = []"
  by (cases s) simp_all

lemma as_bytes_prefix: "as_bytes h = as_bytes n @ vs \<Longrightarrow> \<exists>ys. h = n @ ys"
proof (induction n arbitrary: h)
  case (Cons d n)
  then obtain c h' where h: "h = c # h'"
    by (cases h) simp_all
  with Cons.prems have "utf8_char c @ as_bytes h' = utf8_char d @ as_bytes n @ vs"
    by simp
  from utf8_char_prefix [OF this] Cons.IH h show ?case
    by auto
qed simp

lemma as_bytes_sync:
  assumes "as_bytes h = us @ as_bytes n @ vs" and "n \<noteq> []"
  shows "\<exists>xs ys. h = xs @ n @ ys"
  using assms(1)
proof (induction h arbitrary: us)
  case Nil
  with assms(2) show ?case by simp
next
  case (Cons c h)
  show ?case
  proof (cases us)
    case Nil
    with Cons.prems as_bytes_prefix [of "c # h" n vs] show ?thesis
      by (metis append_Nil)
  next
    case (Cons u us')
    obtain b bs where b: "utf8_char c = b # bs" "list_all (\<lambda>x. \<not> lead x) bs"
      by (rule utf8_char_shape)
    obtain d n' where n: "n = d # n'"
      using assms(2) by (cases n) simp_all
    obtain l ls where l: "utf8_char d = l # ls" "lead l"
      by (rule utf8_char_shape)
    have eq: "bs @ as_bytes h = us' @ l # ls @ as_bytes n' @ vs"
      using Cons.prems by (simp add: Cons b n l)
    then obtain us'' where "us' = bs @ us''" and "as_bytes h = us'' @ as_bytes n @ vs"
      using b(2) l by (auto simp: append_eq_append_conv2 append_eq_Cons_conv n)
    from Cons.IH [OF this(2)] show ?thesis
      by (metis append_Cons)
  qed
qed

lemma utf8_lowercase: "utf8_char (to_ascii_lowercase c) = map to_ascii_lowercase (utf8_char c)"
  by (auto simp: utf8_char_def to_ascii_lowercase_def)

lemma as_bytes_lowercase: "as_bytes (str_to_ascii_lowercase s) = map to_ascii_lowercase (as_bytes s)"
  by (induction s) (simp_all add: str_to_ascii_lowercase_def utf8_lowercase)

section \<open>Decoding\<close>

text \<open>
  \<^verbatim>\<open>str::from_utf8\<close>: shortest forms of scalar values only; surrogates, overlong forms, stray
  continuation bytes and truncated sequences are errors.
\<close>

definition cont_byte :: "byte \<Rightarrow> bool" where
  "cont_byte b \<longleftrightarrow> 128 \<le> b \<and> b < 192"

fun decode_char :: "byte list \<Rightarrow> (uchar \<times> byte list) option" where
  "decode_char [] = None"
| "decode_char (a # bs) =
     (if a < 128 then Some (a, bs)
      else if a < 194 then None
      else if a < 224 then
        (case bs of
           b # r \<Rightarrow> if cont_byte b then Some ((a - 192) * 64 + (b - 128), r) else None
         | _ \<Rightarrow> None)
      else if a < 240 then
        (case bs of
           b # c # r \<Rightarrow>
             (let u = (a - 224) * 4096 + (b - 128) * 64 + (c - 128)
              in if cont_byte b \<and> cont_byte c \<and> 2048 \<le> u \<and> scalar u then Some (u, r) else None)
         | _ \<Rightarrow> None)
      else
        (case bs of
           b # c # d # r \<Rightarrow>
             (let u = (a - 240) * 262144 + (b - 128) * 4096 + (c - 128) * 64 + (d - 128)
              in if a < 245 \<and> cont_byte b \<and> cont_byte c \<and> cont_byte d \<and> 65536 \<le> u \<and> scalar u
                 then Some (u, r) else None)
         | _ \<Rightarrow> None))"

lemma decode_char_shorter: "decode_char bs = Some (c, r) \<Longrightarrow> length r < length bs"
  by (cases bs) (auto simp: Let_def split: if_splits list.splits)

function from_utf8 :: "byte list \<Rightarrow> ustr option" where
  "from_utf8 bs =
     (if bs = [] then Some []
      else case decode_char bs of
             None \<Rightarrow> None
           | Some (c, r) \<Rightarrow> map_option (Cons c) (from_utf8 r))"
  by pat_completeness auto
termination
  by (relation "measure length") (auto dest: decode_char_shorter)

declare from_utf8.simps [simp del]

lemma digits64:
  fixes c :: nat
  shows "c div 64 * 64 + c mod 64 = c"
    "c div 4096 * 64 + c div 64 mod 64 = c div 64"
    "c div 262144 * 64 + c div 4096 mod 64 = c div 4096"
    "c mod 64 < 64" "c div 64 mod 64 < 64" "c div 4096 mod 64 < 64"
  using div_mult_mod_eq [of "c div 64" 64] div_mult_mod_eq [of "c div 4096" 64]
  by (simp_all add: div_mult2_eq [symmetric])

lemma decode_utf8_char:
  assumes "scalar c"
  shows "decode_char (utf8_char c @ r) = Some (c, r)"
proof -
  consider "c < 128" | "128 \<le> c" "c < 2048" | "2048 \<le> c" "c < 65536" | "65536 \<le> c"
    by linarith
  then show ?thesis
  proof cases
    case 2
    then have "utf8_char c = [192 + c div 64, 128 + c mod 64]"
      by (simp add: utf8_char_def)
    moreover have "2 \<le> c div 64" "c div 64 < 32"
      using 2 digits64 (1,4) [of c] by linarith+
    ultimately show ?thesis
      using digits64 (1,4) [of c] by (simp add: cont_byte_def)
  next
    case 3
    have "c div 4096 * 4096 + c div 64 mod 64 * 64 + c mod 64 = c" "c div 4096 < 16"
      using digits64 [of c] 3 by linarith+
    with 3 assms show ?thesis
      using digits64 (4,5) [of c] by (simp add: utf8_char_def cont_byte_def Let_def)
  next
    case 4
    have "c div 262144 * 262144 + c div 4096 mod 64 * 4096 + c div 64 mod 64 * 64 + c mod 64 = c"
      using digits64 [of c] by linarith
    moreover have "c div 262144 < 5"
      using assms by (auto simp: scalar_def)
    ultimately show ?thesis
      using 4 assms digits64 (4,5,6) [of c] by (simp add: utf8_char_def cont_byte_def Let_def)
  qed (simp add: utf8_char_def)
qed

lemma from_utf8_as_bytes: "list_all scalar s \<Longrightarrow> from_utf8 (as_bytes s) = Some s"
  by (induction s) (simp_all add: from_utf8.simps decode_utf8_char)

lemma compose64:
  fixes x y :: nat
  assumes "y < 64"
  shows "(x * 64 + y) div 64 = x" "(x * 64 + y) mod 64 = y"
  using assms by simp_all

lemma utf8_char_2: "2 \<le> x \<Longrightarrow> x < 32 \<Longrightarrow> y < 64 \<Longrightarrow> utf8_char (x * 64 + y) = [192 + x, 128 + y]"
  using compose64 [of y x] by (simp add: utf8_char_def)

lemma utf8_char_3:
  assumes "x < 16" "y < 64" "z < 64" "2048 \<le> u" and u: "u = x * 4096 + y * 64 + z"
  shows "utf8_char u = [224 + x, 128 + y, 128 + z]"
proof -
  have "u = (x * 64 + y) * 64 + z" "u < 65536"
    using assms by simp_all
  then have "u mod 64 = z" "u div 64 div 64 = x" "u div 64 mod 64 = y"
    using assms(2,3) by (simp_all only: compose64)
  then show ?thesis
    using assms(4) \<open>u < 65536\<close> by (simp add: utf8_char_def div64_eqs)
qed

lemma utf8_char_4:
  assumes "y < 64" "z < 64" "w < 64" "65536 \<le> u"
    and u: "u = x * 262144 + y * 4096 + z * 64 + w"
  shows "utf8_char u = [240 + x, 128 + y, 128 + z, 128 + w]"
proof -
  have "u = ((x * 64 + y) * 64 + z) * 64 + w"
    using assms by simp
  then have "u mod 64 = w" "u div 64 mod 64 = z" "u div 64 div 64 mod 64 = y"
      "u div 64 div 64 div 64 = x"
    using assms(1-3) by (simp_all only: compose64)
  then show ?thesis
    using assms(4) by (simp add: utf8_char_def div64_eqs)
qed

lemma contE: "cont_byte b \<Longrightarrow> (\<And>y. b = 128 + y \<Longrightarrow> y < 64 \<Longrightarrow> thesis) \<Longrightarrow> thesis"
  by (drule meta_spec [of _ "b - 128"]) (simp add: cont_byte_def less_diff_conv2)

lemma utf8_char_decode: "decode_char bs = Some (c, r) \<Longrightarrow> bs = utf8_char c @ r \<and> scalar c"
proof (cases bs)
  case (Cons a as)
  assume d: "decode_char bs = Some (c, r)"
  consider "a < 128" | x where "a = 192 + x" "2 \<le> x" "x < 32" | x where "a = 224 + x" "x < 16"
    | x where "a = 240 + x"
  proof -
    have "a < 128 \<or> 194 \<le> a"
      using d Cons by (auto split: if_splits)
    then show ?thesis
      using that(1) that(2) [of "a - 192"] that(3) [of "a - 224"] that(4) [of "a - 240"]
      by linarith
  qed
  then show ?thesis
  proof cases
    case 1
    then show ?thesis using d Cons by (simp add: utf8_char_def scalar_def)
  next
    case (2 x)
    then obtain b where b: "as = b # r" "cont_byte b" "c = x * 64 + (b - 128)"
      using d Cons by (auto split: list.splits if_splits)
    then show ?thesis
      using 2 Cons by (auto elim!: contE simp: utf8_char_2 scalar_def)
  next
    case (3 x)
    then obtain b e where b: "as = b # e # r" "cont_byte b" "cont_byte e" "2048 \<le> c" "scalar c"
        "c = x * 4096 + (b - 128) * 64 + (e - 128)"
      using d Cons by (auto simp: Let_def split: list.splits if_splits)
    then show ?thesis
      using 3 Cons utf8_char_3 [of x "b - 128" "e - 128" c] by (auto elim!: contE)
  next
    case (4 x)
    then obtain b e f where b: "as = b # e # f # r" "cont_byte b" "cont_byte e" "cont_byte f" "65536 \<le> c" "scalar c"
        "c = x * 262144 + (b - 128) * 4096 + (e - 128) * 64 + (f - 128)"
      using d Cons by (auto simp: Let_def split: list.splits if_splits)
    then show ?thesis
      using 4 Cons utf8_char_4 [of "b - 128" "e - 128" "f - 128" c x] by (auto elim!: contE)
  qed
qed simp

lemma from_utf8_SomeD: "from_utf8 bs = Some s \<Longrightarrow> as_bytes s = bs \<and> list_all scalar s"
proof (induction bs arbitrary: s rule: from_utf8.induct)
  case (1 bs)
  then show ?case
    by (subst (asm) (2) from_utf8.simps)
      (auto dest!: utf8_char_decode split: if_splits option.splits)
qed

end
