(* ===== verification/Matching.thy ===== *)
theory Matching
  imports Resolve Utf8
begin

text \<open>
  The matching primitives of \<^verbatim>\<open>classify.rs\<close>: what it means for one rendered line to match a compiled
  matcher, the glyph and prompt tests, the chrome test, and the bound on a published snippet. The main
  result is that the byte-window search of \<^verbatim>\<open>contains_ascii_case_insensitive\<close> is substring search on
  characters, which is what UTF-8 being self-synchronising buys.
\<close>

section \<open>Line tests\<close>

text \<open>\<^verbatim>\<open>slice::windows(n)\<close> for a positive size.\<close>

definition windows_of :: "nat \<Rightarrow> 'a list \<Rightarrow> 'a list list" where
  "windows_of n xs = (if n \<le> length xs then map (\<lambda>i. take n (drop i xs)) [0..<length xs - n + 1] else [])"

definition contains_ascii_case_insensitive :: "ustr \<Rightarrow> ustr \<Rightarrow> bool" where
  "contains_ascii_case_insensitive haystack needle_lowercase =
     (if needle_lowercase = [] then True
      else
        (let h = as_bytes haystack; n = as_bytes needle_lowercase
         in if length n > length h then False
            else list_ex (\<lambda>w. list_all (\<lambda>(left, right). to_ascii_lowercase left = right) (zip w n))
                   (windows_of (length n) h)))"

definition contains_any :: "ustr \<Rightarrow> ustr list \<Rightarrow> bool" where
  "contains_any line needles_lowercase = list_ex (contains_ascii_case_insensitive line) needles_lowercase"

definition starts_with_any :: "ustr \<Rightarrow> ustr list \<Rightarrow> bool" where
  "starts_with_any line prefixes = list_ex (starts_with (trim_start line)) prefixes"

definition starts_with_glyph :: "ustr \<Rightarrow> uchar list \<Rightarrow> bool" where
  "starts_with_glyph line glyphs =
     (case trim_start line of [] \<Rightarrow> False | c # _ \<Rightarrow> List.member glyphs c)"

definition starts_with_glyph_word :: "ustr \<Rightarrow> uchar list \<Rightarrow> bool" where
  "starts_with_glyph_word line glyphs =
     (case trim_start line of
        [] \<Rightarrow> False
      | c # cs \<Rightarrow> List.member glyphs c \<and> (case cs of [] \<Rightarrow> False | d # _ \<Rightarrow> is_whitespace d))"

definition all_characters_in :: "ustr \<Rightarrow> uchar list \<Rightarrow> bool" where
  "all_characters_in line glyphs =
     (if glyphs = [] then False
      else trim line \<noteq> [] \<and> list_all (\<lambda>c. c = 32 \<or> List.member glyphs c) (trim line))"

definition prompt_remainder :: "ustr \<Rightarrow> uchar list \<Rightarrow> ustr option" where
  "prompt_remainder line prompts =
     (case trim_start line of
        [] \<Rightarrow> None
      | c # cs \<Rightarrow> if \<not> List.member prompts c then None else Some (trim cs))"

definition last_non_empty_line :: "ustr list \<Rightarrow> ustr" where
  "last_non_empty_line ls = (case find (\<lambda>l. l \<noteq> []) (rev ls) of Some l \<Rightarrow> l | None \<Rightarrow> [])"

definition starts_numbered_option :: "ustr \<Rightarrow> bool" where
  "starts_numbered_option s =
     (let digit_count = length (takeWhile is_ascii_digit s)
      in 0 < digit_count \<and>
         (case drop digit_count s of [] \<Rightarrow> False | c # _ \<Rightarrow> c = 46 \<or> c = 41))"

definition WAITING_PROMPT_MAX_CHARS :: nat where
  "WAITING_PROMPT_MAX_CHARS = 240"

definition WAITING_PROMPT_MAX_LINES :: nat where
  "WAITING_PROMPT_MAX_LINES = 3"

definition bound_waiting_prompt :: "ustr \<Rightarrow> ustr option" where
  "bound_waiting_prompt v =
     (let collapsed = join [32] (split_whitespace v)
      in if collapsed = [] then None
         else if length collapsed \<le> WAITING_PROMPT_MAX_CHARS then Some collapsed
         else Some (take (WAITING_PROMPT_MAX_CHARS - 1) collapsed @ [8230]))"

section \<open>Matchers\<close>

fun matches_line :: "matcher \<Rightarrow> ustr \<Rightarrow> resolved_vocabulary \<Rightarrow> bool" where
  "matches_line (MContains needle) line v = contains_ascii_case_insensitive line needle"
| "matches_line (MContainsAll needles) line v = list_all (contains_ascii_case_insensitive line) needles"
| "matches_line (MEquals x) line v = (trim line = x)"
| "matches_line (MStartsWith x) line v = starts_with (trim line) x"
| "matches_line (MContainsAny s) line v = contains_any line (rs_values_lower (vocab_get v s))"
| "matches_line (MContainsAllOf s) line v =
     (rs_values_lower (vocab_get v s) \<noteq> [] \<and>
      list_all (contains_ascii_case_insensitive line) (rs_values_lower (vocab_get v s)))"
| "matches_line (MStartsWithAny s) line v = starts_with_any line (rs_values (vocab_get v s))"
| "matches_line (MStartsWithGlyph s) line v = starts_with_glyph line (rs_glyphs (vocab_get v s))"
| "matches_line (MStartsWithGlyphWord s) line v = starts_with_glyph_word line (rs_glyphs (vocab_get v s))"
| "matches_line (MAllCharactersIn s) line v = all_characters_in line (rs_glyphs (vocab_get v s))"
| "matches_line (MAnyOf ms) line v = list_ex (\<lambda>m. matches_line m line v) ms"
| "matches_line (MAllOf ms) line v = list_all (\<lambda>m. matches_line m line v) ms"
| "matches_line (MNot m) line v = (\<not> matches_line m line v)"

definition chrome_matches :: "ustr \<Rightarrow> resolved_rules \<Rightarrow> namespace option \<Rightarrow> bool" where
  "chrome_matches line rules only =
     (let trimmed = trim line
      in if trimmed = [] then True
         else list_ex (\<lambda>(ns, m). matches_line m trimmed (vocabulary_for rules ns))
                (filter (\<lambda>(ns, _). case only of None \<Rightarrow> True | Some wanted \<Rightarrow> ns = wanted) (rd_chrome rules)))"

definition is_chrome :: "ustr \<Rightarrow> resolved_rules \<Rightarrow> bool" where
  "is_chrome line rules = chrome_matches line rules None"

definition is_provider_chrome :: "ustr \<Rightarrow> resolved_rules \<Rightarrow> bool" where
  "is_provider_chrome line rules = chrome_matches line rules (Some Provider)"

definition is_divider :: "ustr \<Rightarrow> resolved_rules \<Rightarrow> bool" where
  "is_divider line rules = all_characters_in line (rs_glyphs (vocab_get (rd_common rules) DividerGlyphs))"

lemma starts_with_iff: "starts_with s p \<longleftrightarrow> (\<exists>t. s = p @ t)"
  by (auto simp: starts_with_def) (metis append_take_drop_id)

lemma contains_iff: "contains h n \<longleftrightarrow> (\<exists>xs ys. h = xs @ n @ ys)"
proof (induction h)
  case (Cons c h)
  have "(\<exists>xs ys. c # h = xs @ n @ ys) \<longleftrightarrow> (\<exists>ys. c # h = n @ ys) \<or> (\<exists>xs ys. h = xs @ n @ ys)"
    by (metis append_Cons append_Nil list.exhaust list.inject)
  with Cons show ?case
    by (simp add: starts_with_iff)
qed simp

lemma window_match_iff:
  "length w = length n \<Longrightarrow>
   list_all (\<lambda>(left, right). f left = right) (zip w n) \<longleftrightarrow> map f w = n"
  by (induction w n rule: list_induct2) auto

lemma windows_of_ex:
  "list_ex (\<lambda>w. P w) (windows_of n xs) \<longleftrightarrow> (\<exists>us w vs. xs = us @ w @ vs \<and> length w = n \<and> P w)"
proof
  assume "list_ex P (windows_of n xs)"
  then obtain i where "n \<le> length xs" "i < length xs - n + 1" "P (take n (drop i xs))"
    by (auto simp: windows_of_def list_ex_iff simp del: upt_Suc split: if_splits)
  moreover have "xs = take i xs @ take n (drop i xs) @ drop n (drop i xs)"
    by (simp only: append_take_drop_id)
  moreover from calculation have "length (take n (drop i xs)) = n"
    by simp
  ultimately show "\<exists>us w vs. xs = us @ w @ vs \<and> length w = n \<and> P w"
    by metis
next
  assume "\<exists>us w vs. xs = us @ w @ vs \<and> length w = n \<and> P w"
  then obtain us w vs where "xs = us @ w @ vs" "length w = n" "P w"
    by blast
  then show "list_ex P (windows_of n xs)"
    by (auto simp: windows_of_def list_ex_iff simp del: upt_Suc intro!: bexI [of _ "length us"])
qed

lemma map_infix_iff:
  "(\<exists>us w vs. xs = us @ w @ vs \<and> length w = length n \<and> map f w = n) \<longleftrightarrow>
   (\<exists>us vs. map f xs = us @ n @ vs)"
proof
  assume "\<exists>us vs. map f xs = us @ n @ vs"
  then obtain us vs where "map f xs = us @ n @ vs"
    by blast
  then obtain us' w vs' where "xs = us' @ w @ vs'" "map f w = n"
    by (auto simp: map_eq_append_conv append_eq_map_conv)
  then show "\<exists>us w vs. xs = us @ w @ vs \<and> length w = length n \<and> map f w = n"
    by (intro exI conjI) auto
next
  assume "\<exists>us w vs. xs = us @ w @ vs \<and> length w = length n \<and> map f w = n"
  then show "\<exists>us vs. map f xs = us @ n @ vs"
    by (metis map_append)
qed

section \<open>Properties\<close>

text \<open>The case-insensitive search, written on byte windows, finds a needle exactly where the
  characters of the needle occur in the lower-cased line: a match never starts inside a multi-byte
  character, and non-ASCII characters are compared as they are.\<close>

theorem contains_ascii_case_insensitive_eq:
  "contains_ascii_case_insensitive h n = contains (str_to_ascii_lowercase h) n"
proof (cases "n = []")
  case True
  then show ?thesis
    by (auto simp: contains_ascii_case_insensitive_def contains_iff)
next
  case False
  let ?l = "map to_ascii_lowercase"
  have "contains_ascii_case_insensitive h n \<longleftrightarrow>
      list_ex (\<lambda>w. list_all (\<lambda>(left, right). to_ascii_lowercase left = right) (zip w (as_bytes n)))
        (windows_of (length (as_bytes n)) (as_bytes h))"
    using False by (simp add: contains_ascii_case_insensitive_def Let_def windows_of_def)
  also have "\<dots> \<longleftrightarrow>
      (\<exists>us w vs. as_bytes h = us @ w @ vs \<and> length w = length (as_bytes n) \<and> ?l w = as_bytes n)"
    by (simp add: windows_of_ex window_match_iff cong: conj_cong)
  also have "\<dots> \<longleftrightarrow> (\<exists>us vs. ?l (as_bytes h) = us @ as_bytes n @ vs)"
    by (rule map_infix_iff)
  also have "\<dots> \<longleftrightarrow> (\<exists>us vs. as_bytes (str_to_ascii_lowercase h) = us @ as_bytes n @ vs)"
    by (simp add: as_bytes_lowercase)
  also have "\<dots> \<longleftrightarrow> contains (str_to_ascii_lowercase h) n"
    using as_bytes_sync [OF _ False, of "str_to_ascii_lowercase h"]
    by (auto simp: contains_iff) (metis as_bytes_simps(3))
  finally show ?thesis .
qed

lemma split_pred_pieces: "w \<in> set (split_pred p s) \<Longrightarrow> list_all (\<lambda>c. \<not> p c) w"
proof (induction s arbitrary: w)
  case (Cons c s)
  then show ?case
    by (auto split: if_splits list.splits)
qed simp

lemma split_whitespace_words:
  "w \<in> set (split_whitespace s) \<Longrightarrow> w \<noteq> [] \<and> list_all (\<lambda>c. \<not> is_whitespace c) w"
  by (auto simp: split_whitespace_def dest: split_pred_pieces)

lemma split_whitespace_eq_Nil_iff: "split_whitespace s = [] \<longleftrightarrow> list_all is_whitespace s"
proof (induction s)
  case (Cons c s)
  then show ?case
    by (cases "split_pred is_whitespace s") (auto simp: split_whitespace_def)
qed (simp add: split_whitespace_def)

lemma join_eq_Nil_iff: "\<forall>w \<in> set ws. w \<noteq> [] \<Longrightarrow> join sep ws = [] \<longleftrightarrow> ws = []"
  by (induction sep ws rule: join.induct) auto

lemma hd_join: "ws \<noteq> [] \<Longrightarrow> hd ws \<noteq> [] \<Longrightarrow> hd (join sep ws) = hd (hd ws)"
  by (induction sep ws rule: join.induct) auto

definition one_line :: "ustr \<Rightarrow> bool" where
  "one_line s \<longleftrightarrow>
     s \<noteq> [] \<and> length s \<le> 240 \<and> \<not> is_whitespace (hd s) \<and>
     list_all (\<lambda>c. c = 32 \<or> \<not> is_whitespace c) s"

lemma bound_waiting_prompt_one_line:
  "(bound_waiting_prompt v = None \<longleftrightarrow> list_all is_whitespace v) \<and>
   (case bound_waiting_prompt v of None \<Rightarrow> True | Some s \<Rightarrow> one_line s)"
proof -
  let ?c = "join [32] (split_whitespace v)"
  have words: "\<forall>w \<in> set (split_whitespace v). w \<noteq> []"
    using split_whitespace_words by blast
  have empty: "?c = [] \<longleftrightarrow> list_all is_whitespace v"
    by (simp add: join_eq_Nil_iff [OF words] split_whitespace_eq_Nil_iff)
  have chars: "list_all (\<lambda>c. c = 32 \<or> \<not> is_whitespace c) ?c"
    using set_join [of _ "[32]" "split_whitespace v"] split_whitespace_words [of _ v]
    by (fastforce simp: list_all_iff)
  have first: "\<not> is_whitespace (hd ?c)" if "?c \<noteq> []"
  proof -
    from that have ws: "split_whitespace v \<noteq> []"
      by (auto simp: join_eq_Nil_iff [OF words])
    from split_whitespace_words [OF hd_in_set [OF this]] hd_join [OF ws, of "[32]"] show ?thesis
      by (auto simp: list_all_iff)
  qed
  have cut: "list_all (\<lambda>c. c = 32 \<or> \<not> is_whitespace c) (take n ?c)" for n
    using chars by (auto simp: list_all_iff dest: in_set_takeD)
  have "hd (take 239 ?c @ [8230]) = hd ?c" if "?c \<noteq> []"
    using that by (cases ?c) simp_all
  with empty chars first cut show ?thesis
    by (auto simp: one_line_def bound_waiting_prompt_def Let_def WAITING_PROMPT_MAX_CHARS_def
        is_whitespace_def)
qed

end
