(* ===== verification/Detection.thy ===== *)
theory Detection
  imports Resolve
begin

text \<open>
  The process-wide detection state of \<^verbatim>\<open>detection/mod.rs\<close>: the active rule set, its generation counter,
  and loading an override. The two shared cells are updated one at a time by the code, so besides the
  sequential operations there is a step relation that interleaves the half-operations of concurrent
  publishers and of a session reading the rules.
\<close>

section \<open>State and operations\<close>

record detection =
  active :: compiled_rules
  GENERATION :: nat

definition detection_init :: "compiled_rules \<Rightarrow> detection" where
  "detection_init bundled = \<lparr>active = bundled, GENERATION = 1\<rparr>"

definition generation :: "detection \<Rightarrow> nat" where
  "generation d = GENERATION d"

definition current_rules :: "detection \<Rightarrow> compiled_rules \<times> nat" where
  "current_rules d = (let g = generation d in (active d, g))"

text \<open>\<^verbatim>\<open>AtomicU64::fetch_add\<close> wraps.\<close>

definition bump_generation :: "detection \<Rightarrow> detection" where
  "bump_generation d = d\<lparr>GENERATION := (GENERATION d + 1) mod 2 ^ 64\<rparr>"

definition publish :: "compiled_rules \<Rightarrow> detection \<Rightarrow> detection" where
  "publish rules d = bump_generation (d\<lparr>active := rules\<rparr>)"

definition install :: "compiled_rules \<Rightarrow> detection \<Rightarrow> detection" where
  "install rules d = publish rules d"

datatype 'j parse_failure = NotARuleFile 'j | NotCompiled rule_error

text \<open>\<open>json\<close> is \<^verbatim>\<open>serde_json::from_str\<close> at the rule file's type.\<close>

definition parse_rules :: "(ustr \<Rightarrow> 'j + rule_file) \<Rightarrow> ustr \<Rightarrow> 'j parse_failure + compiled_rules" where
  "parse_rules json contents =
     (case json contents of
        Inl e \<Rightarrow> Inl (NotARuleFile e)
      | Inr f \<Rightarrow> (case compile f of Inl e \<Rightarrow> Inl (NotCompiled e) | Inr c \<Rightarrow> Inr c))"

datatype ('i, 'j) refusal = CouldNotBeRead 'i | CouldNotBeParsed "'j parse_failure"

datatype ('i, 'j) load_outcome = BundledOnly | Merged | Refused "('i, 'j) refusal"

text \<open>What the file system answers for the override path: absent, unreadable, or its contents.\<close>

datatype 'i override_file = Absent | Unreadable 'i | Contents ustr

definition load ::
  "(ustr \<Rightarrow> 'j + rule_file) \<Rightarrow> compiled_rules \<Rightarrow> 'i override_file \<Rightarrow> detection \<Rightarrow>
   ('i, 'j) load_outcome \<times> detection" where
  "load json bundled file d =
     (case file of
        Absent \<Rightarrow> (BundledOnly, publish bundled d)
      | Unreadable e \<Rightarrow> (Refused (CouldNotBeRead e), d)
      | Contents contents \<Rightarrow>
          (case parse_rules json contents of
             Inr overlay \<Rightarrow> (Merged, publish (merge_over bundled overlay) d)
           | Inl e \<Rightarrow> (Refused (CouldNotBeParsed e), d)))"

record watch_state =
  exists :: bool
  modified :: "nat option"
  len :: nat

text \<open>\<open>metadata\<close> is what \<^verbatim>\<open>std::fs::metadata\<close> answers: nothing, or a modification time (which a
  platform may not report) and a length.\<close>

definition watch_state_of :: "(nat option \<times> nat) option \<Rightarrow> watch_state" where
  "watch_state_of metadata =
     (case metadata of
        Some (m, l) \<Rightarrow> \<lparr>exists = True, modified = m, len = l\<rparr>
      | None \<Rightarrow> \<lparr>exists = False, modified = None, len = 0\<rparr>)"

text \<open>One turn of the watcher's loop: reload only when the file's state moved.\<close>

definition watch_tick ::
  "(ustr \<Rightarrow> 'j + rule_file) \<Rightarrow> compiled_rules \<Rightarrow> (nat option \<times> nat) option \<Rightarrow> 'i override_file \<Rightarrow>
   watch_state \<times> detection \<Rightarrow> watch_state \<times> detection" where
  "watch_tick json bundled metadata file st =
     (let next_state = watch_state_of metadata
      in if next_state = fst st then st
         else (next_state, snd (load json bundled file (snd st))))"

section \<open>Concurrent publishers and a reader\<close>

text \<open>
  \<^verbatim>\<open>publish\<close> writes the rules and then bumps the counter; \<^verbatim>\<open>current_rules\<close> loads the counter and then
  reads the rules. \<open>pending\<close> counts publishers between their two halves, \<open>loaded\<close> is the counter value
  of a reader between its halves, and \<open>cached\<close> is the pair the reader keeps. \<open>bumps\<close> counts completed
  publications.
\<close>

record shared =
  cells :: detection
  pending :: nat
  loaded :: "nat option"
  cached :: "(compiled_rules \<times> nat) option"
  bumps :: nat

definition write_half :: "compiled_rules \<Rightarrow> shared \<Rightarrow> shared" where
  "write_half rules s = s\<lparr>cells := (cells s)\<lparr>active := rules\<rparr>, pending := pending s + 1\<rparr>"

definition bump_half :: "shared \<Rightarrow> shared" where
  "bump_half s =
     s\<lparr>cells := bump_generation (cells s), pending := pending s - 1, bumps := bumps s + 1\<rparr>"

definition load_half :: "shared \<Rightarrow> shared" where
  "load_half s = s\<lparr>loaded := Some (generation (cells s))\<rparr>"

definition read_half :: "nat \<Rightarrow> shared \<Rightarrow> shared" where
  "read_half g s = s\<lparr>loaded := None, cached := Some (active (cells s), g)\<rparr>"

inductive step :: "shared \<Rightarrow> shared \<Rightarrow> bool" where
  write_rules: "step s (write_half rules s)"
| bump: "0 < pending s \<Longrightarrow> step s (bump_half s)"
| load_generation: "step s (load_half s)"
| read_rules: "loaded s = Some g \<Longrightarrow> step s (read_half g s)"

definition shared_init :: "compiled_rules \<Rightarrow> shared" where
  "shared_init bundled =
     \<lparr>cells = detection_init bundled, pending = 0, loaded = None, cached = None, bumps = 0\<rparr>"

inductive reachable :: "compiled_rules \<Rightarrow> shared \<Rightarrow> bool" for bundled where
  start: "reachable bundled (shared_init bundled)"
| advance: "reachable bundled s \<Longrightarrow> step s t \<Longrightarrow> reachable bundled t"

text \<open>The halves compose to the operations when nothing comes between.\<close>

lemma publish_halves: "cells (bump_half (write_half rules s)) = publish rules (cells s)"
  by (simp add: bump_half_def write_half_def publish_def)

lemma current_rules_halves:
  "cached (read_half (the (loaded (load_half s))) (load_half s)) = Some (current_rules (cells s))"
  by (simp add: load_half_def read_half_def current_rules_def)

definition shared_inv :: "shared \<Rightarrow> bool" where
  "shared_inv s \<longleftrightarrow>
     (bumps s + 1 < 2 ^ 64 \<longrightarrow>
        GENERATION (cells s) = bumps s + 1 \<and>
        (case loaded s of None \<Rightarrow> True | Some g \<Rightarrow> g \<le> GENERATION (cells s)) \<and>
        (case cached s of
           None \<Rightarrow> True
         | Some (r, g) \<Rightarrow>
             g \<le> GENERATION (cells s) \<and>
             (g = GENERATION (cells s) \<longrightarrow> pending s = 0 \<longrightarrow> r = active (cells s))))"

lemma shared_inv_init: "shared_inv (shared_init bundled)"
  by (simp add: shared_inv_def shared_init_def detection_init_def)

lemma shared_inv_step: "step s t \<Longrightarrow> shared_inv s \<Longrightarrow> shared_inv t"
proof (induction rule: step.induct)
  case (bump s)
  show ?case
  proof (cases "bumps s + 2 < 2 ^ 64")
    case True
    with bump show ?thesis
      by (auto simp: shared_inv_def bump_half_def bump_generation_def split: option.splits)
  qed (simp add: shared_inv_def bump_half_def)
qed (auto simp: shared_inv_def write_half_def load_half_def read_half_def generation_def
    split: option.splits)

lemma shared_inv_reachable: "reachable bundled s \<Longrightarrow> shared_inv s"
  by (induction rule: reachable.induct) (auto intro: shared_inv_init shared_inv_step)

section \<open>Properties\<close>

text \<open>C11: However publishers and a reader interleave, a reader whose cached generation equals the counter
  while no publication is half done holds exactly the active rules; so testing the counter is enough to
  never keep a stale rule set. (Up to the counter's wrap at \<^verbatim>\<open>2^64\<close> publications.)\<close>

theorem cached_rules_fresh:
  assumes "reachable bundled s" and "bumps s + 1 < 2 ^ 64"
    and "cached s = Some (r, g)" and "g = generation (cells s)" and "pending s = 0"
  shows "r = active (cells s)"
  using shared_inv_reachable [OF assms(1)] assms(2-)
  by (auto simp: shared_inv_def generation_def)

lemma reachable_example:
  "reachable b (read_half 2 (load_half (bump_half (write_half r (shared_init b)))))"
proof -
  have "reachable b (write_half r (shared_init b))"
    by (intro reachable.advance [OF reachable.start] step.write_rules)
  moreover have "0 < pending (write_half r (shared_init b))"
    by (simp add: write_half_def)
  ultimately have "reachable b (load_half (bump_half (write_half r (shared_init b))))"
    by (blast intro: reachable.advance step.intros)
  then show ?thesis
    by (rule reachable.advance)
       (simp add: step.read_rules load_half_def bump_half_def write_half_def shared_init_def
         detection_init_def bump_generation_def generation_def)
qed

theorem cached_rules_fresh_witness:
  "let s = read_half 2 (load_half (bump_half (write_half (one_rule 5 Idle) (shared_init (one_rule 3 Busy)))))
   in cached s = Some (one_rule 5 Idle, 2) \<and> one_rule 5 Idle = active (cells s)"
proof -
  let ?s = "read_half 2 (load_half (bump_half (write_half (one_rule 5 Idle) (shared_init (one_rule 3 Busy)))))"
  have eval: "cached ?s = Some (one_rule 5 Idle, 2)" "generation (cells ?s) = 2" "pending ?s = 0" "bumps ?s = 1"
    by (simp_all add: read_half_def load_half_def bump_half_def write_half_def shared_init_def
        detection_init_def bump_generation_def generation_def)
  have "one_rule 5 Idle = active (cells ?s)"
    by (rule cached_rules_fresh [OF reachable_example]) (simp_all add: eval)
  with eval show ?thesis
    by simp
qed

text \<open>A refused override costs nothing: the rules in force and their generation stay as they are. An
  accepted one is published under a new generation as the bundled set merged with it, so reloading the
  same file again yields the same rules.\<close>

theorem load_keeps_or_merges:
  "case load json bundled file d of
     (Refused _, d') \<Rightarrow> d' = d
   | (BundledOnly, d') \<Rightarrow> file = Absent \<and> active d' = bundled \<and> generation d' = (generation d + 1) mod 2 ^ 64
   | (Merged, d') \<Rightarrow>
       (\<exists>contents overlay. file = Contents contents \<and> parse_rules json contents = Inr overlay \<and>
          compiled_wf overlay \<and> active d' = merge_over bundled overlay \<and>
          generation d' = (generation d + 1) mod 2 ^ 64 \<and>
          active (snd (load json bundled file d')) = active d')"
  by (auto simp: load_def publish_def bump_generation_def generation_def parse_rules_def
      split: override_file.splits sum.splits dest: compiled_wf_compile)

end
