(* ===== verification/Classify.thy ===== *)
theory Classify
  imports Matching Detection
begin

text \<open>
  Applying resolved rules to a session's rendered evidence (\<^verbatim>\<open>classify.rs\<close>): the structural predicates,
  the composer, the waiting-prompt readers, and the per-session \<^verbatim>\<open>Classifier\<close>. A classifier method
  that may re-resolve takes the detection state and returns the classifier it leaves behind.
\<close>

section \<open>Composer and structural predicates\<close>

abbreviation pglyphs :: "resolved_rules \<Rightarrow> vocabulary_set \<Rightarrow> uchar list" where
  "pglyphs rules s \<equiv> rs_glyphs (vocab_get (rd_vocabulary rules) s)"

abbreviation cglyphs :: "resolved_rules \<Rightarrow> vocabulary_set \<Rightarrow> uchar list" where
  "cglyphs rules s \<equiv> rs_glyphs (vocab_get (rd_common rules) s)"

definition line_is_selected_menu_option :: "ustr \<Rightarrow> resolved_rules \<Rightarrow> bool" where
  "line_is_selected_menu_option line rules =
     (case prompt_remainder line (cglyphs rules MenuCaretGlyphs) of
        None \<Rightarrow> False | Some r \<Rightarrow> starts_numbered_option r)"

definition composer_index :: "ustr list \<Rightarrow> resolved_rules \<Rightarrow> nat option" where
  "composer_index lines rules =
     (let prompts = pglyphs rules ComposerPrompts
      in if prompts = [] then None
         else rposition (\<lambda>line. starts_with_glyph line prompts \<and> \<not> line_is_selected_menu_option line rules)
                lines)"

definition composer_text :: "ustr \<Rightarrow> resolved_rules \<Rightarrow> ustr" where
  "composer_text line rules =
     (case prompt_remainder line (pglyphs rules ComposerPrompts) of Some r \<Rightarrow> r | None \<Rightarrow> [])"

definition composer_box_tail :: "ustr list \<Rightarrow> resolved_rules \<Rightarrow> ustr list" where
  "composer_box_tail below rules =
     (let borders = pglyphs rules DividerGlyphs
      in if borders = [] then below
         else (case position (\<lambda>line. all_characters_in line borders) below of
                 None \<Rightarrow> below | Some border \<Rightarrow> take border below))"

definition animated_in_flight_footer :: "ustr \<Rightarrow> resolved_vocabulary \<Rightarrow> bool" where
  "animated_in_flight_footer trimmed v =
     ((starts_with_glyph_word trimmed (rs_glyphs (vocab_get v SpinnerGlyphs)) \<or>
       starts_with_glyph_word trimmed (rs_glyphs (vocab_get v WorkingFooterGlyphs))) \<and>
      contains_any trimmed (rs_values_lower (vocab_get v InFlightMarkers)) \<and>
      \<not> contains_any trimmed (rs_values_lower (vocab_get v DoneFooterMarkers)))"

definition active_subagent :: "ustr list \<Rightarrow> resolved_rules \<Rightarrow> bool" where
  "active_subagent lines rules =
     (let parents = rs_values (vocab_get (rd_vocabulary rules) SubagentParentPrefixes);
          tasks = rs_values (vocab_get (rd_vocabulary rules) SubagentTaskPrefixes)
      in if parents = [] \<or> tasks = [] then False
         else
           (case rposition (\<lambda>line. starts_with_any line parents) lines of
              None \<Rightarrow> False
            | Some parent_index \<Rightarrow>
                (let after_parent = drop (parent_index + 1) lines
                 in list_ex (\<lambda>line. starts_with_any line tasks) after_parent \<and>
                    \<not> list_ex (\<lambda>line. starts_with_glyph line (pglyphs rules ComposerPrompts)) after_parent)))"

definition parked_composer :: "ustr list \<Rightarrow> resolved_rules \<Rightarrow> bool" where
  "parked_composer lines rules =
     (case composer_index lines rules of
        None \<Rightarrow> False
      | Some index \<Rightarrow>
          (let region_top =
             (case rposition (\<lambda>line. is_divider line rules) (take index lines) of
                Some i \<Rightarrow> i | None \<Rightarrow> index)
           in if region_top = 0 then False
              else
                (let below = drop (index + 1) lines;
                     above_status_bar =
                       (case position (\<lambda>line. is_divider line rules) below of
                          None \<Rightarrow> below | Some border \<Rightarrow> take border below)
                 in list_all (\<lambda>line. is_chrome line rules) above_status_bar)))"

definition composer_status_line :: "ustr \<Rightarrow> resolved_vocabulary \<Rightarrow> bool" where
  "composer_status_line line v =
     (let borders = rs_glyphs (vocab_get v BoxBorderGlyphs);
          separators = rs_values (vocab_get v ComposerStatusSeparators)
      in if borders = [] \<or> separators = [] then False
         else (case prompt_remainder line borders of
                 None \<Rightarrow> False
               | Some r \<Rightarrow> list_ex (\<lambda>separator. contains r separator) separators))"

definition worktree_path_index :: "ustr list \<Rightarrow> resolved_rules \<Rightarrow> nat option" where
  "worktree_path_index lines rules =
     (let markers = rs_values (vocab_get (rd_common rules) WorktreePathMarkers)
      in if markers = [] then None
         else rposition (\<lambda>line. list_ex (\<lambda>marker. contains line marker) markers) lines)"

definition copilot_busy_above_path :: "ustr list \<Rightarrow> resolved_rules \<Rightarrow> bool" where
  "copilot_busy_above_path lines rules =
     (case worktree_path_index lines rules of
        None \<Rightarrow> False
      | Some path_index \<Rightarrow>
          0 < path_index \<and>
          contains_any (lines ! (path_index - 1))
            (rs_values_lower (vocab_get (rd_vocabulary rules) BusyMarkers)))"

definition copilot_idle_below_path :: "ustr list \<Rightarrow> resolved_rules \<Rightarrow> bool" where
  "copilot_idle_below_path lines rules =
     (case worktree_path_index lines rules of
        None \<Rightarrow> False
      | Some path_index \<Rightarrow>
          (case find_map (\<lambda>line. prompt_remainder line (pglyphs rules IdlePromptGlyphs))
                  (drop (path_index + 1) lines) of
             None \<Rightarrow> False | Some r \<Rightarrow> r = []))"

definition structural :: "ustr \<Rightarrow> ustr list \<Rightarrow> resolved_rules \<Rightarrow> bool" where
  "structural name lines rules =
     (if name = lit ''claude-working-footer''
      then list_ex (\<lambda>line. animated_in_flight_footer (trim line) (rd_vocabulary rules)) lines
      else if name = lit ''claude-active-subagent'' then active_subagent lines rules
      else if name = lit ''claude-parked-composer'' then parked_composer lines rules
      else if name = lit ''claude-selected-menu-option''
      then list_ex (\<lambda>line. line_is_selected_menu_option line rules) lines
      else if name = lit ''opencode-composer-status''
      then list_ex (\<lambda>line. composer_status_line line (rd_vocabulary rules)) lines
      else if name = lit ''copilot-busy-above-path'' then copilot_busy_above_path lines rules
      else if name = lit ''copilot-idle-composer-below-path'' then copilot_idle_below_path lines rules
      else False)"

section \<open>Waiting prompts\<close>

definition line_is_permission_option :: "ustr \<Rightarrow> resolved_rules \<Rightarrow> bool" where
  "line_is_permission_option line rules =
     starts_numbered_option
       (trim_start (case prompt_remainder line (cglyphs rules ComposerPrompts) of
                      Some r \<Rightarrow> r | None \<Rightarrow> line))"

fun question_loop :: "resolved_rules \<Rightarrow> ustr list \<Rightarrow> ustr list \<Rightarrow> ustr list" where
  "question_loop rules question [] = question"
| "question_loop rules question (line # ls) =
     (let trimmed = trim line
      in if trimmed = [] then (if question = [] then question_loop rules question ls else question)
         else if question \<noteq> [] \<and> line_is_permission_option trimmed rules then question
         else
           (let question' = question @ [trimmed]
            in if ends_with trimmed [63] \<or> length question' = WAITING_PROMPT_MAX_LINES then question'
               else question_loop rules question' ls))"

definition waiting_question_from_lines :: "ustr list \<Rightarrow> resolved_rules \<Rightarrow> ustr option" where
  "waiting_question_from_lines lines rules =
     (let markers = rs_values_lower (vocab_get (rd_common rules) WaitingMarkers)
      in if markers = [] then None
         else
           (case (case rposition (\<lambda>line. contains_any line markers) lines of
                    Some i \<Rightarrow> Some i
                  | None \<Rightarrow> rposition (\<lambda>(a, b). contains_any (a @ [32] @ b) markers) (windows2 lines)) of
              None \<Rightarrow> None
            | Some start \<Rightarrow> bound_waiting_prompt (join [32] (question_loop rules [] (drop start lines)))))"

text \<open>
  The loop the three upward readers share: take rows from the bottom, skip separators until the block
  starts, stop at the first separator after it or at a row that ends it, and keep at most three.
\<close>

fun collect_block ::
  "(ustr \<Rightarrow> ustr) \<Rightarrow> (ustr \<Rightarrow> bool) \<Rightarrow> (ustr \<Rightarrow> bool) \<Rightarrow> ustr list \<Rightarrow> ustr list \<Rightarrow> ustr list" where
  "collect_block clean skip stop acc [] = acc"
| "collect_block clean skip stop acc (line # ls) =
     (let trimmed = clean line
      in if skip trimmed then (if acc = [] then collect_block clean skip stop acc ls else acc)
         else if stop trimmed then acc
         else
           (let acc' = acc @ [trimmed]
            in if length acc' = WAITING_PROMPT_MAX_LINES then acc' else collect_block clean skip stop acc' ls))"

definition waiting_question_above_menu :: "ustr list \<Rightarrow> resolved_rules \<Rightarrow> ustr option" where
  "waiting_question_above_menu lines rules =
     (case position (\<lambda>line. line_is_selected_menu_option line rules) lines of
        None \<Rightarrow> None
      | Some menu_index \<Rightarrow>
          bound_waiting_prompt (join [32] (rev
            (collect_block trim (\<lambda>t. t = [] \<or> is_divider t rules) (\<lambda>t. line_is_permission_option t rules)
               [] (rev (take menu_index lines))))))"

fun block_start :: "uchar list \<Rightarrow> ustr list \<Rightarrow> nat \<Rightarrow> nat" where
  "block_start borders lines 0 = 0"
| "block_start borders lines (Suc n) =
     (if starts_with_glyph (lines ! n) borders then block_start borders lines n else Suc n)"

fun boxed_loop :: "uchar list \<Rightarrow> ustr list \<Rightarrow> ustr list \<Rightarrow> ustr list" where
  "boxed_loop borders question [] = question"
| "boxed_loop borders question (line # ls) =
     (case prompt_remainder line borders of
        None \<Rightarrow> boxed_loop borders question ls
      | Some body \<Rightarrow>
          if body = [] then boxed_loop borders question ls
          else
            (let question' = question @ [body]
             in if length question' = WAITING_PROMPT_MAX_LINES then question'
                else boxed_loop borders question' ls))"

definition boxed_permission_question :: "ustr list \<Rightarrow> resolved_rules \<Rightarrow> ustr option" where
  "boxed_permission_question lines rules =
     (let borders = pglyphs rules BoxBorderGlyphs;
          actions = rs_values_lower (vocab_get (rd_vocabulary rules) PermissionActionMarkers)
      in if borders = [] \<or> actions = [] then None
         else
           (case rposition (\<lambda>line. list_all (contains_ascii_case_insensitive line) actions) lines of
              None \<Rightarrow> None
            | Some action_index \<Rightarrow>
                (let start = block_start borders lines action_index
                 in bound_waiting_prompt
                      (join [32] (boxed_loop borders [] (drop start (take action_index lines)))))))"

definition boxed_transcript_tail :: "ustr list \<Rightarrow> resolved_rules \<Rightarrow> ustr option" where
  "boxed_transcript_tail lines rules =
     (let borders = pglyphs rules BoxBorderGlyphs
      in if borders = [] then None
         else
           (case position (\<lambda>line. starts_with_glyph line borders) lines of
              None \<Rightarrow> None
            | Some composer \<Rightarrow>
                (let block_art = pglyphs rules BlockArtGlyphs
                 in bound_waiting_prompt (join [32] (rev
                      (collect_block
                         (\<lambda>line. trim_end (trim_end_matches (List.member block_art) (trim line)))
                         (\<lambda>t. t = [] \<or> is_provider_chrome t rules) (\<lambda>_. False)
                         [] (rev (take composer lines))))))))"

definition waiting_prompt_from_lines :: "ustr list \<Rightarrow> ustr list \<Rightarrow> resolved_rules \<Rightarrow> ustr option" where
  "waiting_prompt_from_lines classification_lines frame_lines rules =
     (let (classification_transcript, frame_transcript) =
            (case composer_index frame_lines rules of
               Some index \<Rightarrow>
                 ((case composer_index classification_lines rules of
                     None \<Rightarrow> []
                   | Some classification_composer \<Rightarrow> take classification_composer classification_lines),
                  take index frame_lines)
             | None \<Rightarrow> (classification_lines, frame_lines))
      in case waiting_question_from_lines classification_transcript rules of
           Some question \<Rightarrow> Some question
         | None \<Rightarrow>
        (case waiting_question_above_menu classification_transcript rules of
           Some question \<Rightarrow> Some question
         | None \<Rightarrow>
        (case boxed_permission_question classification_transcript rules of
           Some question \<Rightarrow> Some question
         | None \<Rightarrow>
        (case boxed_transcript_tail classification_transcript rules of
           Some tail \<Rightarrow> Some tail
         | None \<Rightarrow>
             bound_waiting_prompt (join [32] (rev (map trim
               (collect_block (\<lambda>l. l) (\<lambda>l. is_chrome l rules) (\<lambda>_. False) [] (rev frame_transcript)))))))))"

section \<open>Classification\<close>

record evidence =
  ev_lines :: "ustr list"
  ev_title :: ustr
  ev_progress :: "progress_state option"

record verdict =
  vd_status :: session_status
  vd_rule_id :: ustr
  vd_channel :: channel

definition rule_matches :: "resolved_rules \<Rightarrow> evidence \<Rightarrow> resolved_rule \<Rightarrow> bool" where
  "rule_matches rules ev r =
     (let v = vocabulary_for rules (rr_namespace r)
      in case rr_predicate r of
           AnyLine m \<Rightarrow> list_ex (\<lambda>line. matches_line m line v) (ev_lines ev)
         | AnyLineWrapped m \<Rightarrow>
             list_ex (\<lambda>line. matches_line m line v) (ev_lines ev) \<or>
             list_ex (\<lambda>(a, b). matches_line m (a @ [32] @ b) v) (windows2 (ev_lines ev))
         | LastNonEmptyLine m \<Rightarrow> matches_line m (last_non_empty_line (ev_lines ev)) v
         | TextMatches m \<Rightarrow> ev_title ev \<noteq> [] \<and> matches_line m (ev_title ev) v
         | ProgressStateIn states \<Rightarrow>
             (case ev_progress ev of None \<Rightarrow> False | Some p \<Rightarrow> List.member states p)
         | Structural name \<Rightarrow> structural name (ev_lines ev) rules)"

fun first_verdict :: "resolved_rules \<Rightarrow> evidence \<Rightarrow> resolved_rule list \<Rightarrow> verdict option" where
  "first_verdict rules ev [] = None"
| "first_verdict rules ev (r # rs) =
     (if rule_matches rules ev r
      then Some \<lparr>vd_status = rr_status r, vd_rule_id = rr_id r, vd_channel = rr_channel r\<rparr>
      else first_verdict rules ev rs)"

section \<open>The classifier\<close>

record classifier =
  cl_provider :: "agent_provider option"
  cl_version :: "cli_version option"
  cl_resolved :: "resolved_rules option"
  cl_generation :: nat

definition classifier_none :: classifier where
  "classifier_none = \<lparr>cl_provider = None, cl_version = None, cl_resolved = None, cl_generation = 0\<rparr>"

definition classifier_resolve :: "(uchar \<Rightarrow> ustr) \<Rightarrow> detection \<Rightarrow> classifier \<Rightarrow> classifier" where
  "classifier_resolve lc d c =
     (case cl_provider c of
        None \<Rightarrow> c\<lparr>cl_resolved := None, cl_generation := generation d\<rparr>
      | Some p \<Rightarrow>
          (let (rules, g) = current_rules d
           in c\<lparr>cl_resolved := Some (resolve lc rules p (cl_version c)), cl_generation := g\<rparr>))"

definition classifier_new :: "(uchar \<Rightarrow> ustr) \<Rightarrow> detection \<Rightarrow> agent_provider option \<Rightarrow> classifier" where
  "classifier_new lc d p = classifier_resolve lc d (classifier_none\<lparr>cl_provider := p\<rparr>)"

definition with_version ::
  "(uchar \<Rightarrow> ustr) \<Rightarrow> detection \<Rightarrow> agent_provider option \<Rightarrow> cli_version option \<Rightarrow> classifier" where
  "with_version lc d p version =
     classifier_resolve lc d (classifier_none\<lparr>cl_provider := p, cl_version := version\<rparr>)"

text \<open>\<^verbatim>\<open>Option<CliVersion>\<close> compares with the version's own equality.\<close>

definition version_option_eq :: "cli_version option \<Rightarrow> cli_version option \<Rightarrow> bool" where
  "version_option_eq a b =
     (case (a, b) of (None, None) \<Rightarrow> True | (Some x, Some y) \<Rightarrow> version_eq x y | _ \<Rightarrow> False)"

definition set_version ::
  "(uchar \<Rightarrow> ustr) \<Rightarrow> detection \<Rightarrow> cli_version option \<Rightarrow> classifier \<Rightarrow> bool \<times> classifier" where
  "set_version lc d version c =
     (if version_option_eq (cl_version c) version then (False, c)
      else (True, classifier_resolve lc d (c\<lparr>cl_version := version\<rparr>)))"

definition refresh :: "(uchar \<Rightarrow> ustr) \<Rightarrow> detection \<Rightarrow> classifier \<Rightarrow> classifier" where
  "refresh lc d c =
     (if cl_provider c \<noteq> None \<and> cl_generation c \<noteq> generation d then classifier_resolve lc d c else c)"

definition rules_of :: "(uchar \<Rightarrow> ustr) \<Rightarrow> detection \<Rightarrow> classifier \<Rightarrow> resolved_rules option \<times> classifier" where
  "rules_of lc d c = (let c' = refresh lc d c in (cl_resolved c', c'))"

definition status_rows :: "(uchar \<Rightarrow> ustr) \<Rightarrow> detection \<Rightarrow> classifier \<Rightarrow> nat \<times> classifier" where
  "status_rows lc d c =
     (case rules_of lc d c of
        (Some rules, c') \<Rightarrow> (rd_status_rows rules, c') | (None, c') \<Rightarrow> (DEFAULT_STATUS_ROWS, c'))"

definition waiting_prompt_rows :: "(uchar \<Rightarrow> ustr) \<Rightarrow> detection \<Rightarrow> classifier \<Rightarrow> nat \<times> classifier" where
  "waiting_prompt_rows lc d c =
     (case rules_of lc d c of
        (Some rules, c') \<Rightarrow> (rd_waiting_prompt_rows rules, c') | (None, c') \<Rightarrow> (DEFAULT_STATUS_ROWS, c'))"

definition probe_args :: "(uchar \<Rightarrow> ustr) \<Rightarrow> detection \<Rightarrow> classifier \<Rightarrow> ustr list \<times> classifier" where
  "probe_args lc d c =
     (case rules_of lc d c of (Some rules, c') \<Rightarrow> (rd_probe_args rules, c') | (None, c') \<Rightarrow> ([], c'))"

definition classify ::
  "(uchar \<Rightarrow> ustr) \<Rightarrow> detection \<Rightarrow> classifier \<Rightarrow> evidence \<Rightarrow> verdict option \<times> classifier" where
  "classify lc d c ev =
     (case rules_of lc d c of
        (None, c') \<Rightarrow> (None, c')
      | (Some rules, c') \<Rightarrow> (first_verdict rules ev (rd_rules rules), c'))"

definition unclassified_footer ::
  "(uchar \<Rightarrow> ustr) \<Rightarrow> detection \<Rightarrow> classifier \<Rightarrow> ustr list \<Rightarrow> ustr option \<times> classifier" where
  "unclassified_footer lc d c lines =
     (case rules_of lc d c of
        (None, c') \<Rightarrow> (None, c')
      | (Some rules, c') \<Rightarrow>
          (let v = rd_vocabulary rules
           in if set_is_empty (vocab_get v SpinnerGlyphs) then (None, c')
              else
                (find (\<lambda>line. starts_with_glyph_word line (rs_glyphs (vocab_get v SpinnerGlyphs)) \<and>
                         \<not> animated_in_flight_footer line v \<and>
                         \<not> contains_any line (rs_values_lower (vocab_get v DoneFooterMarkers)))
                   (map trim lines), c')))"

definition frame_is_busy_or_waiting ::
  "(uchar \<Rightarrow> ustr) \<Rightarrow> detection \<Rightarrow> classifier \<Rightarrow> ustr list \<Rightarrow> bool \<times> classifier" where
  "frame_is_busy_or_waiting lc d c lines =
     (case classify lc d c \<lparr>ev_lines = lines, ev_title = [], ev_progress = None\<rparr> of
        (None, c') \<Rightarrow> (False, c')
      | (Some v, c') \<Rightarrow>
          (vd_channel v = Grid \<and> (vd_status v = Busy \<or> vd_status v = Waiting), c'))"

definition composer_reading ::
  "(uchar \<Rightarrow> ustr) \<Rightarrow> detection \<Rightarrow> classifier \<Rightarrow> ustr list \<Rightarrow> (nat \<times> ustr) option \<times> classifier" where
  "composer_reading lc d c lines =
     (case frame_is_busy_or_waiting lc d c lines of
        (True, c1) \<Rightarrow> (None, c1)
      | (False, c1) \<Rightarrow>
          (case rules_of lc d c1 of
             (None, c2) \<Rightarrow> (None, c2)
           | (Some rules, c2) \<Rightarrow>
               (case composer_index lines rules of
                  None \<Rightarrow> (None, c2)
                | Some i \<Rightarrow>
                    if list_ex (\<lambda>line. \<not> is_chrome line rules) (composer_box_tail (drop (i + 1) lines) rules)
                    then (None, c2)
                    else (Some (i, composer_text (lines ! i) rules), c2))))"

definition composer_prompts_of :: "(uchar \<Rightarrow> ustr) \<Rightarrow> detection \<Rightarrow> classifier \<Rightarrow> uchar list \<times> classifier" where
  "composer_prompts_of lc d c =
     (case rules_of lc d c of (None, c') \<Rightarrow> ([], c') | (Some rules, c') \<Rightarrow> (pglyphs rules ComposerPrompts, c'))"

definition composer_line ::
  "(uchar \<Rightarrow> ustr) \<Rightarrow> detection \<Rightarrow> classifier \<Rightarrow> ustr list \<Rightarrow> ustr list \<Rightarrow> ustr option \<times> classifier" where
  "composer_line lc d c frame_lines status_lines =
     (case frame_is_busy_or_waiting lc d c status_lines of
        (True, c1) \<Rightarrow> (None, c1)
      | (False, c1) \<Rightarrow>
          (case rules_of lc d c1 of
             (None, c2) \<Rightarrow> (None, c2)
           | (Some rules, c2) \<Rightarrow>
               (case composer_index frame_lines rules of
                  None \<Rightarrow> (None, c2)
                | Some i \<Rightarrow> (Some (composer_text (frame_lines ! i) rules), c2))))"

definition waiting_prompt ::
  "(uchar \<Rightarrow> ustr) \<Rightarrow> detection \<Rightarrow> classifier \<Rightarrow> ustr list \<Rightarrow> ustr list \<Rightarrow> ustr option \<times> classifier" where
  "waiting_prompt lc d c classification_lines frame_lines =
     (case rules_of lc d c of
        (None, c') \<Rightarrow> (None, c')
      | (Some rules, c') \<Rightarrow> (waiting_prompt_from_lines classification_lines frame_lines rules, c'))"

definition classifier_is_chrome ::
  "(uchar \<Rightarrow> ustr) \<Rightarrow> detection \<Rightarrow> classifier \<Rightarrow> ustr \<Rightarrow> bool \<times> classifier" where
  "classifier_is_chrome lc d c line =
     (case rules_of lc d c of (None, c') \<Rightarrow> (False, c') | (Some rules, c') \<Rightarrow> (is_chrome line rules, c'))"

datatype composer_state = Empty | SuggestionOnly | Unknown

definition proves_nothing_typed :: "composer_state \<Rightarrow> bool" where
  "proves_nothing_typed s \<longleftrightarrow> s = Empty \<or> s = SuggestionOnly"

section \<open>Rule order and channels\<close>

lemma first_verdict_Some:
  "first_verdict rules ev rs = Some v \<Longrightarrow>
   \<exists>pre r post. rs = pre @ r # post \<and> rule_matches rules ev r \<and> (\<forall>q \<in> set pre. \<not> rule_matches rules ev q) \<and>
     v = \<lparr>vd_status = rr_status r, vd_rule_id = rr_id r, vd_channel = rr_channel r\<rparr>"
proof (induction rs)
  case (Cons r rs)
  show ?case
  proof (cases "rule_matches rules ev r")
    case True
    with Cons.prems show ?thesis
      by (intro exI [of _ "[]"] exI [of _ r] exI [of _ rs]) simp
  next
    case False
    with Cons obtain pre q post where "rs = pre @ q # post" "rule_matches rules ev q"
      "\<forall>x \<in> set pre. \<not> rule_matches rules ev x"
      "v = \<lparr>vd_status = rr_status q, vd_rule_id = rr_id q, vd_channel = rr_channel q\<rparr>"
      by auto
    with False show ?thesis
      by (intro exI [of _ "r # pre"] exI [of _ q] exI [of _ post]) simp
  qed
qed simp

lemma first_verdict_None_iff:
  "first_verdict rules ev rs = None \<longleftrightarrow> (\<forall>r \<in> set rs. \<not> rule_matches rules ev r)"
  by (induction rs) auto

lemma Grid_least: "(a :: channel) \<le> b \<Longrightarrow> b = Grid \<Longrightarrow> a = Grid"
  by (cases a) (simp_all add: less_eq_channel_def)

text \<open>Rules that compiled, and rules merged from such, read the channel their predicate needs.\<close>

definition rules_wf :: "compiled_rules \<Rightarrow> bool" where
  "rules_wf c \<longleftrightarrow>
     list_all rule_wf (common_rules c) \<and>
     (\<forall>p cp. providers c p = Some cp \<longrightarrow> list_all rule_wf (cp_rules cp))"

lemma compiled_rules_wf: "compiled_wf c \<Longrightarrow> rules_wf c"
  by (auto simp: compiled_wf_def rules_wf_def provider_wf_def)

lemma rule_wf_order [simp]: "rule_wf (r\<lparr>cr_order := n\<rparr>) = rule_wf r"
  by (simp add: rule_wf_def)

lemma update_first_all:
  "update_first p f xs = Some ys \<Longrightarrow> list_all P xs \<Longrightarrow> (\<And>x. P (f x)) \<Longrightarrow> list_all P ys"
  by (induction xs arbitrary: ys) (auto split: if_splits)

lemma merge_rules_wf: "list_all rule_wf base \<Longrightarrow> list_all rule_wf overlay \<Longrightarrow> list_all rule_wf (merge_rules base overlay)"
  unfolding merge_rules_def
proof (induction overlay arbitrary: base)
  case (Cons r rs)
  show ?case
    by (simp, rule Cons.IH) (use Cons.prems in \<open>auto split: option.splits dest!: update_first_all [where P = rule_wf]\<close>)
qed simp

lemma merge_over_wf: "rules_wf base \<Longrightarrow> rules_wf overlay \<Longrightarrow> rules_wf (merge_over base overlay)"
  by (auto simp: rules_wf_def merge_over_def merge_provider_def merge_rules_wf split: option.splits)

lemma load_rules_wf:
  "rules_wf bundled \<Longrightarrow> rules_wf (active d) \<Longrightarrow> rules_wf (active (snd (load json bundled file d)))"
  by (auto simp: load_def publish_def bump_generation_def parse_rules_def merge_over_wf
      compiled_wf_compile compiled_rules_wf split: override_file.splits sum.splits)

lemma resolve_rules_wf:
  assumes "rules_wf c" and "r \<in> set (rd_rules (resolve lc c p version))"
  shows "rr_channel r = required_channel (rr_predicate r)"
proof -
  obtain q where "r = resolved_rule_of q" and "q \<in> set (selected_rules c p version)"
    using assms(2) by (auto simp: resolve_def Let_def)
  with assms(1) show ?thesis
    by (auto simp: rules_wf_def rule_wf_def selected_rules_set resolved_rule_of_def list_all_iff
        split: option.splits) metis
qed

definition classifier_inv :: "(uchar \<Rightarrow> ustr) \<Rightarrow> classifier \<Rightarrow> bool" where
  "classifier_inv lc c \<longleftrightarrow>
     (case cl_provider c of
        None \<Rightarrow> cl_resolved c = None
      | Some p \<Rightarrow>
          (\<exists>rules. rules_wf rules \<and> cl_resolved c = Some (resolve lc rules p (cl_version c))))"

lemma classifier_resolve_inv: "rules_wf (active d) \<Longrightarrow> classifier_inv lc (classifier_resolve lc d c)"
  by (auto simp: classifier_inv_def classifier_resolve_def Let_def current_rules_def split: option.splits)

lemma refresh_inv: "rules_wf (active d) \<Longrightarrow> classifier_inv lc c \<Longrightarrow> classifier_inv lc (refresh lc d c)"
  by (simp add: refresh_def classifier_resolve_inv)

lemma classifier_ops_inv:
  assumes "rules_wf (active d)"
  shows "classifier_inv lc (classifier_new lc d p)"
    and "classifier_inv lc (with_version lc d p version)"
    and "classifier_inv lc c \<Longrightarrow> classifier_inv lc (snd (set_version lc d version c))"
    and "classifier_inv lc c \<Longrightarrow> classifier_inv lc (snd (rules_of lc d c))"
  using assms
  by (simp_all add: classifier_new_def with_version_def set_version_def rules_of_def Let_def
      classifier_resolve_inv refresh_inv)

lemma rules_of_resolved:
  assumes "rules_wf (active d)" and "classifier_inv lc c" and "rules_of lc d c = (Some rules, c')"
  obtains cr p where "rules_wf cr" "rules = resolve lc cr p (cl_version c')"
  using classifier_ops_inv(4) [OF assms(1,2)] assms(3)
  by (auto simp: rules_of_def Let_def classifier_inv_def split: option.splits)

lemma rules_of_again:
  "rules_of lc d c = (r, c') \<Longrightarrow> rules_of lc d c' = (r, c')"
  by (auto simp: rules_of_def Let_def refresh_def classifier_resolve_def current_rules_def
      split: option.splits)

lemma classify_snd: "snd (classify lc d c ev) = snd (rules_of lc d c)"
  by (simp add: classify_def split: option.split prod.split)

lemma unset_channels_silent:
  "ev_title ev = [] \<Longrightarrow> ev_progress ev = None \<Longrightarrow> rule_matches rules ev r \<Longrightarrow>
   required_channel (rr_predicate r) = Grid"
  by (auto simp: rule_matches_def required_channel_def Let_def split: compiled_predicate.splits)

section \<open>Waiting prompts\<close>

abbreviation snippets :: "ustr option set" where
  "snippets \<equiv> range bound_waiting_prompt"

lemma None_snippet [simp]: "None \<in> snippets"
  by (rule range_eqI [of _ _ "[]"]) (simp add: bound_waiting_prompt_def split_whitespace_def)

lemma or_else_snippet:
  "x \<in> snippets \<Longrightarrow> y \<in> snippets \<Longrightarrow> (case x of Some q \<Rightarrow> Some q | None \<Rightarrow> y) \<in> snippets"
  by (cases x) simp_all

lemma reader_snippets [simp]:
  "waiting_question_from_lines t rules \<in> snippets"
  "waiting_question_above_menu t rules \<in> snippets"
  "boxed_permission_question t rules \<in> snippets"
  "boxed_transcript_tail t rules \<in> snippets"
  by (simp_all add: waiting_question_from_lines_def waiting_question_above_menu_def
      boxed_permission_question_def boxed_transcript_tail_def Let_def split: option.split)

lemma waiting_prompt_snippet: "waiting_prompt_from_lines cl fl rules \<in> snippets"
  unfolding waiting_prompt_from_lines_def Let_def prod.case_eq_if
  by (intro or_else_snippet reader_snippets rangeI)

lemma snippet_one_line: "Some s \<in> snippets \<Longrightarrow> one_line s"
  using bound_waiting_prompt_one_line by (metis (no_types, lifting) imageE option.simps(5))

lemma composer_index_append:
  assumes "composer_index ls rules = Some i"
    and "list_all (\<lambda>l. \<not> starts_with_glyph l (pglyphs rules ComposerPrompts)) below"
  shows "composer_index (ls @ below) rules = Some i"
proof -
  let ?p = "\<lambda>line. starts_with_glyph line (pglyphs rules ComposerPrompts) \<and>
    \<not> line_is_selected_menu_option line rules"
  have "rposition ?p below = None"
    using assms(2) by (auto simp: list_all_iff)
  with assms(1) show ?thesis
    by (auto simp: composer_index_def Let_def rposition_append simp del: rposition_None_iff
        split: if_splits)
qed

lemma composer_index_less: "composer_index ls rules = Some i \<Longrightarrow> i < length ls"
  by (auto simp: composer_index_def Let_def split: if_splits dest: rposition_SomeD)

lemma composer_readingE:
  assumes "composer_reading lc d c lines = (Some (i, t), c')"
  obtains rules where "rules_of lc d c = (Some rules, c')" and "composer_index lines rules = Some i"
    and "t = composer_text (lines ! i) rules"
    and "list_all (\<lambda>l. is_chrome l rules) (composer_box_tail (drop (i + 1) lines) rules)"
    and "\<not> fst (frame_is_busy_or_waiting lc d c lines)"
proof -
  obtain c1 where c1: "frame_is_busy_or_waiting lc d c lines = (False, c1)"
    using assms by (auto simp: composer_reading_def split: prod.splits bool.splits)
  then have "c1 = snd (rules_of lc d c)"
    using classify_snd [of lc d c "\<lparr>ev_lines = lines, ev_title = [], ev_progress = None\<rparr>"]
    by (auto simp: frame_is_busy_or_waiting_def split: option.splits prod.splits)
  then have "rules_of lc d c1 = rules_of lc d c"
    by (cases "rules_of lc d c") (simp add: rules_of_again)
  with assms c1 that show thesis
    by (auto simp: composer_reading_def list_all_iff list_ex_iff split: option.splits prod.splits if_splits)
qed

text \<open>Two small sessions, the inputs of the examples below: a rule set of one grid rule, and one whose
  provider draws its composer with a greater-than sign.\<close>

definition busy_detection :: detection where
  "busy_detection = detection_init (one_rule 3 Busy)"

definition busy_classifier :: classifier where
  "busy_classifier = classifier_new (\<lambda>x. [x]) busy_detection (Some Claude)"

definition prompt_detection :: detection where
  "prompt_detection = detection_init \<lparr>common_vocabulary = [], common_chrome = [], common_rules = [],
     providers = [Claude \<mapsto> \<lparr>cp_probe_args = [],
       cp_vocabulary = [\<lparr>ve_id = lit ''p'', ve_set = ComposerPrompts,
         ve_versions = \<lparr>bounds = [], range_raw = lit ''*''\<rparr>, ve_values = [], ve_glyphs = lit ''>''\<rparr>],
       cp_chrome = [], cp_rules = [], cp_status_rows = None, cp_waiting_prompt_rows = None\<rparr>]\<rparr>"

definition prompt_classifier :: classifier where
  "prompt_classifier = classifier_new (\<lambda>x. [x]) prompt_detection (Some Claude)"

lemma busy_detection_wf: "rules_wf (active busy_detection)"
  by (simp add: busy_detection_def detection_init_def rules_wf_def one_rule_def rule_wf_def required_channel_def)

lemma busy_classifier_inv: "classifier_inv (\<lambda>x. [x]) busy_classifier"
  unfolding busy_classifier_def by (rule classifier_ops_inv(1) [OF busy_detection_wf])

section \<open>Properties\<close>

text \<open>C16: The verdict is that of the first matching rule in resolved order, and a title or progress rule
  decides only a frame no grid rule matches: what the screen proved is never overruled by a weaker
  channel.\<close>

theorem classify_grid_first:
  assumes "rules_wf (active d)" and "classifier_inv lc c" and "classify lc d c ev = (Some v, c')"
  shows "\<exists>rules pre r post. rules_of lc d c = (Some rules, c') \<and> rd_rules rules = pre @ r # post \<and>
     v = \<lparr>vd_status = rr_status r, vd_rule_id = rr_id r, vd_channel = rr_channel r\<rparr> \<and>
     rule_matches rules ev r \<and> (\<forall>q \<in> set pre. \<not> rule_matches rules ev q) \<and>
     (vd_channel v \<noteq> Grid \<longrightarrow>
        (\<forall>q \<in> set (rd_rules rules). rr_channel q = Grid \<longrightarrow> \<not> rule_matches rules ev q))"
proof -
  obtain rules where rules: "rules_of lc d c = (Some rules, c')"
    and verdict: "first_verdict rules ev (rd_rules rules) = Some v"
    using assms(3) by (auto simp: classify_def split: option.splits prod.splits)
  obtain pre r post where rs: "rd_rules rules = pre @ r # post" and r: "rule_matches rules ev r"
    "\<forall>q \<in> set pre. \<not> rule_matches rules ev q"
    and v: "v = \<lparr>vd_status = rr_status r, vd_rule_id = rr_id r, vd_channel = rr_channel r\<rparr>"
    using first_verdict_Some [OF verdict] by blast
  obtain cr p where "rules = resolve lc cr p (cl_version c')"
    by (rule rules_of_resolved [OF assms(1,2) rules])
  then have "sorted (map rr_channel (pre @ r # post))"
    using resolve_channels_sorted rs by metis
  then have "\<forall>q \<in> set post. rr_channel q = Grid \<longrightarrow> rr_channel r = Grid"
    by (auto simp: sorted_append intro: Grid_least)
  with rs r v rules show ?thesis
    by fastforce
qed

theorem classify_grid_first_witness:
  "\<exists>rules c' pre r post. rules_of (\<lambda>x. [x]) busy_detection busy_classifier = (Some rules, c') \<and> rd_rules rules = pre @ r # post \<and>
     rr_id r = lit ''r'' \<and> rr_status r = Busy"
proof -
  have "classify (\<lambda>x. [x]) busy_detection busy_classifier \<lparr>ev_lines = [lit ''an x''], ev_title = lit ''t'', ev_progress = None\<rparr> =
      (Some \<lparr>vd_status = Busy, vd_rule_id = lit ''r'', vd_channel = Grid\<rparr>, busy_classifier)"
    by code_simp
  from classify_grid_first [OF busy_detection_wf busy_classifier_inv this] show ?thesis
    by (metis verdict.ext_inject)
qed

text \<open>With no title and no progress report only the grid decides, so the composer question
  (\<^verbatim>\<open>frame_is_busy_or_waiting\<close>, which passes neither) is answered by grid rules alone, whatever the
  rule files declare.\<close>

theorem composer_question_reads_grid:
  assumes "rules_wf (active d)" and "classifier_inv lc c"
    and "classify lc d c \<lparr>ev_lines = lines, ev_title = [], ev_progress = None\<rparr> = (Some v, c')"
  shows "vd_channel v = Grid \<and>
     fst (frame_is_busy_or_waiting lc d c lines) = (vd_status v = Busy \<or> vd_status v = Waiting)"
proof -
  let ?ev = "\<lparr>ev_lines = lines, ev_title = [], ev_progress = None\<rparr>"
  obtain rules where rules: "rules_of lc d c = (Some rules, c')"
    and verdict: "first_verdict rules ?ev (rd_rules rules) = Some v"
    using assms(3) by (auto simp: classify_def split: option.splits prod.splits)
  obtain r where r: "r \<in> set (rd_rules rules)" "rule_matches rules ?ev r" and v: "vd_channel v = rr_channel r"
    using first_verdict_Some [OF verdict] by force
  obtain cr p where "rules_wf cr" "rules = resolve lc cr p (cl_version c')"
    by (rule rules_of_resolved [OF assms(1,2) rules])
  with resolve_rules_wf r(1) have "rr_channel r = required_channel (rr_predicate r)"
    by blast
  with unset_channels_silent [OF _ _ r(2)] v have "vd_channel v = Grid"
    by simp
  with assms(3) show ?thesis
    by (simp add: frame_is_busy_or_waiting_def)
qed

theorem composer_question_reads_grid_witness:
  "fst (frame_is_busy_or_waiting (\<lambda>x. [x]) busy_detection busy_classifier [lit ''an x'']) = True"
proof -
  have "classify (\<lambda>x. [x]) busy_detection busy_classifier \<lparr>ev_lines = [lit ''an x''], ev_title = [], ev_progress = None\<rparr> =
      (Some \<lparr>vd_status = Busy, vd_rule_id = lit ''r'', vd_channel = Grid\<rparr>, busy_classifier)"
    by code_simp
  from composer_question_reads_grid [OF busy_detection_wf busy_classifier_inv this] show ?thesis
    by simp
qed

text \<open>C29: A hot-reloaded rule set reaches a live session at its next question: the counter moves with
  every publication, so the cached view is dropped and the new rules are resolved for the session's
  own provider and CLI version.\<close>

theorem hot_reload_reaches_session:
  assumes "cl_provider c = Some p" and "cl_generation c = generation d" and "generation d < 2 ^ 64"
  shows "rules_of lc (install rules d) c =
     (let c' = c\<lparr>cl_resolved := Some (resolve lc rules p (cl_version c)),
                 cl_generation := generation (install rules d)\<rparr>
      in (cl_resolved c', c')) \<and>
     generation (install rules d) \<noteq> generation d"
proof -
  have "(GENERATION d + 1) mod 2 ^ 64 \<noteq> GENERATION d"
    using assms(3) by (cases "GENERATION d + 1 = 2 ^ 64") (simp_all add: generation_def)
  with assms show ?thesis
    by (simp add: rules_of_def refresh_def classifier_resolve_def current_rules_def install_def
        publish_def bump_generation_def generation_def Let_def)
qed

theorem hot_reload_reaches_session_witness:
  "map rr_status (rd_rules (the (fst (rules_of (\<lambda>x. [x]) (install (one_rule 7 Idle) busy_detection) busy_classifier)))) = [Idle]"
proof -
  have "cl_provider busy_classifier = Some Claude" "cl_generation busy_classifier = generation busy_detection" "generation busy_detection < 2 ^ 64"
    by (simp_all add: busy_classifier_def busy_detection_def classifier_new_def classifier_resolve_def classifier_none_def
        current_rules_def detection_init_def generation_def Let_def)
  from hot_reload_reaches_session [OF this, of "\<lambda>x. [x]" "one_rule 7 Idle"]
  have "fst (rules_of (\<lambda>x. [x]) (install (one_rule 7 Idle) busy_detection) busy_classifier) =
      Some (resolve (\<lambda>x. [x]) (one_rule 7 Idle) Claude (cl_version busy_classifier))"
    by (simp add: Let_def)
  then show ?thesis
    by (simp only: option.sel) code_simp
qed

text \<open>C27: A composer reading names the last row that opens with one of the provider's composer prompts
  and is no menu option, in a frame whose grid says neither busy nor waiting; below it, down to the
  provider's own box border, there is only chrome; and the text is what follows the prompt, trimmed.\<close>

theorem composer_reading_sound:
  assumes "composer_reading lc d c lines = (Some (i, t), c')"
  shows "\<exists>rules. rules_of lc d c = (Some rules, c') \<and> i < length lines \<and>
     starts_with_glyph (lines ! i) (pglyphs rules ComposerPrompts) \<and>
     \<not> line_is_selected_menu_option (lines ! i) rules \<and>
     (\<forall>j < length lines. i < j \<longrightarrow> starts_with_glyph (lines ! j) (pglyphs rules ComposerPrompts) \<longrightarrow>
        line_is_selected_menu_option (lines ! j) rules) \<and>
     list_all (\<lambda>l. is_chrome l rules) (composer_box_tail (drop (i + 1) lines) rules) \<and>
     prompt_remainder (lines ! i) (pglyphs rules ComposerPrompts) = Some t \<and>
     \<not> fst (frame_is_busy_or_waiting lc d c lines)"
proof -
  obtain rules where rules: "rules_of lc d c = (Some rules, c')"
    and index: "composer_index lines rules = Some i" and t: "t = composer_text (lines ! i) rules"
    and tail: "list_all (\<lambda>l. is_chrome l rules) (composer_box_tail (drop (i + 1) lines) rules)"
    and quiet: "\<not> fst (frame_is_busy_or_waiting lc d c lines)"
    using assms by (rule composer_readingE)
  from index have pos: "rposition (\<lambda>l. starts_with_glyph l (pglyphs rules ComposerPrompts) \<and>
      \<not> line_is_selected_menu_option l rules) lines = Some i"
    by (simp add: composer_index_def Let_def split: if_splits)
  from rposition_SomeD [OF pos]
  have "prompt_remainder (lines ! i) (pglyphs rules ComposerPrompts) = Some t"
    by (auto simp: t composer_text_def prompt_remainder_def starts_with_glyph_def split: list.splits)
  with rules rposition_SomeD [OF pos] tail quiet show ?thesis
    by auto
qed

theorem composer_reading_sound_witness:
  "\<exists>rules. rd_version rules = None \<and>
     prompt_remainder (lit ''> hi'') (pglyphs rules ComposerPrompts) = Some (lit ''hi'')"
proof -
  have eval: "composer_reading (\<lambda>x. [x]) prompt_detection prompt_classifier [lit ''done'', lit ''> hi'', []] = (Some (1, lit ''hi''), prompt_classifier) \<and>
      map_option rd_version (fst (rules_of (\<lambda>x. [x]) prompt_detection prompt_classifier)) = Some None"
    by code_simp
  from composer_reading_sound [OF conjunct1 [OF eval]] conjunct2 [OF eval] show ?thesis
    by (auto simp del: lit_simps)
qed

text \<open>A published snippet is one readable line: never empty, at most 240 characters, starting with a
  printed character, and with the space as its only white space.\<close>

theorem waiting_prompt_one_line:
  assumes "fst (waiting_prompt lc d c classification_lines frame_lines) = Some s"
  shows "s \<noteq> [] \<and> length s \<le> 240 \<and> \<not> is_whitespace (hd s) \<and>
    list_all (\<lambda>x. x = 32 \<or> \<not> is_whitespace x) s"
proof -
  from assms obtain rules where "waiting_prompt_from_lines classification_lines frame_lines rules = Some s"
    by (auto simp: waiting_prompt_def split: option.splits prod.splits)
  then have "one_line s"
    using waiting_prompt_snippet [of classification_lines frame_lines rules] by (simp add: snippet_one_line)
  then show ?thesis
    by (simp add: one_line_def)
qed

theorem waiting_prompt_one_line_witness:
  "fst (waiting_prompt (\<lambda>x. [x]) prompt_detection prompt_classifier [lit ''Proceed  with it?'', lit ''1. Yes'', lit ''>'']
     [lit ''Proceed  with it?'', lit ''1. Yes'', lit ''>'']) = Some (lit ''Proceed with it? 1. Yes'') \<and>
   list_all (\<lambda>x. x = 32 \<or> \<not> is_whitespace x) (lit ''Proceed with it? 1. Yes'')"
proof -
  have "fst (waiting_prompt (\<lambda>x. [x]) prompt_detection prompt_classifier [lit ''Proceed  with it?'', lit ''1. Yes'', lit ''>'']
     [lit ''Proceed  with it?'', lit ''1. Yes'', lit ''>'']) = Some (lit ''Proceed with it? 1. Yes'')"
    by code_simp
  with waiting_prompt_one_line [OF this] show ?thesis
    by blast
qed

text \<open>Nothing drawn below the composer reaches the snippet: rows that do not themselves open with a
  composer prompt can be added below it, in the frame and in the classification window, without
  changing what is published.\<close>

theorem waiting_prompt_ignores_below_composer:
  assumes "composer_index frame_lines rules = Some i" and "composer_index classification_lines rules = Some j"
    and "list_all (\<lambda>l. \<not> starts_with_glyph l (pglyphs rules ComposerPrompts)) below"
  shows "waiting_prompt_from_lines (classification_lines @ below) (frame_lines @ below) rules =
         waiting_prompt_from_lines classification_lines frame_lines rules"
  using assms composer_index_append [OF assms(1,3)] composer_index_append [OF assms(2,3)]
    composer_index_less [OF assms(1)] composer_index_less [OF assms(2)]
  by (simp add: waiting_prompt_from_lines_def)

theorem waiting_prompt_ignores_below_composer_witness:
  "waiting_prompt_from_lines ([lit ''done'', lit ''>''] @ [lit ''palette'']) ([lit ''done'', lit ''>''] @ [lit ''palette''])
     (the (cl_resolved prompt_classifier)) =
   waiting_prompt_from_lines [lit ''done'', lit ''>''] [lit ''done'', lit ''>''] (the (cl_resolved prompt_classifier))"
proof -
  have "composer_index [lit ''done'', lit ''>''] (the (cl_resolved prompt_classifier)) = Some 1"
    by code_simp
  moreover have "list_all (\<lambda>l. \<not> starts_with_glyph l (pglyphs (the (cl_resolved prompt_classifier)) ComposerPrompts))
      [lit ''palette'']"
    by code_simp
  ultimately show ?thesis
    by (intro waiting_prompt_ignores_below_composer)
qed

end
