(* ===== verification/Terminal_Window.thy ===== *)
theory Terminal_Window
  imports Prelude
begin

text \<open>
  Bounding a terminal snapshot for a remote viewer (\<^verbatim>\<open>kanna-server/src/terminal_window.rs\<close>): the window
  sent, the scrollback retained and served in chunks, the history carried over to a replacement
  session, and the ring of live output a reconnecting client is replayed from. Byte positions of the
  source that only cut a string between characters are positions in the list of characters here;
  sizes are UTF-8 sizes (\<^term>\<open>str_len\<close>). Byte offsets of the output stream are natural numbers: a
  64-bit counter of bytes does not wrap in the life of a process.
\<close>

section \<open>Constants and string helpers\<close>

definition TERMINAL_WINDOW_SCROLLBACK_PAGES :: nat where
  "TERMINAL_WINDOW_SCROLLBACK_PAGES = 2"

definition TERMINAL_WINDOW_MAX_BYTES :: nat where
  "TERMINAL_WINDOW_MAX_BYTES = 256 * 1024"

definition TERMINAL_HISTORY_RETENTION_BYTES :: nat where
  "TERMINAL_HISTORY_RETENTION_BYTES = 1024 * 1024"

definition TERMINAL_SCROLLBACK_CHUNK_MAX_BYTES :: nat where
  "TERMINAL_SCROLLBACK_CHUNK_MAX_BYTES = 64 * 1024"

definition TERMINAL_SCROLLBACK_CHUNK_MAX_LINES :: nat where
  "TERMINAL_SCROLLBACK_CHUNK_MAX_LINES = 500"

definition TERMINAL_RING_MAX_BYTES :: nat where
  "TERMINAL_RING_MAX_BYTES = 512 * 1024"

definition ALT_SCREEN_ENTER :: ustr where
  "ALT_SCREEN_ENTER = 27 # lit ''[?1049h''"

definition FRAGMENT_STYLE_RESET :: ustr where
  "FRAGMENT_STYLE_RESET = 27 # lit ''[0m''"

abbreviation crlf :: ustr where
  "crlf \<equiv> [13, 10]"

text \<open>\<^verbatim>\<open>str::rfind(&str)\<close> and \<^verbatim>\<open>str::split("\r\n")\<close>.\<close>

fun rfind :: "ustr \<Rightarrow> ustr \<Rightarrow> nat option" where
  "rfind [] p = (if p = [] then Some 0 else None)"
| "rfind (c # cs) p =
     (case rfind cs p of
        Some i \<Rightarrow> Some (Suc i)
      | None \<Rightarrow> if starts_with (c # cs) p then Some 0 else None)"

fun split_crlf :: "ustr \<Rightarrow> ustr list" where
  "split_crlf [] = [[]]"
| "split_crlf [c] = [[c]]"
| "split_crlf (c # d # cs) =
     (if c = 13 \<and> d = 10 then [] # split_crlf cs
      else (case split_crlf (d # cs) of [] \<Rightarrow> [[c]] | p # ps \<Rightarrow> (c # p) # ps))"

section \<open>The window\<close>

record terminal_window =
  window :: ustr
  history :: "ustr list"
  truncated :: bool

definition window_len :: "ustr list \<Rightarrow> ustr \<Rightarrow> nat" where
  "window_len pieces suffix = sum_list (map str_len pieces) + (length pieces - 1) * 2 + str_len suffix"

text \<open>The byte-ceiling loop, its counter the distance to the floor.\<close>

function trim_window :: "ustr list \<Rightarrow> nat \<Rightarrow> nat \<Rightarrow> nat \<Rightarrow> nat \<Rightarrow> nat \<times> nat" where
  "trim_window pieces limit floor window_bytes first_kept =
     (if window_bytes > limit \<and> first_kept < floor
      then trim_window pieces limit floor (window_bytes - (str_len (pieces ! first_kept) + 2)) (first_kept + 1)
      else (window_bytes, first_kept))"
  by pat_completeness auto
termination
  by (relation "measure (\<lambda>(_, _, floor, _, first_kept). floor - first_kept)") auto

declare trim_window.simps [simp del]

definition line_bytes :: "ustr list \<Rightarrow> nat" where
  "line_bytes ls = sum_list (map (\<lambda>line. str_len line + 2) ls)"

fun drop_oldest :: "nat \<Rightarrow> nat \<Rightarrow> ustr list \<Rightarrow> ustr list" where
  "drop_oldest limit bytes [] = []"
| "drop_oldest limit bytes (l # ls) =
     (if bytes > limit then drop_oldest limit (bytes - (str_len l + 2)) ls else l # ls)"

definition retain_history :: "ustr list \<Rightarrow> nat \<Rightarrow> ustr list \<times> bool" where
  "retain_history h retention_bytes =
     (let bytes = line_bytes h
      in if bytes \<le> retention_bytes then (h, False) else (drop_oldest retention_bytes bytes h, True))"

definition window_snapshot_with_limits :: "ustr \<Rightarrow> nat \<Rightarrow> nat \<Rightarrow> nat \<Rightarrow> nat \<Rightarrow> terminal_window" where
  "window_snapshot_with_limits vt rows scrollback_lines max_window_bytes retention_bytes =
     (let boundary = (case rfind vt ALT_SCREEN_ENTER of Some i \<Rightarrow> i | None \<Rightarrow> length vt);
          prefix = take boundary vt; suffix = drop boundary vt;
          pieces = split_crlf prefix;
          visible = max rows 1;
          budget = sat_add u64_max visible scrollback_lines;
          first_kept0 = length pieces - budget;
          floor = length pieces - visible;
          (window_bytes, first_kept) =
            trim_window pieces max_window_bytes floor (window_len (drop first_kept0 pieces) suffix) first_kept0;
          (hist, evicted) = retain_history (take first_kept pieces) retention_bytes
      in \<lparr>window = (if 0 < first_kept then FRAGMENT_STYLE_RESET else []) @
                   join crlf (drop first_kept pieces) @ suffix,
          history = hist,
          truncated = (0 < first_kept \<or> evicted)\<rparr>)"

definition window_snapshot :: "ustr \<Rightarrow> nat \<Rightarrow> terminal_window" where
  "window_snapshot vt rows =
     window_snapshot_with_limits vt rows
       (sat_mul u64_max (max rows 1) TERMINAL_WINDOW_SCROLLBACK_PAGES)
       TERMINAL_WINDOW_MAX_BYTES TERMINAL_HISTORY_RETENTION_BYTES"

section \<open>Carried-over history\<close>

definition CARRYOVER_MODE_RESET :: ustr where
  "CARRYOVER_MODE_RESET =
     concat (map (\<lambda>s. 27 # lit s)
       [''[0m'', ''[?6l'', ''[?1l'', ''[?7h'', ''[?45l'', ''[?66l'', ''[?69l'', ''[r'', ''[4l'', ''[?2004l'',
        ''[?1004l'', ''[?1003l'', ''[?1002l'', ''[?1000l'', ''[?1006l'', ''[?25h''])"

text \<open>The scanner of \<^verbatim>\<open>has_renderable_text\<close>: in plain text, inside a CSI sequence, inside an OSC string.\<close>

datatype text_scan = InText | InCsi | InOsc

fun renderable_scan :: "text_scan \<Rightarrow> ustr \<Rightarrow> bool" where
  "renderable_scan _ [] = False"
| "renderable_scan InText (c # cs) =
     (if c \<noteq> 27 then (if \<not> is_whitespace c \<and> \<not> is_control c then True else renderable_scan InText cs)
      else
        (case cs of
           [] \<Rightarrow> False
         | d # ds \<Rightarrow>
             if d = 91 then renderable_scan InCsi ds
             else if d = 93 then renderable_scan InOsc ds
             else renderable_scan InText ds))"
| "renderable_scan InCsi (c # cs) =
     (if 64 \<le> c \<and> c \<le> 126 then renderable_scan InText cs else renderable_scan InCsi cs)"
| "renderable_scan InOsc (c # cs) =
     (if c = 7 then renderable_scan InText cs
      else if c = 27 \<and> (case cs of d # _ \<Rightarrow> d = 92 | [] \<Rightarrow> False) then renderable_scan InText (tl cs)
      else renderable_scan InOsc cs)"

definition has_renderable_text :: "ustr \<Rightarrow> bool" where
  "has_renderable_text vt = renderable_scan InText vt"

definition carryover_history_vt :: "ustr \<Rightarrow> ustr option" where
  "carryover_history_vt vt =
     (let primary = (case rfind vt ALT_SCREEN_ENTER of Some boundary \<Rightarrow> take boundary vt | None \<Rightarrow> vt)
      in if \<not> has_renderable_text primary then None else Some (primary @ CARRYOVER_MODE_RESET))"

record terminal_snapshot =
  ts_version :: nat
  ts_rows :: nat
  ts_cols :: nat
  ts_cursor_row :: nat
  ts_cursor_col :: nat
  ts_cursor_visible :: bool
  ts_saved_at :: nat
  ts_sequence :: nat
  ts_vt :: ustr

definition carryover_seed_snapshot :: "terminal_snapshot \<Rightarrow> terminal_snapshot option" where
  "carryover_seed_snapshot snapshot =
     (case carryover_history_vt (ts_vt snapshot) of
        None \<Rightarrow> None
      | Some vt \<Rightarrow>
          (let dropped_alt_segment = contains (ts_vt snapshot) ALT_SCREEN_ENTER;
               (cursor_row, cursor_col) =
                 (if dropped_alt_segment then (ts_rows snapshot - 1, 0)
                  else (ts_cursor_row snapshot, ts_cursor_col snapshot))
           in Some \<lparr>ts_version = 1, ts_rows = ts_rows snapshot, ts_cols = ts_cols snapshot,
                    ts_cursor_row = cursor_row, ts_cursor_col = cursor_col, ts_cursor_visible = True,
                    ts_saved_at = ts_saved_at snapshot, ts_sequence = ts_sequence snapshot, ts_vt = vt\<rparr>))"

section \<open>Scrollback chunks\<close>

record history_chunk =
  start_line :: nat
  end_line :: nat
  chunk_data :: ustr
  remaining_lines :: nat

text \<open>The loop that walks up from the end; \<open>n\<close> is the current start.\<close>

fun chunk_start :: "ustr list \<Rightarrow> nat \<Rightarrow> nat \<Rightarrow> nat \<Rightarrow> nat \<Rightarrow> nat \<Rightarrow> nat" where
  "chunk_start lines line_end line_floor max_bytes bytes 0 = 0"
| "chunk_start lines line_end line_floor max_bytes bytes (Suc n) =
     (if line_floor < Suc n then
        (let candidate = str_len (lines ! n) + 2
         in if Suc n < line_end \<and> bytes + candidate > max_bytes then Suc n
            else chunk_start lines line_end line_floor max_bytes (bytes + candidate) n)
      else Suc n)"

definition chunk_with_limits :: "ustr list \<Rightarrow> nat \<Rightarrow> nat \<Rightarrow> nat \<Rightarrow> nat \<Rightarrow> history_chunk" where
  "chunk_with_limits lines before_line max_lines max_bytes max_lines_ceiling =
     (let line_end = min before_line (length lines);
          requested = max 1 (min max_lines (max max_lines_ceiling 1));
          line_floor = line_end - requested;
          start = chunk_start lines line_end line_floor max_bytes 0 line_end
      in \<lparr>start_line = start mod 2 ^ 32,
          end_line = line_end mod 2 ^ 32,
          chunk_data =
            (if start < line_end
             then FRAGMENT_STYLE_RESET @ concat (map (\<lambda>line. line @ crlf) (drop start (take line_end lines)))
             else []),
          remaining_lines = start mod 2 ^ 32\<rparr>)"

definition chunk :: "ustr list \<Rightarrow> nat \<Rightarrow> nat \<Rightarrow> history_chunk" where
  "chunk lines before_line max_lines =
     chunk_with_limits lines before_line max_lines TERMINAL_SCROLLBACK_CHUNK_MAX_BYTES
       TERMINAL_SCROLLBACK_CHUNK_MAX_LINES"

section \<open>The output ring\<close>

record output_ring =
  chunks :: "byte list list"
  ring_bytes :: nat
  capacity :: nat
  start_offset :: nat
  end_offset :: nat

definition ring_new :: "nat \<Rightarrow> output_ring" where
  "ring_new cap = \<lparr>chunks = [], ring_bytes = 0, capacity = cap, start_offset = 0, end_offset = 0\<rparr>"

definition reset_to :: "nat \<Rightarrow> output_ring \<Rightarrow> output_ring" where
  "reset_to offset r = r\<lparr>chunks := [], ring_bytes := 0, start_offset := offset, end_offset := offset\<rparr>"

fun evict :: "nat \<Rightarrow> byte list list \<Rightarrow> nat \<Rightarrow> nat \<Rightarrow> byte list list \<times> nat \<times> nat" where
  "evict cap [] bytes start = ([], bytes, start)"
| "evict cap (c # cs) bytes start =
     (if bytes > cap then evict cap cs (bytes - length c) (start + length c) else (c # cs, bytes, start))"

definition ring_push :: "byte list \<Rightarrow> output_ring \<Rightarrow> output_ring" where
  "ring_push data r =
     (if data = [] then r
      else
        (let (cs, bytes, start) =
           evict (capacity r) (chunks r @ [data]) (ring_bytes r + length data) (start_offset r)
         in r\<lparr>chunks := cs, ring_bytes := bytes, start_offset := start,
              end_offset := end_offset r + length data\<rparr>))"

fun replay_loop :: "nat \<Rightarrow> nat \<Rightarrow> byte list list \<Rightarrow> byte list list option" where
  "replay_loop offset pos [] = None"
| "replay_loop offset pos (c # cs) =
     (if pos = offset then Some (c # cs)
      else if pos + length c > offset then None
      else replay_loop offset (pos + length c) cs)"

definition replay_from :: "output_ring \<Rightarrow> nat \<Rightarrow> byte list list option" where
  "replay_from r offset =
     (if offset > end_offset r \<or> offset < start_offset r then None
      else if offset = end_offset r then Some []
      else replay_loop offset (start_offset r) (chunks r))"

section \<open>Lemmas on windows\<close>

lemma split_crlf_not_Nil [simp]: "split_crlf s \<noteq> []"
  by (induction s rule: split_crlf.induct) (auto split: list.splits)

lemma join_Cons_hd: "join sep ((c # p) # ps) = c # join sep (p # ps)"
  by (cases ps) simp_all

lemma join_split_crlf: "join crlf (split_crlf s) = s"
proof (induction s rule: split_crlf.induct)
  case (3 c d cs)
  show ?case
  proof (cases "c = 13 \<and> d = 10")
    case True
    with 3 show ?thesis
      by (simp add: join_Cons_ne)
  next
    case False
    then obtain p ps where "split_crlf (d # cs) = p # ps"
      by (cases "split_crlf (d # cs)") simp_all
    with False 3 show ?thesis
      by (auto simp: join_Cons_hd)
  qed
qed simp_all

lemma str_len_append [simp]: "str_len (s @ t) = str_len s + str_len t"
  by (simp add: str_len_def as_bytes_def)

lemma str_len_Nil [simp]: "str_len [] = 0"
  by (simp add: str_len_def as_bytes_def)

lemma str_len_Cons: "str_len (c # s) = length (utf8_char c) + str_len s"
  by (simp add: str_len_def as_bytes_def)

lemma utf8_crlf [simp]: "length (utf8_char 13) = 1" "length (utf8_char 10) = 1"
  by (simp_all add: utf8_char_def)

lemma window_len_join: "window_len ps suffix = str_len (join crlf ps @ suffix)"
proof (induction ps)
  case (Cons p ps)
  then show ?case
    by (cases ps) (simp_all add: window_len_def str_len_Cons)
qed (simp add: window_len_def)

lemma window_len_step:
  assumes "k + 1 < length ps"
  shows "window_len (drop k ps) suffix = str_len (ps ! k) + 2 + window_len (drop (k + 1) ps) suffix"
proof -
  have "drop k ps = ps ! k # drop (k + 1) ps"
    using assms by (simp add: Cons_nth_drop_Suc)
  moreover have "drop (k + 1) ps \<noteq> []"
    using assms by simp
  ultimately show ?thesis
    by (simp add: window_len_join join_Cons_ne str_len_Cons)
qed

lemma trim_window_spec:
  assumes "trim_window ps limit fl wb k = (wb', k')"
    and "wb = window_len (drop k ps) suffix" and "fl < length ps"
  shows "wb' = window_len (drop k' ps) suffix \<and> k \<le> k' \<and> k' \<le> max k fl \<and> (wb' \<le> limit \<or> fl \<le> k')"
  using assms
proof (induction ps limit fl wb k rule: trim_window.induct)
  case step: (1 ps limit fl wb k)
  show ?case
  proof (cases "wb > limit \<and> k < fl")
    case True
    then have "wb - (str_len (ps ! k) + 2) = window_len (drop (k + 1) ps) suffix"
      using step.prems window_len_step [of k ps suffix] by simp
    moreover have "trim_window ps limit fl (wb - (str_len (ps ! k) + 2)) (k + 1) = (wb', k')"
      using step.prems(1) True by (subst (asm) trim_window.simps) simp
    ultimately show ?thesis
      using step.IH [OF True] step.prems(3) True by auto
  next
    case False
    with step.prems show ?thesis
      by (subst (asm) trim_window.simps) auto
  qed
qed

lemma line_bytes_simps [simp]:
  "line_bytes [] = 0" "line_bytes (l # ls) = str_len l + 2 + line_bytes ls"
  by (simp_all add: line_bytes_def)

lemma drop_oldest_spec:
  "line_bytes (drop_oldest limit (line_bytes ls) ls) \<le> limit \<and>
   (\<exists>e. ls = e @ drop_oldest limit (line_bytes ls) ls)"
proof (induction ls)
  case (Cons l ls)
  show ?case
  proof (cases "line_bytes (l # ls) > limit")
    case True
    from Cons.IH obtain e where "ls = e @ drop_oldest limit (line_bytes ls) ls"
      by blast
    with True Cons.IH show ?thesis
      by (auto intro!: exI [of _ "l # e"])
  qed (auto intro!: exI [of _ "[]"])
qed simp

lemma retain_history_spec:
  assumes "retain_history h ret = (h', evicted)"
  shows "line_bytes h' \<le> ret" and "\<exists>e. h = e @ h'" and "evicted \<Longrightarrow> h \<noteq> []"
  using assms drop_oldest_spec [of ret h]
  by (auto simp: retain_history_def Let_def intro: exI [of _ "[]"] split: if_splits)

lemma rfind_Some: "rfind s p = Some i \<Longrightarrow> i \<le> length s \<and> starts_with (drop i s) p"
proof (induction s arbitrary: i)
  case (Cons c s)
  then show ?case
    by (auto split: option.splits if_splits)
qed (auto simp: starts_with_def split: if_splits)

lemma rfind_None: "rfind s p = None \<Longrightarrow> \<not> contains s p"
  by (induction s) (auto split: option.splits if_splits)

section \<open>Lemmas on chunks\<close>

lemma line_bytes_drop_take:
  assumes "n < e" "e \<le> length ls"
  shows "line_bytes (drop n (take e ls)) = str_len (ls ! n) + 2 + line_bytes (drop (Suc n) (take e ls))"
proof -
  have "drop n (take e ls) = ls ! n # drop (Suc n) (take e ls)"
    using assms by (metis Cons_nth_drop_Suc length_take min.absorb2 nth_take)
  then show ?thesis
    by simp
qed

lemma chunk_start_spec:
  assumes "n \<le> e" "e \<le> length ls" "fl \<le> n" "bytes = line_bytes (drop n (take e ls))"
    "bytes \<le> mb \<or> e - 1 \<le> n"
  shows "let s = chunk_start ls e fl mb bytes n in
    fl \<le> s \<and> s \<le> n \<and> (line_bytes (drop s (take e ls)) \<le> mb \<or> e - 1 \<le> s) \<and> (n = e \<and> fl < e \<longrightarrow> s < e)"
  using assms
proof (induction n arbitrary: bytes)
  case (Suc n)
  have step: "line_bytes (drop n (take e ls)) = bytes + (str_len (ls ! n) + 2)"
    using Suc.prems line_bytes_drop_take [of n e ls] by simp
  show ?case
  proof (cases "fl < Suc n \<and> \<not> (Suc n < e \<and> bytes + (str_len (ls ! n) + 2) > mb)")
    case True
    then have "chunk_start ls e fl mb bytes (Suc n) =
        chunk_start ls e fl mb (bytes + (str_len (ls ! n) + 2)) n"
      by (auto simp: Let_def)
    moreover have "let s = chunk_start ls e fl mb (bytes + (str_len (ls ! n) + 2)) n in
        fl \<le> s \<and> s \<le> n \<and> (line_bytes (drop s (take e ls)) \<le> mb \<or> e - 1 \<le> s) \<and> (n = e \<and> fl < e \<longrightarrow> s < e)"
      by (rule Suc.IH) (use Suc.prems True step in auto)
    ultimately show ?thesis
      using Suc.prems(1) by (auto simp: Let_def)
  qed (use Suc.prems in \<open>auto simp: Let_def\<close>)
qed (auto simp: Let_def)

section \<open>Lemmas on the ring\<close>

text \<open>The ring after the frames \<open>ds\<close> were recorded past the offset \<open>base\<close>: it holds the frames from the
  \<open>j\<close>-th on.\<close>

definition ring_holds :: "nat \<Rightarrow> byte list list \<Rightarrow> nat \<Rightarrow> output_ring \<Rightarrow> bool" where
  "ring_holds base ds j r \<longleftrightarrow>
     j \<le> length ds \<and> [] \<notin> set ds \<and> chunks r = drop j ds \<and>
     start_offset r = base + length (concat (take j ds)) \<and>
     end_offset r = base + length (concat ds) \<and>
     ring_bytes r = length (concat (drop j ds)) \<and> ring_bytes r \<le> capacity r"

lemma ring_holds_reset: "ring_holds offset [] 0 (reset_to offset r)"
  by (simp add: ring_holds_def reset_to_def)

lemma evict_spec:
  "\<exists>j \<le> length cs. evict cap cs (length (concat cs)) start =
     (drop j cs, length (concat (drop j cs)), start + length (concat (take j cs))) \<and>
     length (concat (drop j cs)) \<le> cap"
proof (induction cs arbitrary: start)
  case (Cons c cs)
  show ?case
  proof (cases "length (concat (c # cs)) > cap")
    case True
    obtain j where "j \<le> length cs" "evict cap cs (length (concat cs)) (start + length c) =
        (drop j cs, length (concat (drop j cs)), start + length c + length (concat (take j cs)))"
      "length (concat (drop j cs)) \<le> cap"
      using Cons.IH by blast
    with True show ?thesis
      by (intro exI [of _ "Suc j"]) simp
  qed (auto intro: exI [of _ 0])
qed simp

lemma ring_holds_push:
  assumes "ring_holds base ds j r" and "data \<noteq> []"
  shows "\<exists>k. ring_holds base (ds @ [data]) k (ring_push data r)"
proof -
  have bytes: "ring_bytes r + length data = length (concat (chunks r @ [data]))"
    and chunks: "chunks r @ [data] = drop j (ds @ [data])"
    using assms by (simp_all add: ring_holds_def)
  obtain i where i: "i \<le> length (chunks r @ [data])"
    "evict (capacity r) (chunks r @ [data]) (ring_bytes r + length data) (start_offset r) =
      (drop i (chunks r @ [data]), length (concat (drop i (chunks r @ [data]))),
       start_offset r + length (concat (take i (chunks r @ [data]))))"
    "length (concat (drop i (chunks r @ [data]))) \<le> capacity r"
    using evict_spec [of "chunks r @ [data]" "capacity r" "start_offset r"] unfolding bytes by blast
  have "concat (take (j + i) (ds @ [data])) = concat (take j ds) @ concat (take i (chunks r @ [data]))"
    using assms(1) by (simp only: take_add concat_append chunks) (simp add: ring_holds_def)
  moreover have "j + i \<le> length (ds @ [data])"
    using assms(1) i(1) by (auto simp: ring_holds_def)
  ultimately show ?thesis
    using assms i
    by (intro exI [of _ "j + i"])
       (simp add: ring_holds_def ring_push_def chunks add.commute [of i j])
qed

lemma ring_holds_pushes:
  assumes "ring_holds base ds j r" and "[] \<notin> set es"
  shows "\<exists>k. ring_holds base (ds @ es) k (fold ring_push es r)"
  using assms
proof (induction es arbitrary: ds j r)
  case (Cons e es)
  then obtain k where "ring_holds base (ds @ [e]) k (ring_push e r)"
    using ring_holds_push [of base ds j r e] by auto
  from Cons.IH [OF this] Cons.prems show ?case
    by simp
qed auto

lemma replay_loop_iff:
  "[] \<notin> set cs \<Longrightarrow>
   replay_loop offset start cs = Some xs \<longleftrightarrow>
     (\<exists>k < length cs. xs = drop k cs \<and> offset = start + length (concat (take k cs)))"
proof (induction cs arbitrary: start)
  case (Cons c cs)
  then have c: "0 < length c"
    by auto
  let ?Q = "\<lambda>k. xs = drop k (c # cs) \<and> offset = start + length (concat (take k (c # cs)))"
  have ex: "(\<exists>k < length (c # cs). ?Q k) \<longleftrightarrow> ?Q 0 \<or> (\<exists>k < length cs. ?Q (Suc k))"
    by (auto simp: less_Suc_eq_0_disj)
  have "replay_loop offset start (c # cs) = Some xs \<longleftrightarrow> ?Q 0 \<or> (\<exists>k < length cs. ?Q (Suc k))"
  proof (cases "start + length c \<le> offset")
    case True
    with c have "replay_loop offset start (c # cs) = replay_loop offset (start + length c) cs"
      by auto
    with Cons True c show ?thesis
      by (auto simp: add.assoc)
  next
    case False
    with c show ?thesis
      by auto
  qed
  with ex show ?case
    by simp
qed simp

section \<open>Properties\<close>

text \<open>C18: A snapshot is cut, never altered. The serialised terminal is the evicted lines, the retained
  history, the lines of the window and the alternate-screen segment, joined back; the window carries
  its lines and that segment verbatim behind a style reset when anything was cut; what is retained fits
  its budget; at least the visible screen is kept, at most the line budget; and the window is over the
  byte ceiling only when nothing but the visible screen is left to cut.\<close>

theorem window_snapshot_lossless:
  assumes "rows < 2 ^ 16"
    and "w = window_snapshot_with_limits vt rows scrollback_lines max_window_bytes retention_bytes"
  shows "\<exists>evicted kept suffix.
     vt = join crlf (evicted @ history w @ kept) @ suffix \<and>
     (suffix = [] \<or> starts_with suffix ALT_SCREEN_ENTER) \<and>
     window w = (if evicted @ history w = [] then [] else FRAGMENT_STYLE_RESET) @ join crlf kept @ suffix \<and>
     truncated w = (evicted @ history w \<noteq> []) \<and>
     line_bytes (history w) \<le> retention_bytes \<and>
     length kept \<le> max rows 1 + scrollback_lines \<and>
     (evicted @ history w \<noteq> [] \<longrightarrow> max rows 1 \<le> length kept) \<and>
     (str_len (join crlf kept @ suffix) \<le> max_window_bytes \<or> length kept \<le> max rows 1)"
proof -
  define boundary where "boundary = (case rfind vt ALT_SCREEN_ENTER of Some i \<Rightarrow> i | None \<Rightarrow> length vt)"
  define suffix where "suffix = drop boundary vt"
  define pieces where "pieces = split_crlf (take boundary vt)"
  define budget where "budget = sat_add u64_max (max rows 1) scrollback_lines"
  define k0 where "k0 = length pieces - budget"
  define fl where "fl = length pieces - max rows 1"
  obtain wb k where trim: "trim_window pieces max_window_bytes fl (window_len (drop k0 pieces) suffix) k0 = (wb, k)"
    by (rule prod.exhaust)
  obtain h evicted where h: "retain_history (take k pieces) retention_bytes = (h, evicted)"
    by (rule prod.exhaust)
  have w: "w = \<lparr>window = (if 0 < k then FRAGMENT_STYLE_RESET else []) @ join crlf (drop k pieces) @ suffix,
      history = h, truncated = (0 < k \<or> evicted)\<rparr>"
    unfolding assms(2) window_snapshot_with_limits_def
    by (simp add: Let_def boundary_def [symmetric] suffix_def [symmetric] pieces_def [symmetric]
        budget_def [symmetric] k0_def [symmetric] fl_def [symmetric] trim h
        del: One_nat_def)
  have ne: "0 < length pieces"
    by (simp add: pieces_def)
  have budget: "max rows 1 \<le> budget" "budget \<le> max rows 1 + scrollback_lines" "1 \<le> budget"
    using assms(1) by (auto simp: budget_def sat_add_def u64_max_def)
  have spec: "wb = window_len (drop k pieces) suffix" "k0 \<le> k" "k \<le> max k0 fl"
    "wb \<le> max_window_bytes \<or> fl \<le> k"
    using trim_window_spec [OF trim refl] ne by (auto simp: fl_def)
  have "k0 \<le> fl" "fl < length pieces"
    using ne budget by (simp_all add: k0_def fl_def)
  then have k: "k < length pieces" "k \<le> fl"
    using spec(3) by auto
  obtain e where e: "take k pieces = e @ h"
    using retain_history_spec(2) [OF h] by blast
  have cut: "e @ h = [] \<longleftrightarrow> k = 0"
    using ne by (simp add: e [symmetric])
  have "e @ h @ drop k pieces = pieces"
    using append_take_drop_id [of k pieces] by (simp add: e)
  then have "vt = join crlf (e @ h @ drop k pieces) @ suffix"
    by (simp only:) (simp add: pieces_def suffix_def join_split_crlf)
  moreover have "suffix = [] \<or> starts_with suffix ALT_SCREEN_ENTER"
    using rfind_Some [of vt ALT_SCREEN_ENTER] by (auto simp: suffix_def boundary_def split: option.splits)
  moreover have "truncated w = (e @ h \<noteq> [])"
    using retain_history_spec(3) [OF h] cut ne by (auto simp: w)
  moreover have "length (drop k pieces) \<le> max rows 1 + scrollback_lines"
    using spec(2) budget(2) unfolding k0_def length_drop by linarith
  moreover have "e @ h \<noteq> [] \<longrightarrow> max rows 1 \<le> length (drop k pieces)"
    using k cut unfolding fl_def length_drop by linarith
  moreover have "str_len (join crlf (drop k pieces) @ suffix) \<le> max_window_bytes \<or> length (drop k pieces) \<le> max rows 1"
    using spec(1,4) unfolding window_len_join fl_def length_drop by linarith
  moreover have "history w = h" "window w = (if e @ h = [] then [] else FRAGMENT_STYLE_RESET) @
      join crlf (drop k pieces) @ suffix"
    using cut by (simp_all add: w)
  ultimately show ?thesis
    using retain_history_spec(1) [OF h] by metis
qed

theorem window_snapshot_lossless_witness:
  "\<exists>evicted kept suffix.
     lit ''a'' @ crlf @ lit ''b'' @ crlf @ lit ''c'' =
       join crlf (evicted @ history (window_snapshot_with_limits
         (lit ''a'' @ crlf @ lit ''b'' @ crlf @ lit ''c'') 2 0 100 100) @ kept) @ suffix \<and> length kept \<le> max 2 1 + 0"
proof -
  have "2 < (2 :: nat) ^ 16"
    by simp
  from window_snapshot_lossless [OF this refl, of "lit ''a'' @ crlf @ lit ''b'' @ crlf @ lit ''c''" 0 100 100]
  show ?thesis
    by (elim exE conjE, intro exI conjI)
qed

text \<open>The client's walk through the history: ask from the oldest line it has, until nothing comes back.\<close>

lemma chunk_shape:
  assumes "before \<le> length lines" and "0 < before"
  obtains start where "start < before"
    "chunk lines before n =
       \<lparr>start_line = start mod 2 ^ 32, end_line = before mod 2 ^ 32,
        chunk_data = FRAGMENT_STYLE_RESET @ concat (map (\<lambda>line. line @ crlf) (drop start (take before lines))),
        remaining_lines = start mod 2 ^ 32\<rparr>"
    "before - start \<le> TERMINAL_SCROLLBACK_CHUNK_MAX_LINES"
    "line_bytes (drop start (take before lines)) \<le> TERMINAL_SCROLLBACK_CHUNK_MAX_BYTES \<or> before - start = 1"
proof -
  define req where "req = max 1 (min n (max TERMINAL_SCROLLBACK_CHUNK_MAX_LINES 1))"
  define s where "s = chunk_start lines before (before - req) TERMINAL_SCROLLBACK_CHUNK_MAX_BYTES 0 before"
  have "0 < req"
    by (simp add: req_def)
  then have spec: "before - req \<le> s" "s < before"
    "line_bytes (drop s (take before lines)) \<le> TERMINAL_SCROLLBACK_CHUNK_MAX_BYTES \<or> before - 1 \<le> s"
    using chunk_start_spec [of before before lines "before - req" 0 TERMINAL_SCROLLBACK_CHUNK_MAX_BYTES] assms
    by (simp_all add: Let_def s_def [symmetric])
  have "req \<le> TERMINAL_SCROLLBACK_CHUNK_MAX_LINES"
    by (simp add: req_def TERMINAL_SCROLLBACK_CHUNK_MAX_LINES_def)
  with spec(1) have "before - s \<le> TERMINAL_SCROLLBACK_CHUNK_MAX_LINES"
    by linarith
  moreover have "before - s = 1" if "before - 1 \<le> s"
    using that spec(2) by linarith
  moreover have "min before (length lines) = before"
    using assms(1) by simp
  ultimately show ?thesis
    using spec(2,3)
    by (intro that [of s]) (auto simp only: chunk_def chunk_with_limits_def Let_def if_True
        req_def [symmetric] s_def [symmetric])
qed

function scroll_back :: "ustr list \<Rightarrow> nat \<Rightarrow> nat \<Rightarrow> history_chunk list" where
  "scroll_back lines n before =
     (if before = 0 \<or> length lines < before then []
      else scroll_back lines n (remaining_lines (chunk lines before n)) @ [chunk lines before n])"
  by pat_completeness auto
termination
proof (relation "measure (\<lambda>(_, _, before). before)", goal_cases)
  case (2 lines n before)
  then have "before \<le> length lines" "0 < before"
    by auto
  then obtain start where "start < before" "remaining_lines (chunk lines before n) = start mod 2 ^ 32"
    by (rule chunk_shape [where n = n]) simp
  then show ?case
    by (auto intro: le_less_trans [OF mod_less_eq_dividend])
qed simp

declare scroll_back.simps [simp del]

text \<open>C17: A client that asks for scrollback chunk by chunk, each time from the oldest line it holds, gets
  every retained line exactly once and in order, and the walk ends: each answer makes progress, holds
  at most 500 lines, and is over 64 KiB only when it is a single line.\<close>

theorem scroll_back_complete:
  assumes "length lines < 2 ^ 32"
  shows "concat (map (\<lambda>c. drop (length FRAGMENT_STYLE_RESET) (chunk_data c)) (scroll_back lines n (length lines))) =
       concat (map (\<lambda>line. line @ crlf) lines) \<and>
     list_all (\<lambda>c. start_line c < end_line c \<and> end_line c - start_line c \<le> 500 \<and>
         (line_bytes (drop (start_line c) (take (end_line c) lines)) \<le> 64 * 1024 \<or>
          end_line c - start_line c = 1))
       (scroll_back lines n (length lines))"
proof -
  have "concat (map (\<lambda>c. drop (length FRAGMENT_STYLE_RESET) (chunk_data c)) (scroll_back lines n before)) =
       concat (map (\<lambda>line. line @ crlf) (take before lines)) \<and>
     list_all (\<lambda>c. start_line c < end_line c \<and> end_line c - start_line c \<le> 500 \<and>
         (line_bytes (drop (start_line c) (take (end_line c) lines)) \<le> 64 * 1024 \<or>
          end_line c - start_line c = 1))
       (scroll_back lines n before)" if "before \<le> length lines" for before
    using that
  proof (induction before rule: less_induct)
    case (less before)
    show ?case
    proof (cases "before = 0")
      case True
      then show ?thesis by (simp add: scroll_back.simps)
    next
      case False
      with less.prems obtain start where start: "start < before"
        "chunk lines before n =
           \<lparr>start_line = start mod 2 ^ 32, end_line = before mod 2 ^ 32,
            chunk_data = FRAGMENT_STYLE_RESET @ concat (map (\<lambda>line. line @ crlf) (drop start (take before lines))),
            remaining_lines = start mod 2 ^ 32\<rparr>"
        "before - start \<le> TERMINAL_SCROLLBACK_CHUNK_MAX_LINES"
        "line_bytes (drop start (take before lines)) \<le> TERMINAL_SCROLLBACK_CHUNK_MAX_BYTES \<or> before - start = 1"
        by (metis chunk_shape neq0_conv)
      have small: "start mod 2 ^ 32 = start" "before mod 2 ^ 32 = before"
        using start(1) less.prems assms by simp_all
      have rec: "scroll_back lines n before = scroll_back lines n start @ [chunk lines before n]"
        using False less.prems start(2) small by (simp add: scroll_back.simps [of lines n before])
      have "take before lines = take start lines @ drop start (take before lines)"
        using start(1) by (metis append_take_drop_id less_imp_le_nat min.absorb1 take_take)
      then have cat: "concat (map (\<lambda>line. line @ crlf) (take before lines)) =
          concat (map (\<lambda>line. line @ crlf) (take start lines)) @
          concat (map (\<lambda>line. line @ crlf) (drop start (take before lines)))"
        by (metis concat_append map_append)
      from less.IH [OF start(1)] less.prems start small show ?thesis
        unfolding rec cat
        by (simp add: TERMINAL_SCROLLBACK_CHUNK_MAX_LINES_def TERMINAL_SCROLLBACK_CHUNK_MAX_BYTES_def)
    qed
  qed
  from this [of "length lines"] show ?thesis
    by simp
qed

theorem scroll_back_complete_witness:
  "concat (map (\<lambda>c. drop (length FRAGMENT_STYLE_RESET) (chunk_data c))
     (scroll_back [lit ''x'', lit ''y'', lit ''z''] 2 (length [lit ''x'', lit ''y'', lit ''z'']))) =
   concat (map (\<lambda>line. line @ crlf) [lit ''x'', lit ''y'', lit ''z''])"
  by (rule scroll_back_complete [THEN conjunct1]) simp

lemma ring_push_capacity [simp]: "capacity (ring_push d r) = capacity r"
  by (simp add: ring_push_def split: prod.split)

lemma ring_pushes_capacity [simp]: "capacity (fold ring_push ds r) = capacity r"
  by (induction ds arbitrary: r) simp_all

lemma replay_from_iff:
  assumes "ring_holds base ds j r"
  shows "replay_from r offset = Some cs \<longleftrightarrow>
     (\<exists>k. j \<le> k \<and> k \<le> length ds \<and> cs = drop k ds \<and> offset = base + length (concat (take k ds)))"
proof -
  note ring = assms [unfolded ring_holds_def]
  have tk: "length (concat (take (j + i) ds)) = length (concat (take j ds)) + length (concat (take i (drop j ds)))" for i
    by (simp add: take_add)
  have full: "k = length ds" if "k \<le> length ds" "length (concat (take k ds)) = length (concat ds)" for k
  proof (rule ccontr)
    assume "k \<noteq> length ds"
    with that have "hd (drop k ds) \<in> set (drop k ds)" by simp
    moreover have "[] \<notin> set (drop k ds)"
      using ring by (auto dest: in_set_dropD)
    ultimately have "concat (drop k ds) \<noteq> []"
      by (simp, metis)
    with that(2) show False
      by (metis append_take_drop_id concat_append length_append add_cancel_left_right length_0_conv)
  qed
  have le: "length (concat (take k ds)) \<le> length (concat ds)" for k
    by (metis append_take_drop_id concat_append le_add1 length_append)
  have "[] \<notin> set (chunks r)"
    using ring by (auto dest: in_set_dropD)
  note loop_iff = replay_loop_iff [OF this, of offset "start_offset r" cs]
  have loop: "replay_loop offset (start_offset r) (chunks r) = Some cs \<longleftrightarrow>
      (\<exists>i < length ds - j. cs = drop (j + i) ds \<and> offset = base + length (concat (take (j + i) ds)))"
    unfolding loop_iff using ring by (simp add: tk add.assoc add.commute [of _ j])
  show ?thesis
  proof (cases "offset = end_offset r")
    case True
    with ring have "start_offset r \<le> offset"
      using le [of j] by simp
    with True have "replay_from r offset = Some cs \<longleftrightarrow> cs = []"
      by (auto simp: replay_from_def)
    moreover have "k = length ds" if "k \<le> length ds" "offset = base + length (concat (take k ds))" for k
      using full [OF that(1)] that(2) True ring by simp
    ultimately show ?thesis
      using True ring by (metis drop_all drop_eq_Nil order_refl take_all)
  next
    case False
    have LR: "(\<exists>k. j \<le> k \<and> k \<le> length ds \<and> cs = drop k ds \<and> offset = base + length (concat (take k ds))) \<longleftrightarrow>
        (\<exists>i < length ds - j. cs = drop (j + i) ds \<and> offset = base + length (concat (take (j + i) ds)))"
      (is "?L \<longleftrightarrow> ?R")
    proof
      assume ?L
      then obtain k where k: "j \<le> k" "k \<le> length ds" "cs = drop k ds" "offset = base + length (concat (take k ds))"
        by blast
      with False ring have "k < length ds"
        by (cases "k = length ds") auto
      with k show ?R
        by (intro exI [of _ "k - j"]) auto
    next
      assume ?R
      then obtain i where "i < length ds - j" "cs = drop (j + i) ds" "offset = base + length (concat (take (j + i) ds))"
        by blast
      then show ?L
        by (intro exI [of _ "j + i"]) auto
    qed
    have range: "start_offset r \<le> offset \<and> offset \<le> end_offset r" if ?R
    proof -
      from that obtain i where "offset = base + length (concat (take (j + i) ds))"
        by blast
      with le [of "j + i"] ring show ?thesis
        by (auto simp: tk)
    qed
    have rf: "replay_from r offset = Some cs \<longleftrightarrow>
        (start_offset r \<le> offset \<and> offset \<le> end_offset r) \<and>
        replay_loop offset (start_offset r) (chunks r) = Some cs"
      using False by (auto simp: replay_from_def)
    show ?thesis
      unfolding rf loop LR using range by blast
  qed
qed

lemma ring_push_filter: "fold ring_push ds r = fold ring_push (filter (\<lambda>d. d \<noteq> []) ds) r"
  by (induction ds arbitrary: r) (simp_all add: ring_push_def)

lemma concat_filter_ne: "concat (filter (\<lambda>d. d \<noteq> []) ds) = concat ds"
  by (induction ds) simp_all

text \<open>C10: Whatever frames were recorded after a snapshot, a resume position is either refused or answered
  with exactly the bytes the client missed, cut at frame boundaries; every frame boundary the ring still
  covers is answered; and the ring never holds more than its capacity.\<close>

theorem replay_exact:
  assumes "frames = filter (\<lambda>d. d \<noteq> []) ds" and "r = fold ring_push ds (reset_to base r0)"
  shows "\<exists>j \<le> length frames. ring_bytes r \<le> capacity r0 \<and>
     (\<forall>offset cs. replay_from r offset = Some cs \<longrightarrow> concat cs = drop (offset - base) (concat ds)) \<and>
     (\<forall>k. j \<le> k \<longrightarrow> k \<le> length frames \<longrightarrow>
        replay_from r (base + length (concat (take k frames))) = Some (drop k frames))"
proof -
  have "[] \<notin> set frames"
    by (simp add: assms(1))
  then obtain j where holds: "ring_holds base frames j r"
    using ring_holds_pushes [OF ring_holds_reset, of frames base r0]
    by (auto simp: assms ring_push_filter [of ds])
  have drop: "concat (drop k frames) = drop (length (concat (take k frames))) (concat ds)" for k
    by (metis append_eq_conv_conj append_take_drop_id assms(1) concat_append concat_filter_ne)
  show ?thesis
    using holds replay_from_iff [OF holds]
    by (intro exI [of _ j]) (auto simp: ring_holds_def drop assms(2) reset_to_def)
qed

theorem replay_exact_witness:
  "replay_from (fold ring_push [[1, 2], [], [3]] (reset_to 10 (ring_new 8))) 12 = Some [[3]] \<and>
   concat [[3 :: byte]] = drop (12 - 10) (concat [[1, 2], [], [3]])"
proof -
  have eval: "replay_from (fold ring_push [[1, 2], [], [3]] (reset_to 10 (ring_new 8))) 12 = Some [[3]]"
    by code_simp
  then show ?thesis
    using replay_exact [OF refl refl, of "[[1, 2], [], [3]]" 10 "ring_new 8"] by blast
qed

lemma contains_of_starts: "starts_with (drop i s) p \<Longrightarrow> i \<le> length s \<Longrightarrow> contains s p"
proof (induction s arbitrary: i)
  case (Cons c s)
  then show ?case
    by (cases i) auto
qed (auto simp: starts_with_def)

text \<open>What a replacement session is seeded with is the outgoing session's primary screen and nothing
  of the alternate-screen segment behind it, closed by the mode reset; there is a seed only when that
  screen renders some text; and the cursor goes to the bottom row exactly when a segment was dropped,
  so new output never overwrites carried history.\<close>

theorem carryover_seed_primary:
  assumes "carryover_seed_snapshot s = Some t"
  shows "\<exists>primary segment. ts_vt s = primary @ segment \<and>
     (segment = [] \<or> starts_with segment ALT_SCREEN_ENTER) \<and>
     has_renderable_text primary \<and> ts_vt t = primary @ CARRYOVER_MODE_RESET \<and>
     (ts_cursor_row t, ts_cursor_col t) =
       (if segment = [] then (ts_cursor_row s, ts_cursor_col s) else (ts_rows s - 1, 0)) \<and>
     ts_rows t = ts_rows s \<and> ts_cols t = ts_cols s \<and> ts_sequence t = ts_sequence s"
proof (cases "rfind (ts_vt s) ALT_SCREEN_ENTER")
  case None
  with assms rfind_None [OF None] show ?thesis
    by (intro exI [of _ "ts_vt s"] exI [of _ "[]"])
       (auto simp: carryover_seed_snapshot_def carryover_history_vt_def Let_def split: if_splits)
next
  case (Some i)
  note i = rfind_Some [OF Some]
  then have "drop i (ts_vt s) \<noteq> []"
    by (auto simp: starts_with_def ALT_SCREEN_ENTER_def)
  with assms Some i contains_of_starts [of i "ts_vt s" ALT_SCREEN_ENTER] show ?thesis
    by (intro exI [of _ "take i (ts_vt s)"] exI [of _ "drop i (ts_vt s)"])
       (auto simp: carryover_seed_snapshot_def carryover_history_vt_def Let_def split: if_splits)
qed

theorem carryover_seed_primary_witness:
  "\<exists>primary segment. lit ''hello'' @ ALT_SCREEN_ENTER = primary @ segment \<and> has_renderable_text primary"
proof -
  let ?s = "\<lparr>ts_version = 1, ts_rows = 24, ts_cols = 80, ts_cursor_row = 3, ts_cursor_col = 5,
    ts_cursor_visible = False, ts_saved_at = 0, ts_sequence = 9, ts_vt = lit ''hello'' @ ALT_SCREEN_ENTER\<rparr>"
  have "carryover_seed_snapshot ?s =
      Some \<lparr>ts_version = 1, ts_rows = 24, ts_cols = 80, ts_cursor_row = 23, ts_cursor_col = 0,
        ts_cursor_visible = True, ts_saved_at = 0, ts_sequence = 9, ts_vt = lit ''hello'' @ CARRYOVER_MODE_RESET\<rparr>"
    by code_simp
  from carryover_seed_primary [OF this] show ?thesis
    by (simp only: terminal_snapshot.select_convs) blast
qed

end
