(* ===== verification/Headless_Terminal.thy ===== *)
theory Headless_Terminal
  imports Progress Classify Terminal_Window
begin

text \<open>
  The daemon's headless terminal (\<^verbatim>\<open>headless_terminal.rs\<close>): what it reads off the emulator's grid and
  hands to the classifier. The VT emulator itself is the libghostty library; its calls are the fields of
  the record \<open>vt\<close>, an argument of every definition that uses them. A call whose error the code
  replaces by a default returns an option, any other fallible call a sum whose left side is the
  library's error.
\<close>

section \<open>The emulator's interface\<close>

datatype cell_wide = Narrow | Wide | SpacerTail | SpacerHead

record cell =
  wide :: cell_wide
  graphemes :: ustr
  faint :: bool

text \<open>\<open>vt_write\<close> also returns the replies the emulator hands to its \<^verbatim>\<open>on_pty_write\<close> callback; \<open>vt_grid\<close>
  is one update of the render state followed by the row and cell iteration, the selected cells of every
  row from top to bottom.\<close>

record ('t, 'x) vt =
  vt_new :: "nat \<Rightarrow> nat \<Rightarrow> nat \<Rightarrow> 'x + 't"
  vt_write :: "byte list \<Rightarrow> 't \<Rightarrow> 't \<times> byte list list"
  vt_resize :: "nat \<Rightarrow> nat \<Rightarrow> 't \<Rightarrow> 'x + 't"
  vt_bracketed_paste :: "'t \<Rightarrow> bool option"
  vt_sync_output :: "'t \<Rightarrow> bool option"
  vt_set_sync_output :: "bool \<Rightarrow> 't \<Rightarrow> 'x + 't"
  vt_serialize :: "'t \<Rightarrow> 'x + ustr"
  vt_title :: "'t \<Rightarrow> ustr option"
  vt_cursor_x :: "'t \<Rightarrow> nat option"
  vt_cursor_y :: "'t \<Rightarrow> nat option"
  vt_cursor_visible :: "'t \<Rightarrow> bool option"
  vt_grid :: "'t \<Rightarrow> 'x + cell list list"

definition unwrap_or :: "'a option \<Rightarrow> 'a \<Rightarrow> 'a" where
  "unwrap_or x d = (case x of None \<Rightarrow> d | Some y \<Rightarrow> y)"

section \<open>Construction, output and snapshots\<close>

record 't headless_terminal =
  ht_terminal :: 't
  ht_pty_writes :: "byte list list"
  ht_progress :: progress_scanner
  ht_rows :: nat
  ht_cols :: nat
  ht_warned :: bool

definition initial_session_status :: "agent_provider option \<Rightarrow> session_status" where
  "initial_session_status p = (if p \<noteq> None then Busy else Idle)"

definition GHOSTTY_SCROLLBACK_BYTES_PER_CELL :: nat where
  "GHOSTTY_SCROLLBACK_BYTES_PER_CELL = 20"

definition scrollback_byte_limit :: "nat \<Rightarrow> nat \<Rightarrow> nat \<Rightarrow> nat" where
  "scrollback_byte_limit cols rows scrollback_rows =
     sat_mul u64_max (sat_mul u64_max cols (sat_add u64_max rows scrollback_rows)) GHOSTTY_SCROLLBACK_BYTES_PER_CELL"

definition normalize_dimensions :: "nat \<Rightarrow> nat \<Rightarrow> nat \<times> nat" where
  "normalize_dimensions cols rows = (if cols = 0 then 80 else cols, if rows = 0 then 24 else rows)"

definition restore_vt :: "terminal_snapshot \<Rightarrow> ustr" where
  "restore_vt s =
     ts_vt s @ (if ts_cursor_visible s then 27 # lit ''[?25h'' else 27 # lit ''[?25l'') @
     27 # lit ''['' @ dec (ts_cursor_row s + 1) @ lit '';'' @ dec (ts_cursor_col s + 1) @ lit ''H''"

definition ht_new :: "('t, 'x) vt \<Rightarrow> nat \<Rightarrow> nat \<Rightarrow> nat \<Rightarrow> 'x + 't headless_terminal" where
  "ht_new v cols rows scrollback =
     (case vt_new v cols rows (scrollback_byte_limit cols rows scrollback) of
        Inl e \<Rightarrow> Inl e
      | Inr t \<Rightarrow> Inr \<lparr>ht_terminal = t, ht_pty_writes = [], ht_progress = scanner_new, ht_rows = rows,
                  ht_cols = cols, ht_warned = False\<rparr>)"

definition ht_write :: "('t, 'x) vt \<Rightarrow> byte list \<Rightarrow> 't headless_terminal \<Rightarrow> 't headless_terminal" where
  "ht_write v bytes h =
     (case vt_write v bytes (ht_terminal h) of
        (t, replies) \<Rightarrow>
          h\<lparr>ht_terminal := t, ht_pty_writes := ht_pty_writes h @ replies,
            ht_progress := scanner_write (ht_progress h) bytes\<rparr>)"

definition bracketed_paste_mode :: "('t, 'x) vt \<Rightarrow> 't headless_terminal \<Rightarrow> bool" where
  "bracketed_paste_mode v h = unwrap_or (vt_bracketed_paste v (ht_terminal h)) False"

definition drain_pty_writes :: "'t headless_terminal \<Rightarrow> byte list list \<times> 't headless_terminal" where
  "drain_pty_writes h = (ht_pty_writes h, h\<lparr>ht_pty_writes := []\<rparr>)"

definition ht_resize ::
  "('t, 'x) vt \<Rightarrow> nat \<Rightarrow> nat \<Rightarrow> 't headless_terminal \<Rightarrow> ('x + unit) \<times> 't headless_terminal" where
  "ht_resize v cols rows h =
     (case vt_resize v cols rows (ht_terminal h) of
        Inl e \<Rightarrow> (Inl e, h)
      | Inr t \<Rightarrow> (Inr (), h\<lparr>ht_terminal := t, ht_cols := cols, ht_rows := rows\<rparr>))"

section \<open>Rows\<close>

definition render_row :: "cell list \<Rightarrow> ustr" where
  "render_row row =
     concat (map (\<lambda>c. case wide c of
                        SpacerTail \<Rightarrow> [] | SpacerHead \<Rightarrow> []
                      | _ \<Rightarrow> if graphemes c = [] then [32] else graphemes c) row)"

definition normalize_row_text :: "ustr \<Rightarrow> ustr" where
  "normalize_row_text t =
     (case split_whitespace t of [] \<Rightarrow> [] | w # ws \<Rightarrow> w @ concat (map (\<lambda>x. 32 # x) ws))"

text \<open>The two \<^verbatim>\<open>pop_front\<close> loops: up to and including the first non-empty row, then leading empty ones.\<close>

fun expire_row :: "ustr list \<Rightarrow> nat \<Rightarrow> ustr list \<times> nat" where
  "expire_row [] n = ([], n)"
| "expire_row (r # rs) n = (if r \<noteq> [] then (rs, n - 1) else expire_row rs n)"

definition footer_push :: "nat \<Rightarrow> bool \<Rightarrow> ustr list \<times> nat \<times> bool \<Rightarrow> ustr \<Rightarrow> ustr list \<times> nat \<times> bool" where
  "footer_push rows preserve_blank_boundaries st normalized =
     (case st of (rendered_rows, meaningful, boundary) \<Rightarrow>
        if normalized = [] then (rendered_rows, meaningful, boundary \<or> preserve_blank_boundaries \<and> 0 < meaningful)
        else if rows = 0 then st
        else
          (let (kept, kept_count) =
                 (if meaningful = rows
                  then (case expire_row rendered_rows meaningful of (rs, n) \<Rightarrow> (dropWhile (\<lambda>r. r = []) rs, n))
                  else (rendered_rows, meaningful));
               bounded = (if preserve_blank_boundaries \<and> boundary \<and> kept \<noteq> [] then kept @ [[]] else kept)
           in (bounded @ [normalized], kept_count + 1, False)))"

definition visible_footer_lines_with_policy ::
  "('t, 'x) vt \<Rightarrow> nat \<Rightarrow> bool \<Rightarrow> 't headless_terminal \<Rightarrow> 'x + ustr list" where
  "visible_footer_lines_with_policy v rows preserve_blank_boundaries h =
     (case vt_grid v (ht_terminal h) of
        Inl e \<Rightarrow> Inl e
      | Inr grid \<Rightarrow>
          Inr (fst (foldl (footer_push rows preserve_blank_boundaries) ([], 0, False)
                 (map (\<lambda>row. normalize_row_text (render_row row)) grid))))"

definition visible_footer_lines :: "('t, 'x) vt \<Rightarrow> nat \<Rightarrow> 't headless_terminal \<Rightarrow> 'x + ustr list" where
  "visible_footer_lines v rows h = visible_footer_lines_with_policy v rows False h"

definition visible_footer_lines_with_blank_boundaries ::
  "('t, 'x) vt \<Rightarrow> nat \<Rightarrow> 't headless_terminal \<Rightarrow> 'x + ustr list" where
  "visible_footer_lines_with_blank_boundaries v rows h = visible_footer_lines_with_policy v rows True h"

definition visible_text_vt :: "('t, 'x) vt \<Rightarrow> nat \<Rightarrow> 't headless_terminal \<Rightarrow> 'x + ustr" where
  "visible_text_vt v rows h =
     (case visible_footer_lines v rows h of
        Inl e \<Rightarrow> Inl e
      | Inr lines \<Rightarrow> if lines = [] then Inr [] else Inr (join [13, 10] lines))"

text \<open>Serialising a frame closes a synchronized update for the read and opens it again. An error after
  the close leaves it closed, as the early return does.\<close>

definition snapshot_with_metadata ::
  "('t, 'x) vt \<Rightarrow> 't headless_terminal \<Rightarrow> ('x + terminal_snapshot \<times> bool) \<times> 't headless_terminal" where
  "snapshot_with_metadata v h =
     (let had = unwrap_or (vt_sync_output v (ht_terminal h)) False
      in case (if had then vt_set_sync_output v False (ht_terminal h) else Inr (ht_terminal h)) of
           Inl e \<Rightarrow> (Inl e, h)
         | Inr t1 \<Rightarrow>
             (let h1 = h\<lparr>ht_terminal := t1\<rparr>
              in case (case vt_serialize v t1 of
                         Inr text \<Rightarrow> Inr (text, False)
                       | Inl _ \<Rightarrow> map_sum id (\<lambda>text. (text, True)) (visible_text_vt v (ht_rows h1) h1)) of
                   Inl e \<Rightarrow> (Inl e, h1)
                 | Inr (text, fallback) \<Rightarrow>
                     (case (if had then vt_set_sync_output v True t1 else Inr t1) of
                        Inl e \<Rightarrow> (Inl e, h1)
                      | Inr t2 \<Rightarrow>
                          (Inr (\<lparr>ts_version = 1, ts_rows = ht_rows h, ts_cols = ht_cols h,
                                 ts_cursor_row = unwrap_or (vt_cursor_y v t2) 0,
                                 ts_cursor_col = unwrap_or (vt_cursor_x v t2) 0,
                                 ts_cursor_visible = unwrap_or (vt_cursor_visible v t2) True,
                                 ts_saved_at = 0, ts_sequence = 0, ts_vt = text\<rparr>, fallback),
                           h\<lparr>ht_terminal := t2\<rparr>))))"

definition ht_snapshot ::
  "('t, 'x) vt \<Rightarrow> 't headless_terminal \<Rightarrow> ('x + terminal_snapshot) \<times> 't headless_terminal" where
  "ht_snapshot v h = (case snapshot_with_metadata v h of (r, h') \<Rightarrow> (map_sum id fst r, h'))"

definition from_snapshot :: "('t, 'x) vt \<Rightarrow> terminal_snapshot \<Rightarrow> nat \<Rightarrow> 'x + 't headless_terminal" where
  "from_snapshot v s scrollback =
     (case ht_new v (ts_cols s) (ts_rows s) scrollback of
        Inl e \<Rightarrow> Inl e
      | Inr h \<Rightarrow> Inr (ht_write v (as_bytes (restore_vt s)) h))"

definition from_handoff ::
  "('t, 'x) vt \<Rightarrow> terminal_snapshot option \<Rightarrow> nat \<Rightarrow> nat \<Rightarrow> nat \<Rightarrow> 'x + 't headless_terminal" where
  "from_handoff v snap cols rows scrollback =
     (case normalize_dimensions cols rows of
        (c, r) \<Rightarrow>
          (case snap of
             None \<Rightarrow> ht_new v c r scrollback
           | Some s \<Rightarrow>
               (case from_snapshot v s scrollback of
                  Inr h \<Rightarrow> Inr h
                | Inl _ \<Rightarrow> ht_new v c r scrollback)))"

section \<open>Status\<close>

definition ht_title :: "('t, 'x) vt \<Rightarrow> 't headless_terminal \<Rightarrow> ustr" where
  "ht_title v h = unwrap_or (vt_title v (ht_terminal h)) []"

definition ht_progress_state :: "'t headless_terminal \<Rightarrow> progress_state option" where
  "ht_progress_state h = latest_state (ht_progress h)"

definition debug_lines :: "('t, 'x) vt \<Rightarrow> nat \<Rightarrow> 't headless_terminal \<Rightarrow> 'x + ustr list" where
  "debug_lines v rows h = visible_footer_lines v rows h"

definition visible_verdict ::
  "('t, 'x) vt \<Rightarrow> (uchar \<Rightarrow> ustr) \<Rightarrow> detection \<Rightarrow> classifier \<Rightarrow> 't headless_terminal
     \<Rightarrow> ('x + verdict option) \<times> classifier \<times> 't headless_terminal" where
  "visible_verdict v lc d c h =
     (if cl_provider c = None then (Inr None, c, h)
      else
        (case status_rows lc d c of (rows, c1) \<Rightarrow>
           (case visible_footer_lines v rows h of
              Inl e \<Rightarrow> (Inl e, c1, h)
            | Inr lines \<Rightarrow>
                (let (c2, h2) =
                       (if ht_warned h then (c1, h)
                        else (case unclassified_footer lc d c1 lines of
                                (Some _, c') \<Rightarrow> (c', h\<lparr>ht_warned := True\<rparr>)
                              | (None, c') \<Rightarrow> (c', h)));
                     (verdict, c3) =
                       classify lc d c2
                         \<lparr>ev_lines = lines, ev_title = ht_title v h2, ev_progress = ht_progress_state h2\<rparr>
                 in (Inr verdict, c3, h2)))))"

definition visible_status ::
  "('t, 'x) vt \<Rightarrow> (uchar \<Rightarrow> ustr) \<Rightarrow> detection \<Rightarrow> classifier \<Rightarrow> 't headless_terminal
     \<Rightarrow> ('x + session_status option) \<times> classifier \<times> 't headless_terminal" where
  "visible_status v lc d c h =
     (case visible_verdict v lc d c h of (r, c', h') \<Rightarrow> (map_sum id (map_option vd_status) r, c', h'))"

definition status_frame_complete :: "('t, 'x) vt \<Rightarrow> 't headless_terminal \<Rightarrow> bool" where
  "status_frame_complete v h \<longleftrightarrow> \<not> unwrap_or (vt_sync_output v (ht_terminal h)) False"

section \<open>The composer row\<close>

definition paints_faint_suggestions :: "agent_provider \<Rightarrow> bool" where
  "paints_faint_suggestions p \<longleftrightarrow> p = Claude"

record composer_cell =
  cc_text :: ustr
  cc_faint :: bool

record composer_row =
  row_text :: ustr
  all_faint :: bool
  before_cursor :: "ustr option"
  cursor_at_start :: bool
  cursor_at_end :: bool

definition cell_is_blank :: "composer_cell \<Rightarrow> bool" where
  "cell_is_blank c \<longleftrightarrow> cc_text c = [] \<or> list_all is_whitespace (cc_text c)"

definition cells_text :: "composer_cell list \<Rightarrow> ustr" where
  "cells_text cs = concat (map cc_text cs)"

text \<open>The sub-slice \<^verbatim>\<open>cells[start.min(len)..end.min(len)]\<close>; its first bound never exceeds its second
  where the code takes it.\<close>

definition cell_slice :: "composer_cell list \<Rightarrow> nat \<Rightarrow> nat \<Rightarrow> composer_cell list" where
  "cell_slice cs i j = drop (min i (length cs)) (take (min j (length cs)) cs)"

text \<open>The cell after the prompt glyph and the one blank cell the provider draws next to it.\<close>

definition composer_start :: "composer_cell list \<Rightarrow> uchar list \<Rightarrow> nat" where
  "composer_start cs prompts =
     (let prompt_index =
            unwrap_or (position (\<lambda>c. case cc_text c of [] \<Rightarrow> False | ch # _ \<Rightarrow> List.member prompts ch) cs) 0;
          separator = (case get cs (prompt_index + 1) of None \<Rightarrow> False | Some c \<Rightarrow> cell_is_blank c)
      in prompt_index + 1 + (if separator then 1 else 0))"

definition composer_row_from_cells :: "composer_cell list \<Rightarrow> uchar list \<Rightarrow> nat option \<Rightarrow> composer_row" where
  "composer_row_from_cells cs prompts cursor =
     (let start = composer_start cs prompts;
          stop = max (case rposition (\<lambda>c. \<not> cell_is_blank c) cs of None \<Rightarrow> start | Some i \<Rightarrow> i + 1) start;
          styled = cell_slice cs start stop
      in \<lparr>row_text = cells_text styled,
          all_faint = (list_ex (\<lambda>c. \<not> cell_is_blank c) styled \<and>
                       list_all cc_faint (filter (\<lambda>c. \<not> cell_is_blank c) styled)),
          before_cursor =
            (case cursor of
               None \<Rightarrow> None
             | Some at \<Rightarrow> if start \<le> at then Some (cells_text (cell_slice cs start at)) else None),
          cursor_at_start = (cursor = Some start),
          cursor_at_end =
            (case cursor of
               None \<Rightarrow> False
             | Some at \<Rightarrow> start \<le> at \<and>
                 \<not> list_ex (\<lambda>c. \<not> cell_is_blank c) (drop (min at (length cs)) cs))\<rparr>)"

definition composer_cell_of :: "cell \<Rightarrow> composer_cell" where
  "composer_cell_of c =
     \<lparr>cc_text = (case wide c of SpacerTail \<Rightarrow> [] | SpacerHead \<Rightarrow> [] | _ \<Rightarrow> graphemes c),
      cc_faint = faint c\<rparr>"

definition match_row ::
  "ustr \<Rightarrow> uchar list \<Rightarrow> (nat \<times> composer_cell list) option \<times> nat \<Rightarrow> cell list
     \<Rightarrow> (nat \<times> composer_cell list) option \<times> nat" where
  "match_row normalized_line prompts st row =
     (case st of (matched, y) \<Rightarrow>
        (let cs = map composer_cell_of row;
             rendered = cells_text cs
         in (if normalize_row_text rendered = normalized_line \<and> starts_with_glyph rendered prompts
             then Some (y, cs) else matched,
             sat_add 65535 y 1)))"

definition composer_row_for_line ::
  "('t, 'x) vt \<Rightarrow> (uchar \<Rightarrow> ustr) \<Rightarrow> detection \<Rightarrow> ustr \<Rightarrow> classifier \<Rightarrow> 't headless_terminal
     \<Rightarrow> ('x + composer_row option) \<times> classifier" where
  "composer_row_for_line v lc d normalized_line c h =
     (case composer_prompts_of lc d c of (prompts, c1) \<Rightarrow>
        if prompts = [] then (Inr None, c1)
        else
          (let x = unwrap_or (vt_cursor_x v (ht_terminal h)) 0;
               y = unwrap_or (vt_cursor_y v (ht_terminal h)) 0
           in case vt_grid v (ht_terminal h) of
                Inl e \<Rightarrow> (Inl e, c1)
              | Inr grid \<Rightarrow>
                  (case fst (foldl (match_row normalized_line prompts) (None, 0) grid) of
                     None \<Rightarrow> (Inr None, c1)
                   | Some (row_y, cs) \<Rightarrow>
                       (Inr (Some (composer_row_from_cells cs prompts (if y = row_y then Some x else None))), c1))))"

definition ht_composer_state ::
  "('t, 'x) vt \<Rightarrow> (uchar \<Rightarrow> ustr) \<Rightarrow> detection \<Rightarrow> classifier \<Rightarrow> 't headless_terminal
     \<Rightarrow> ('x + composer_state) \<times> classifier" where
  "ht_composer_state v lc d c h =
     (case cl_provider c of
        None \<Rightarrow> (Inr Unknown, c)
      | Some p \<Rightarrow>
          (case status_rows lc d c of (rows, c1) \<Rightarrow>
             (case visible_footer_lines v rows h of
                Inl e \<Rightarrow> (Inl e, c1)
              | Inr lines \<Rightarrow>
                  (case composer_reading lc d c1 lines of
                     (None, c2) \<Rightarrow> (Inr Unknown, c2)
                   | (Some (i, text), c2) \<Rightarrow>
                       if text = [] then (Inr Empty, c2)
                       else if \<not> paints_faint_suggestions p then (Inr Unknown, c2)
                       else
                         (case composer_row_for_line v lc d (lines ! i) c2 h of
                            (Inl e, c3) \<Rightarrow> (Inl e, c3)
                          | (Inr None, c3) \<Rightarrow> (Inr Unknown, c3)
                          | (Inr (Some row), c3) \<Rightarrow>
                              (Inr (if all_faint row \<and> cursor_at_start row \<and> row_text row \<noteq> []
                                    then SuggestionOnly else Unknown), c3))))))"

definition ht_composer_line ::
  "('t, 'x) vt \<Rightarrow> (uchar \<Rightarrow> ustr) \<Rightarrow> detection \<Rightarrow> classifier \<Rightarrow> 't headless_terminal
     \<Rightarrow> ('x + ustr option) \<times> classifier" where
  "ht_composer_line v lc d c h =
     (if cl_provider c = None then (Inr None, c)
      else
        (case status_rows lc d c of (rows, c1) \<Rightarrow>
           (case visible_footer_lines v rows h of
              Inl e \<Rightarrow> (Inl e, c1)
            | Inr status_lines \<Rightarrow>
                (case visible_footer_lines v (max (ht_rows h) rows) h of
                   Inl e \<Rightarrow> (Inl e, c1)
                 | Inr frame_lines \<Rightarrow>
                     (case composer_line lc d c1 frame_lines status_lines of (r, c2) \<Rightarrow> (Inr r, c2))))))"

definition waiting_prompt_snippet ::
  "('t, 'x) vt \<Rightarrow> (uchar \<Rightarrow> ustr) \<Rightarrow> detection \<Rightarrow> classifier \<Rightarrow> 't headless_terminal
     \<Rightarrow> ('x + ustr option) \<times> classifier" where
  "waiting_prompt_snippet v lc d c h =
     (if cl_provider c = None then (Inr None, c)
      else
        (case waiting_prompt_rows lc d c of (rows, c1) \<Rightarrow>
           (case visible_footer_lines_with_blank_boundaries v rows h of
              Inl e \<Rightarrow> (Inl e, c1)
            | Inr classification_lines \<Rightarrow>
                (case visible_footer_lines_with_blank_boundaries v (max (ht_rows h) rows) h of
                   Inl e \<Rightarrow> (Inl e, c1)
                 | Inr frame_lines \<Rightarrow>
                     (case waiting_prompt lc d c1 classification_lines frame_lines of (r, c2) \<Rightarrow> (Inr r, c2))))))"

definition line_is_composer :: "(uchar \<Rightarrow> ustr) \<Rightarrow> detection \<Rightarrow> ustr \<Rightarrow> bool" where
  "line_is_composer lc d line = starts_with_glyph line (global_composer_prompts lc (fst (current_rules d)))"

definition composer_line_text :: "(uchar \<Rightarrow> ustr) \<Rightarrow> detection \<Rightarrow> ustr \<Rightarrow> ustr" where
  "composer_line_text lc d line =
     unwrap_or (prompt_remainder line (global_composer_prompts lc (fst (current_rules d)))) []"

section \<open>The Codex resume hint\<close>

definition eq_ignore_ascii_case :: "ustr \<Rightarrow> ustr \<Rightarrow> bool" where
  "eq_ignore_ascii_case a b \<longleftrightarrow> str_to_ascii_lowercase a = str_to_ascii_lowercase b"

definition is_ascii_hexdigit :: "uchar \<Rightarrow> bool" where
  "is_ascii_hexdigit c \<longleftrightarrow> (48 \<le> c \<and> c \<le> 57) \<or> (65 \<le> c \<and> c \<le> 70) \<or> (97 \<le> c \<and> c \<le> 102)"

definition is_uuid_like :: "ustr \<Rightarrow> bool" where
  "is_uuid_like s \<longleftrightarrow>
     str_len s = 36 \<and>
     list_all (\<lambda>(index, ch). if index \<in> {8, 13, 18, 23} then ch = 45 else is_ascii_hexdigit ch)
       (enumerate 0 s)"

definition token_mark :: "uchar \<Rightarrow> bool" where
  "token_mark c \<longleftrightarrow> List.member (lit [CHR 0x22, CHR 0x27, CHR 0x60, CHR 0x2C, CHR 0x2E, CHR 0x3B, CHR 0x3A, CHR 0x28, CHR 0x29]) c"

definition token_text :: "ustr \<Rightarrow> ustr" where
  "token_text t = trim_end_matches token_mark (dropWhile token_mark t)"

fun resume_window :: "ustr list \<Rightarrow> ustr option" where
  "resume_window (a # b # i # ts) =
     (if eq_ignore_ascii_case a (lit ''codex'') \<and> eq_ignore_ascii_case b (lit ''resume'') \<and> is_uuid_like i
      then Some i else resume_window (b # i # ts))"
| "resume_window _ = None"

definition extract_codex_resume_session_id :: "ustr \<Rightarrow> ustr option" where
  "extract_codex_resume_session_id text = resume_window (map token_text (split_whitespace text))"

definition codex_resume_session_id :: "('t, 'x) vt \<Rightarrow> 't headless_terminal \<Rightarrow> 'x + ustr option" where
  "codex_resume_session_id v h =
     map_sum id (\<lambda>lines. extract_codex_resume_session_id (join [32] lines)) (visible_footer_lines v 16 h)"

section \<open>What the footer reading returns\<close>

text \<open>
  The reference for the bounded queue: the shortest suffix of the frame with the last \<open>n\<close> non-blank
  rows, either without its blank rows or with every inner run of them as one.
\<close>

abbreviation nonblank_rows :: "ustr list \<Rightarrow> ustr list" where
  "nonblank_rows rs \<equiv> filter (\<lambda>r. r \<noteq> []) rs"

fun keep_last :: "nat \<Rightarrow> ustr list \<Rightarrow> ustr list" where
  "keep_last n [] = []"
| "keep_last n (r # rs) = (if length (nonblank_rows (r # rs)) \<le> n then r # rs else keep_last n rs)"

fun boundaries :: "bool \<Rightarrow> ustr list \<Rightarrow> ustr list" where
  "boundaries b [] = []"
| "boundaries b (r # rs) =
     (if r = [] then boundaries True rs else (if b then [[], r] else [r]) @ boundaries False rs)"

definition squeeze :: "ustr list \<Rightarrow> ustr list" where
  "squeeze rs = boundaries False (dropWhile (\<lambda>r. r = []) rs)"

definition footer_spec :: "nat \<Rightarrow> bool \<Rightarrow> ustr list \<Rightarrow> ustr list" where
  "footer_spec n preserve rs =
     (if preserve then squeeze (keep_last n rs) else nonblank_rows (keep_last n rs))"

lemma keep_last_all: "length (nonblank_rows rs) \<le> n \<Longrightarrow> keep_last n rs = rs"
  by (cases rs) auto

lemma keep_last_count: "length (nonblank_rows (keep_last n rs)) = min n (length (nonblank_rows rs))"
  by (induction rs) auto

lemma keep_last_nonblank: "nonblank_rows (keep_last n rs) = drop (length (nonblank_rows rs) - n) (nonblank_rows rs)"
  by (induction rs) (auto simp: Suc_diff_le not_le less_Suc_eq_le)

lemma keep_last_snoc_blank: "keep_last n (rs @ [[]]) = keep_last n rs @ [[]]"
  by (induction rs) auto

lemma keep_last_snoc: "r \<noteq> [] \<Longrightarrow> keep_last (Suc n) (rs @ [r]) = keep_last n rs @ [r]"
  by (induction rs) auto

lemma keep_last_less: "m \<le> n \<Longrightarrow> keep_last m (keep_last n rs) = keep_last m rs"
  by (induction rs) auto

lemma boundaries_snoc_blank: "boundaries b (rs @ [[]]) = boundaries b rs"
  by (induction rs arbitrary: b) auto

text \<open>Whether a blank row has been seen since the last non-blank one.\<close>

fun open_boundary :: "bool \<Rightarrow> ustr list \<Rightarrow> bool" where
  "open_boundary b [] = b"
| "open_boundary b (r # rs) = open_boundary (r = []) rs"

lemma open_boundary_snoc: "open_boundary b (rs @ [r]) \<longleftrightarrow> r = []"
  by (induction rs arbitrary: b) auto

lemma boundaries_snoc:
  "r \<noteq> [] \<Longrightarrow> boundaries b (rs @ [r]) = boundaries b rs @ (if open_boundary b rs then [[], r] else [r])"
  by (induction rs arbitrary: b) auto

lemma boundaries_Nil_iff: "boundaries b rs = [] \<longleftrightarrow> nonblank_rows rs = []"
  by (induction rs arbitrary: b) auto

lemma dropWhile_boundaries: "dropWhile (\<lambda>r. r = []) (boundaries b rs) = squeeze rs"
  by (induction rs arbitrary: b) (auto simp: squeeze_def)

lemma squeeze_Nil_iff: "squeeze rs = [] \<longleftrightarrow> nonblank_rows rs = []"
  by (induction rs) (auto simp: squeeze_def)

lemma squeeze_snoc_blank: "squeeze (rs @ [[]]) = squeeze rs"
  by (induction rs) (auto simp: squeeze_def boundaries_snoc_blank)

lemma open_boundary_last: "rs \<noteq> [] \<Longrightarrow> open_boundary b rs \<longleftrightarrow> last rs = []"
  by (cases rs rule: rev_cases) (auto simp: open_boundary_snoc)

lemma squeeze_snoc:
  "r \<noteq> [] \<Longrightarrow> squeeze (rs @ [r]) =
     squeeze rs @ (if nonblank_rows rs \<noteq> [] \<and> last rs = [] then [[], r] else [r])"
proof (induction rs)
  case (Cons q rs)
  then show ?case
    by (cases "rs = []") (auto simp: squeeze_def boundaries_snoc open_boundary_last)
qed (simp add: squeeze_def)

lemma expire_squeeze:
  "length (nonblank_rows rs) = Suc m \<Longrightarrow>
   \<exists>q. expire_row (squeeze rs) k = (q, k - 1) \<and> dropWhile (\<lambda>r. r = []) q = squeeze (keep_last m rs)"
proof (induction rs)
  case (Cons r rs)
  show ?case
  proof (cases "r = []")
    case True
    with Cons show ?thesis
      by (simp add: squeeze_def)
  next
    case False
    with Cons.prems show ?thesis
      by (simp add: squeeze_def [of "r # rs"] dropWhile_boundaries keep_last_all)
  qed
qed simp

lemma expire_nonblank:
  "length (nonblank_rows rs) = Suc m \<Longrightarrow>
   \<exists>q. expire_row (nonblank_rows rs) k = (q, k - 1) \<and> dropWhile (\<lambda>r. r = []) q = nonblank_rows (keep_last m rs)"
proof (induction rs)
  case (Cons r rs)
  moreover have "dropWhile (\<lambda>r. r = []) (nonblank_rows rs) = nonblank_rows rs"
    by (induction rs) auto
  ultimately show ?case
    by (cases "r = []") (simp_all add: keep_last_all)
qed simp

lemma expire_spec:
  assumes "Suc m \<le> length (nonblank_rows rs)"
  obtains q where "expire_row (footer_spec (Suc m) p rs) k = (q, k - 1)"
    and "dropWhile (\<lambda>r. r = []) q = footer_spec m p rs"
proof -
  let ?ys = "keep_last (Suc m) rs"
  have "length (nonblank_rows ?ys) = Suc m" and "keep_last m ?ys = keep_last m rs"
    using assms by (simp_all add: keep_last_count keep_last_less)
  with expire_squeeze [of ?ys m k] expire_nonblank [of ?ys m k] that show thesis
    by (cases p) (auto simp: footer_spec_def)
qed

lemma keep_last_last: "keep_last n rs \<noteq> [] \<Longrightarrow> last (keep_last n rs) = last rs"
  by (induction rs) (auto split: if_splits)

lemma footer_spec_snoc_blank: "footer_spec n p (rs @ [[]]) = footer_spec n p rs"
  by (simp add: footer_spec_def keep_last_snoc_blank squeeze_snoc_blank)

lemma footer_spec_snoc:
  assumes "r \<noteq> []"
  shows "footer_spec (Suc n) p (rs @ [r]) =
    footer_spec n p rs @ (if p \<and> footer_spec n p rs \<noteq> [] \<and> last rs = [] then [[], r] else [r])"
proof -
  have "last (keep_last n rs) = last rs" if "nonblank_rows (keep_last n rs) \<noteq> []"
    using that by (intro keep_last_last) auto
  with assms show ?thesis
    by (auto simp: footer_spec_def keep_last_snoc squeeze_snoc squeeze_Nil_iff)
qed

lemma footer_spec_all: "length (nonblank_rows rs) \<le> n \<Longrightarrow> n \<le> m \<Longrightarrow> footer_spec m p rs = footer_spec n p rs"
  by (simp add: footer_spec_def keep_last_all)

lemma footer_spec_0: "footer_spec 0 p rs = []"
proof -
  have "nonblank_rows (keep_last 0 rs) = []"
    by (simp add: keep_last_nonblank)
  then show ?thesis
    by (simp add: footer_spec_def squeeze_Nil_iff)
qed

lemma footer_spec_blank: "nonblank_rows rs = [] \<Longrightarrow> footer_spec n p rs = []"
  by (simp add: footer_spec_def squeeze_Nil_iff keep_last_all)

lemma footer_loop:
  "foldl (footer_push n p) ([], 0, False) rs =
     (footer_spec n p rs, min n (length (nonblank_rows rs)),
      p \<and> 0 < n \<and> nonblank_rows rs \<noteq> [] \<and> last rs = [])"
proof (induction rs rule: rev_induct)
  case Nil
  show ?case by (simp add: footer_spec_def squeeze_def)
next
  case (snoc r rs)
  show ?case
  proof (cases "r = [] \<or> n = 0")
    case True
    then show ?thesis
      using snoc by (cases "n = 0") (auto simp: footer_push_def footer_spec_0 footer_spec_snoc_blank)
  next
    case False
    then obtain m where n: "n = Suc m" and "r \<noteq> []"
      by (cases n) auto
    show ?thesis
    proof (cases "n \<le> length (nonblank_rows rs)")
      case True
      then obtain q where "expire_row (footer_spec n p rs) n = (q, m)"
        and "dropWhile (\<lambda>r. r = []) q = footer_spec m p rs"
        using expire_spec [of m rs p n] by (auto simp: n)
      with True \<open>r \<noteq> []\<close> snoc show ?thesis
        by (auto simp: footer_push_def Let_def n footer_spec_snoc)
    next
      case False
      then have "footer_spec n p rs = footer_spec m p rs"
        by (intro footer_spec_all) (simp_all add: n)
      with False \<open>r \<noteq> []\<close> snoc show ?thesis
        by (auto simp: footer_push_def Let_def n footer_spec_snoc footer_spec_blank)
    qed
  qed
qed

lemma visible_footer_eq:
  "visible_footer_lines_with_policy v n p h =
     map_sum id (\<lambda>grid. footer_spec n p (map (\<lambda>row. normalize_row_text (render_row row)) grid))
       (vt_grid v (ht_terminal h))"
  by (simp add: visible_footer_lines_with_policy_def footer_loop split: sum.split)

lemma normalize_row_text_join: "normalize_row_text t = join [32] (split_whitespace t)"
proof -
  have "concat (map (\<lambda>x. 32 # x) ws) = (if ws = [] then [] else 32 # join [32] ws)" for ws :: "ustr list"
    by (induction ws) (simp_all add: join_Cons_ne)
  then show ?thesis
    by (simp add: normalize_row_text_def join_Cons_ne split: list.split)
qed

section \<open>What the composer row proves\<close>

definition row_matches :: "ustr \<Rightarrow> uchar list \<Rightarrow> composer_cell list \<Rightarrow> bool" where
  "row_matches l prompts cs \<longleftrightarrow>
     normalize_row_text (cells_text cs) = l \<and> starts_with_glyph (cells_text cs) prompts"

lemma match_row_eq:
  "match_row l prompts (m, y) row =
     (if row_matches l prompts (map composer_cell_of row) then Some (y, map composer_cell_of row) else m,
      min 65535 (y + 1))"
  by (simp add: match_row_def row_matches_def sat_add_def Let_def)

lemma match_rows_count: "snd (foldl (match_row l prompts) (m, 0) grid) = min 65535 (length grid)"
proof (induction grid rule: rev_induct)
  case (snoc row grid)
  then show ?case
    by (cases "foldl (match_row l prompts) (m, 0) grid") (simp add: match_row_eq)
qed simp

lemma match_rows:
  "length grid \<le> 65535 \<Longrightarrow> fst (foldl (match_row l prompts) (None, 0) grid) = Some (k, cs) \<Longrightarrow>
   k < length grid \<and> cs = map composer_cell_of (grid ! k) \<and> row_matches l prompts cs"
proof (induction grid rule: rev_induct)
  case (snoc row grid)
  obtain m y where st: "foldl (match_row l prompts) (None, 0) grid = (m, y)"
    by (cases "foldl (match_row l prompts) (None, 0) grid")
  have y: "y = length grid"
    using match_rows_count [of l prompts None grid] snoc.prems(1) by (simp add: st)
  show ?case
  proof (cases "row_matches l prompts (map composer_cell_of row)")
    case True
    with snoc.prems(2) y show ?thesis
      by (simp add: st match_row_eq) (metis nth_append_length)
  next
    case False
    with snoc.prems have "fst (foldl (match_row l prompts) (None, 0) grid) = Some (k, cs)"
      by (simp add: st match_row_eq)
    from snoc.IH [OF _ this] snoc.prems(1) show ?thesis
      by (auto simp: nth_append)
  qed
qed simp

lemma cell_slice_content:
  assumes "stop = max (case rposition P cs of None \<Rightarrow> start | Some i \<Rightarrow> i + 1) start"
  shows "set (filter P (cell_slice cs start stop)) = set (filter P (drop start cs))"
proof -
  have "\<not> P x" if "x \<in> set (drop stop cs)" for x
  proof -
    from that obtain j where j: "j < length cs" "stop \<le> j" "x = cs ! j"
      by (metis add.commute in_set_conv_nth le_add1 length_drop less_diff_conv nat_le_linear
          nth_drop drop_all length_pos_if_in_set less_numeral_extra(3) list.size(3))
    show ?thesis
    proof (cases "rposition P cs")
      case None
      with j show ?thesis by auto
    next
      case (Some i)
      with assms j have "i < j" by simp
      with rposition_SomeD [OF Some] j show ?thesis by blast
    qed
  qed
  then have "filter P (drop stop cs) = []"
    by simp
  moreover have "start \<le> stop"
    using assms by simp
  then have "drop start cs = drop start (take stop cs) @ drop stop cs"
    using drop_append [of start "take stop cs" "drop stop cs"] by (cases "length cs \<le> start") simp_all
  moreover have "cell_slice cs start stop = drop start (take stop cs)"
    by (simp add: cell_slice_def min_def)
  ultimately show ?thesis
    by simp
qed

lemma composer_row_suggestion:
  assumes "all_faint (composer_row_from_cells cs prompts cursor)"
    and "cursor_at_start (composer_row_from_cells cs prompts cursor)"
  shows "cursor = Some (composer_start cs prompts)"
    and "list_all (\<lambda>c. \<not> cell_is_blank c \<longrightarrow> cc_faint c) (drop (composer_start cs prompts) cs)"
    and "list_ex (\<lambda>c. \<not> cell_is_blank c) (drop (composer_start cs prompts) cs)"
proof -
  let ?P = "\<lambda>c. \<not> cell_is_blank c"
  define start where "start = composer_start cs prompts"
  define stop where "stop = max (case rposition ?P cs of None \<Rightarrow> start | Some i \<Rightarrow> i + 1) start"
  have row: "set (filter ?P (cell_slice cs start stop)) = set (filter ?P (drop start cs))"
    by (rule cell_slice_content) (rule stop_def)
  have "all_faint (composer_row_from_cells cs prompts cursor) \<longleftrightarrow>
      list_ex ?P (cell_slice cs start stop) \<and> list_all cc_faint (filter ?P (cell_slice cs start stop))"
    unfolding composer_row_from_cells_def Let_def stop_def start_def by simp
  with assms(1) have faint: "\<forall>c \<in> set (filter ?P (cell_slice cs start stop)). cc_faint c"
    and ex: "\<exists>c. c \<in> set (filter ?P (cell_slice cs start stop))"
    unfolding list_all_iff list_ex_iff by auto
  show "cursor = Some (composer_start cs prompts)"
    using assms(2) by (simp add: composer_row_from_cells_def Let_def)
  show "list_all (\<lambda>c. \<not> cell_is_blank c \<longrightarrow> cc_faint c) (drop (composer_start cs prompts) cs)"
    using faint unfolding row by (simp add: list_all_iff start_def)
  show "list_ex (\<lambda>c. \<not> cell_is_blank c) (drop (composer_start cs prompts) cs)"
    using ex unfolding row by (auto simp: list_ex_iff start_def)
qed

lemma status_rows_rules: "rules_of lc d c = (Some rules, c') \<Longrightarrow> status_rows lc d c = (rd_status_rows rules, c')"
  by (simp add: status_rows_def)

lemma composer_row_for_lineE:
  assumes "composer_row_for_line v lc d l c h = (Inr (Some row), c')"
    and "rules_of lc d c = (Some rules, c)" and "vt_grid v (ht_terminal h) = Inr grid" and "length grid \<le> 65535"
  obtains y where "y < length grid" and "c' = c"
    and "row_matches l (pglyphs rules ComposerPrompts) (map composer_cell_of (grid ! y))"
    and "row = composer_row_from_cells (map composer_cell_of (grid ! y)) (pglyphs rules ComposerPrompts)
      (if unwrap_or (vt_cursor_y v (ht_terminal h)) 0 = y
       then Some (unwrap_or (vt_cursor_x v (ht_terminal h)) 0) else None)"
proof -
  have "composer_prompts_of lc d c = (pglyphs rules ComposerPrompts, c)"
    using assms(2) by (simp add: composer_prompts_of_def)
  with assms(1,3) obtain y cs where
    m: "fst (foldl (match_row l (pglyphs rules ComposerPrompts)) (None, 0) grid) = Some (y, cs)"
    and "c' = c" and "row = composer_row_from_cells cs (pglyphs rules ComposerPrompts)
      (if unwrap_or (vt_cursor_y v (ht_terminal h)) 0 = y
       then Some (unwrap_or (vt_cursor_x v (ht_terminal h)) 0) else None)"
    by (auto simp: composer_row_for_line_def Let_def split: if_splits option.splits)
  with match_rows [OF assms(4) m] that show thesis
    by blast
qed

lemma ht_composer_stateE:
  assumes "ht_composer_state v lc d c h = (Inr s, c')" and "proves_nothing_typed s"
  obtains rules lines i where "rules_of lc d c = (Some rules, c')" and "rules_of lc d c' = (Some rules, c')"
    and "visible_footer_lines v (rd_status_rows rules) h = Inr lines" and "composer_index lines rules = Some i"
    and "\<not> fst (frame_is_busy_or_waiting lc d c' lines)"
    and "s = Empty \<and> composer_text (lines ! i) rules = [] \<or>
      s = SuggestionOnly \<and> cl_provider c = Some Claude \<and>
      (\<exists>row. composer_row_for_line v lc d (lines ! i) c' h = (Inr (Some row), c') \<and>
        all_faint row \<and> cursor_at_start row)"
proof -
  obtain R c1 where R: "rules_of lc d c = (R, c1)" "rules_of lc d c1 = (R, c1)"
    using rules_of_again by (cases "rules_of lc d c") blast
  have "snd (status_rows lc d c) = c1"
    using R by (auto simp: status_rows_def split: option.splits)
  with assms obtain lines i body c2 where
    lines: "visible_footer_lines v (fst (status_rows lc d c)) h = Inr lines"
    and reading: "composer_reading lc d c1 lines = (Some (i, body), c2)"
    by (auto simp: ht_composer_state_def proves_nothing_typed_def split: option.splits prod.splits sum.splits)
  from reading obtain rules where rules: "rules_of lc d c1 = (Some rules, c2)"
    and index: "composer_index lines rules = Some i" and body: "body = composer_text (lines ! i) rules"
    and quiet: "\<not> fst (frame_is_busy_or_waiting lc d c1 lines)"
    by (rule composer_readingE)
  have "c2 = c1" and "R = Some rules"
    using R rules by simp_all
  with R rules lines have st: "status_rows lc d c = (rd_status_rows rules, c1)"
    by (simp add: status_rows_rules)
  obtain p where p: "cl_provider c = Some p"
    using assms by (cases "cl_provider c") (auto simp: ht_composer_state_def proves_nothing_typed_def)
  have eq: "ht_composer_state v lc d c h =
      (if body = [] then (Inr Empty, c1)
       else if p \<noteq> Claude then (Inr Unknown, c1)
       else (case composer_row_for_line v lc d (lines ! i) c1 h of
               (Inl e, c3) \<Rightarrow> (Inl e, c3)
             | (Inr None, c3) \<Rightarrow> (Inr Unknown, c3)
             | (Inr (Some row), c3) \<Rightarrow>
                 (Inr (if all_faint row \<and> cursor_at_start row \<and> row_text row \<noteq> []
                       then SuggestionOnly else Unknown), c3)))"
    using p st lines reading \<open>c2 = c1\<close> by (simp add: ht_composer_state_def paints_faint_suggestions_def)
  have stay: "c3 = c1" if "composer_row_for_line v lc d (lines ! i) c1 h = (r, c3)" for r c3
    using that rules \<open>c2 = c1\<close>
    by (auto simp: composer_row_for_line_def composer_prompts_of_def Let_def split: if_splits sum.splits option.splits)
  have "c' = c1"
    using assms(1) unfolding eq by (auto split: if_splits prod.splits sum.splits option.splits dest: stay)
  moreover have "s = Empty \<and> body = [] \<or> s = SuggestionOnly \<and> p = Claude \<and>
      (\<exists>row. composer_row_for_line v lc d (lines ! i) c1 h = (Inr (Some row), c1) \<and> all_faint row \<and> cursor_at_start row)"
    using assms unfolding eq proves_nothing_typed_def
    by (auto split: if_splits prod.splits sum.splits option.splits dest: stay)
  ultimately show thesis
    using that [of rules lines i] R \<open>R = Some rules\<close> lines st index quiet body p by auto
qed

section \<open>The resume hint\<close>

lemma is_uuid_like_ascii: "is_uuid_like s \<Longrightarrow> length s = 36"
proof -
  assume u: "is_uuid_like s"
  have "c < 128" if "c \<in> set s" for c
  proof -
    from that obtain i where "i < length s" "s ! i = c"
      by (auto simp: in_set_conv_nth)
    then have "(i, c) \<in> set (enumerate 0 s)"
      by (auto simp: in_set_enumerate_eq)
    with u show ?thesis
      by (fastforce simp: is_uuid_like_def list_all_iff is_ascii_hexdigit_def split: if_splits)
  qed
  then have "as_bytes s = s"
    by (induction s) (simp_all add: as_bytes_def utf8_char_def)
  with u show "length s = 36"
    by (simp add: is_uuid_like_def str_len_def)
qed

lemma resume_window_SomeD:
  "resume_window ts = Some i \<Longrightarrow>
   \<exists>pre a b post. ts = pre @ a # b # i # post \<and> eq_ignore_ascii_case a (lit ''codex'') \<and>
     eq_ignore_ascii_case b (lit ''resume'') \<and> is_uuid_like i"
proof (induction ts rule: resume_window.induct)
  case (1 a b i' ts)
  show ?case
  proof (cases "eq_ignore_ascii_case a (lit ''codex'') \<and> eq_ignore_ascii_case b (lit ''resume'') \<and> is_uuid_like i'")
    case True
    with "1.prems" show ?thesis
      by (intro exI [of _ "[]"] exI [of _ a] exI [of _ b] exI [of _ ts]) (simp del: lit_simps)
  next
    case False
    with 1 obtain pre x y post where "b # i' # ts = pre @ x # y # i # post"
      and "eq_ignore_ascii_case x (lit ''codex'')" "eq_ignore_ascii_case y (lit ''resume'')" "is_uuid_like i"
      by (auto simp del: lit_simps)
    then show ?thesis
      by (intro exI [of _ "a # pre"] exI [of _ x] exI [of _ y] exI [of _ post]) (simp del: lit_simps)
  qed
qed simp_all

section \<open>A concrete emulator\<close>

text \<open>A fixed frame with a cursor, the input of the examples below.\<close>

definition sheet_vt :: "(cell list list \<times> nat \<times> nat, unit) vt" where
  "sheet_vt =
     \<lparr>vt_new = (\<lambda>_ _ _. Inr ([], 0, 0)), vt_write = (\<lambda>_ t. (t, [])), vt_resize = (\<lambda>_ _ t. Inr t),
      vt_bracketed_paste = (\<lambda>_. Some False), vt_sync_output = (\<lambda>_. Some False),
      vt_set_sync_output = (\<lambda>_ t. Inr t), vt_serialize = (\<lambda>_. Inr []), vt_title = (\<lambda>_. None),
      vt_cursor_x = (\<lambda>(_, x, _). Some x), vt_cursor_y = (\<lambda>(_, _, y). Some y),
      vt_cursor_visible = (\<lambda>_. None), vt_grid = (\<lambda>(grid, _, _). Inr grid)\<rparr>"

definition sheet :: "cell list list \<Rightarrow> nat \<Rightarrow> nat \<Rightarrow> (cell list list \<times> nat \<times> nat) headless_terminal" where
  "sheet grid x y =
     \<lparr>ht_terminal = (grid, x, y), ht_pty_writes = [], ht_progress = scanner_new, ht_rows = length grid,
      ht_cols = 80, ht_warned = False\<rparr>"

definition glyph :: "bool \<Rightarrow> string \<Rightarrow> cell" where
  "glyph dim s = \<lparr>wide = Narrow, graphemes = lit s, faint = dim\<rparr>"

definition suggestion_grid :: "cell list list" where
  "suggestion_grid = [[glyph False ''>'', glyph False '' '', glyph True ''a'', glyph True '' '', glyph True ''b'']]"

abbreviation suggestion_sheet :: "(cell list list \<times> nat \<times> nat) headless_terminal" where
  "suggestion_sheet \<equiv> sheet suggestion_grid 2 0"

text \<open>A suggestion whose gap is a painted space is recognised; the same frame with a cell the provider
  skipped over is not, because the row is searched by text without the skipped cell while the
  classifier's line has a space for it.\<close>

lemma skipped_cell_hides_suggestion:
  "fst (ht_composer_state sheet_vt (\<lambda>x. [x]) prompt_detection prompt_classifier suggestion_sheet) = Inr SuggestionOnly"
  "fst (ht_composer_state sheet_vt (\<lambda>x. [x]) prompt_detection prompt_classifier
     (sheet [[glyph False ''>'', glyph False '' '', glyph True ''a'', glyph True [], glyph True ''b'']] 2 0)) =
   Inr Unknown"
  by code_simp+

section \<open>Properties\<close>

text \<open>C19: The footer the classifier reads is exactly the last \<open>n\<close> non-blank rows of the frame, top to bottom,
  each with its white space collapsed; with blank boundaries kept, it is the same rows with one empty
  line wherever blank rows stood between two of them, and none at either end. An emulator error is
  passed on.\<close>

theorem visible_footer_last_rows:
  "visible_footer_lines v n h =
     map_sum id (\<lambda>grid. let rs = nonblank_rows (map (\<lambda>row. join [32] (split_whitespace (render_row row))) grid)
                       in drop (length rs - n) rs)
       (vt_grid v (ht_terminal h)) \<and>
   visible_footer_lines_with_blank_boundaries v n h =
     map_sum id (\<lambda>grid. squeeze (keep_last n (map (\<lambda>row. join [32] (split_whitespace (render_row row))) grid)))
       (vt_grid v (ht_terminal h))"
  by (simp add: visible_footer_lines_def visible_footer_lines_with_blank_boundaries_def visible_footer_eq
      normalize_row_text_join footer_spec_def keep_last_nonblank Let_def)

text \<open>C20: A frame proves that nobody typed at the composer only when it is quiet, draws a composer row,
  and that row either holds no text at all or is a suggestion of Claude's: the cursor stands on the
  first cell after the prompt and its separator, something is drawn from there on, and every
  non-blank cell of it is faint.\<close>

theorem nothing_typed_sound:
  assumes "ht_composer_state v lc d c h = (Inr s, c')" and "proves_nothing_typed s"
    and "vt_grid v (ht_terminal h) = Inr grid" and "length grid \<le> 65535"
  shows "\<exists>rules lines i. rules_of lc d c = (Some rules, c') \<and>
    visible_footer_lines v (rd_status_rows rules) h = Inr lines \<and> composer_index lines rules = Some i \<and>
    \<not> fst (frame_is_busy_or_waiting lc d c' lines) \<and>
    (composer_text (lines ! i) rules = [] \<or>
     cl_provider c = Some Claude \<and>
     (\<exists>y < length grid. \<exists>cs start. cs = map composer_cell_of (grid ! y) \<and>
        start = composer_start cs (pglyphs rules ComposerPrompts) \<and>
        normalize_row_text (cells_text cs) = lines ! i \<and>
        vt_cursor_x v (ht_terminal h) = Some start \<and> unwrap_or (vt_cursor_y v (ht_terminal h)) 0 = y \<and>
        list_ex (\<lambda>c. \<not> cell_is_blank c) (drop start cs) \<and>
        list_all (\<lambda>c. \<not> cell_is_blank c \<longrightarrow> cc_faint c) (drop start cs)))"
proof -
  obtain rules lines i where st: "rules_of lc d c = (Some rules, c')" "rules_of lc d c' = (Some rules, c')"
    "visible_footer_lines v (rd_status_rows rules) h = Inr lines" "composer_index lines rules = Some i"
    "\<not> fst (frame_is_busy_or_waiting lc d c' lines)"
    and s: "s = Empty \<and> composer_text (lines ! i) rules = [] \<or>
      s = SuggestionOnly \<and> cl_provider c = Some Claude \<and>
      (\<exists>row. composer_row_for_line v lc d (lines ! i) c' h = (Inr (Some row), c') \<and>
        all_faint row \<and> cursor_at_start row)"
    using assms(1,2) by (rule ht_composer_stateE)
  show ?thesis
  proof (cases "composer_text (lines ! i) rules = []")
    case True
    with st show ?thesis by blast
  next
    case False
    with s obtain row where "cl_provider c = Some Claude" and faint: "all_faint row" "cursor_at_start row"
      and row: "composer_row_for_line v lc d (lines ! i) c' h = (Inr (Some row), c')"
      by blast
    obtain y where y: "y < length grid"
      and m: "row_matches (lines ! i) (pglyphs rules ComposerPrompts) (map composer_cell_of (grid ! y))"
      and eq: "row = composer_row_from_cells (map composer_cell_of (grid ! y)) (pglyphs rules ComposerPrompts)
        (if unwrap_or (vt_cursor_y v (ht_terminal h)) 0 = y
         then Some (unwrap_or (vt_cursor_x v (ht_terminal h)) 0) else None)"
      using row st(2) assms(3,4) by (rule composer_row_for_lineE)
    note suggestion = composer_row_suggestion [OF faint [unfolded eq]]
    have "0 < composer_start (map composer_cell_of (grid ! y)) (pglyphs rules ComposerPrompts)"
      by (simp add: composer_start_def Let_def)
    with suggestion(1) have "unwrap_or (vt_cursor_y v (ht_terminal h)) 0 = y"
      and "vt_cursor_x v (ht_terminal h) =
        Some (composer_start (map composer_cell_of (grid ! y)) (pglyphs rules ComposerPrompts))"
      by (auto simp: unwrap_or_def split: if_splits option.splits)
    with st y m suggestion(2,3) \<open>cl_provider c = Some Claude\<close> show ?thesis
      unfolding row_matches_def by blast
  qed
qed

theorem nothing_typed_sound_witness:
  "\<exists>rules lines i. visible_footer_lines sheet_vt (rd_status_rows rules) suggestion_sheet = Inr lines \<and>
     composer_index lines rules = Some i \<and>
     \<not> fst (frame_is_busy_or_waiting (\<lambda>x. [x]) prompt_detection prompt_classifier lines)"
proof -
  have eval: "ht_composer_state sheet_vt (\<lambda>x. [x]) prompt_detection prompt_classifier suggestion_sheet =
      (Inr SuggestionOnly, prompt_classifier)" "proves_nothing_typed SuggestionOnly"
    by code_simp+
  have grid: "vt_grid sheet_vt (ht_terminal suggestion_sheet) = Inr suggestion_grid" "length suggestion_grid \<le> 65535"
    by code_simp+
  from nothing_typed_sound [OF eval grid] show ?thesis
    by blast
qed

end
