(* ===== verification/Draft_Bytes.thy ===== *)
theory Draft_Bytes
  imports Prelude
begin

text \<open>
  Which producer-declared draft bytes can put text at a composer (\<^verbatim>\<open>daemon/src/draft_bytes.rs\<close>). The
  count is a loop over the bytes of one write; here it recurses on the bytes not yet consumed. The
  properties say what counts (typed text and pastes, exactly) and what never does (navigation keys,
  chords, mouse reports and terminal replies).
\<close>

section \<open>The byte classifier\<close>

definition CONTENT_CAPABLE_SEQUENCE_FINALS :: "byte list" where
  "CONTENT_CAPABLE_SEQUENCE_FINALS = [65, 66]"

definition ESC :: byte where "ESC = 27"

definition BEL :: byte where "BEL = 7"

definition DEL :: byte where "DEL = 127"

definition PASTE_START :: "byte list" where
  "PASTE_START = [27, 91, 50, 48, 48, 126]"

definition PASTE_END :: "byte list" where
  "PASTE_END = [27, 91, 50, 48, 49, 126]"

definition X10_MOUSE_REPORT_LEN :: nat where
  "X10_MOUSE_REPORT_LEN = 6"

definition STRING_ESCAPE_INTRODUCERS :: "byte list" where
  "STRING_ESCAPE_INTRODUCERS = [80, 93, 88, 94, 95]"

definition is_inert_control :: "byte \<Rightarrow> bool" where
  "is_inert_control b \<longleftrightarrow>
     b \<le> 8 \<or> b = 11 \<or> b = 12 \<or> b = 21 \<or> b = 23 \<or> b = 26 \<or> (28 \<le> b \<and> b \<le> 31) \<or> b = DEL"

fun string_escape_scan :: "nat \<Rightarrow> byte list \<Rightarrow> nat option" where
  "string_escape_scan index [] = None"
| "string_escape_scan index (b # bs) =
     (if b = BEL then Some (index + 1)
      else if b = ESC then (case bs of c # _ \<Rightarrow> if c = 92 then Some (index + 2) else None | [] \<Rightarrow> None)
      else string_escape_scan (index + 1) bs)"

definition string_escape_len :: "byte list \<Rightarrow> nat option" where
  "string_escape_len data = string_escape_scan 2 (drop 2 data)"

definition escape_sequence :: "byte list \<Rightarrow> nat \<times> bool" where
  "escape_sequence data =
     (case get data 1 of
        None \<Rightarrow> (1, False)
      | Some b \<Rightarrow>
          if b = 91 then
            (case map_option (\<lambda>offset. offset + 2) (position (\<lambda>x. 64 \<le> x \<and> x \<le> 126) (drop 2 data)) of
               Some i \<Rightarrow>
                 if i = 2 \<and> data ! 2 = 77 then (min X10_MOUSE_REPORT_LEN (length data), False)
                 else (i + 1, List.member CONTENT_CAPABLE_SEQUENCE_FINALS (data ! i))
             | None \<Rightarrow> (length data, False))
          else if b = 79 then
            (case get data 2 of
               Some f \<Rightarrow> (3, List.member CONTENT_CAPABLE_SEQUENCE_FINALS f)
             | None \<Rightarrow> (length data, False))
          else if List.member STRING_ESCAPE_INTRODUCERS b then
            (case string_escape_len data of Some n \<Rightarrow> (n, False) | None \<Rightarrow> (2, False))
          else (2, False))"

definition find_window :: "byte list \<Rightarrow> byte list \<Rightarrow> nat option" where
  "find_window needle data =
     position (\<lambda>i. take (length needle) (drop i data) = needle)
       [0..<(if length needle \<le> length data then length data - length needle + 1 else 0)]"

lemma string_escape_scan_ge: "string_escape_scan index bs = Some n \<Longrightarrow> index < n"
  by (induction index bs rule: string_escape_scan.induct) (auto split: if_splits list.splits)

lemma escape_sequence_pos: "data \<noteq> [] \<Longrightarrow> 0 < fst (escape_sequence data)"
  by (auto simp: escape_sequence_def string_escape_len_def X10_MOUSE_REPORT_LEN_def split: option.splits
      dest: string_escape_scan_ge)

function draft_content_byte_count :: "byte list \<Rightarrow> nat" where
  "draft_content_byte_count data =
     (if data = [] then 0
      else if take (length PASTE_START) data = PASTE_START then
        (let payload = drop (length PASTE_START) data;
             paste_end = (case find_window PASTE_END payload of Some i \<Rightarrow> i | None \<Rightarrow> length payload)
         in paste_end + draft_content_byte_count (drop (paste_end + length PASTE_END) payload))
      else if hd data = ESC then
        (let (consumed, content_capable) = escape_sequence data
         in (if content_capable then consumed else 0) + draft_content_byte_count (drop consumed data))
      else (if is_inert_control (hd data) then 0 else 1) + draft_content_byte_count (tl data))"
  by pat_completeness auto
termination
proof (relation "measure length", goal_cases)
  case (3 data x consumed content_capable)
  then have "0 < consumed"
    using escape_sequence_pos [of data] by (simp add: prod_eq_iff)
  with 3 show ?case
    by simp
qed (auto simp: PASTE_START_def)

declare draft_content_byte_count.simps [simp del]

section \<open>One step of the loop\<close>

lemma count_Nil [simp]: "draft_content_byte_count [] = 0"
  by (simp add: draft_content_byte_count.simps)

lemma count_plain:
  assumes "b \<noteq> ESC"
  shows "draft_content_byte_count (b # bs) =
     (if is_inert_control b then 0 else 1) + draft_content_byte_count bs"
  using assms by (subst draft_content_byte_count.simps) (simp add: PASTE_START_def ESC_def)

lemma count_escape:
  assumes "take (length PASTE_START) (ESC # bs) \<noteq> PASTE_START"
    and "escape_sequence (ESC # bs) = (consumed, capable)"
  shows "draft_content_byte_count (ESC # bs) =
     (if capable then consumed else 0) + draft_content_byte_count (drop consumed (ESC # bs))"
  using assms by (subst draft_content_byte_count.simps) simp

lemma count_text:
  "ESC \<notin> set s \<Longrightarrow>
   draft_content_byte_count (s @ rest) =
     length (filter (\<lambda>b. \<not> is_inert_control b) s) + draft_content_byte_count rest"
  by (induction s) (auto simp: count_plain)

section \<open>Pastes\<close>

lemma position_upt:
  "position p [0..<n] = Some k \<longleftrightarrow> k < n \<and> p k \<and> (\<forall>j < k. \<not> p j)"
proof
  assume "position p [0..<n] = Some k"
  from position_SomeD [OF this] show "k < n \<and> p k \<and> (\<forall>j < k. \<not> p j)"
    by auto
next
  assume k: "k < n \<and> p k \<and> (\<forall>j < k. \<not> p j)"
  then obtain i where i: "position p [0..<n] = Some i"
    by (cases "position p [0..<n]") auto
  from position_SomeD [OF i] k have "i = k"
    by (auto intro: linorder_cases [of i k])
  with i show "position p [0..<n] = Some k" by simp
qed

text \<open>The closing marker cannot overlap itself, so it is first found where it is first written.\<close>

lemma paste_end_first:
  assumes "\<And>i. take (length PASTE_END) (drop i payload) \<noteq> PASTE_END" and "ESC \<notin> set (tl PASTE_END)"
    and "j < length payload"
  shows "take (length PASTE_END) (drop j (payload @ PASTE_END @ rest)) \<noteq> PASTE_END"
proof (cases "j + length PASTE_END \<le> length payload")
  case True
  with assms(1) [of j] show ?thesis
    by simp
next
  case False
  let ?k = "length payload - j"
  have k: "0 < ?k" "?k < length PASTE_END"
    using False assms(3) by auto
  show ?thesis
  proof
    assume eq: "take (length PASTE_END) (drop j (payload @ PASTE_END @ rest)) = PASTE_END"
    have "PASTE_END ! ?k = (payload @ PASTE_END @ rest) ! (j + ?k)"
      using k by (subst eq [symmetric]) (auto simp: nth_append)
    also have "\<dots> = ESC"
      using assms(3) by (simp add: nth_append PASTE_END_def ESC_def)
    finally have esc: "PASTE_END ! ?k = ESC" .
    obtain n where n: "?k = Suc n"
      using k by (cases ?k) auto
    with k have "n < length (tl PASTE_END)"
      by simp
    with esc n have "ESC \<in> set (tl PASTE_END)"
      using nth_mem [of n "tl PASTE_END"] by (simp add: nth_tl)
    with assms(2) show False by simp
  qed
qed

lemma find_paste_end:
  assumes "\<And>i. take (length PASTE_END) (drop i payload) \<noteq> PASTE_END"
  shows "find_window PASTE_END (payload @ PASTE_END @ rest) = Some (length payload)"
proof -
  have "ESC \<notin> set (tl PASTE_END)"
    by (simp add: PASTE_END_def ESC_def)
  from paste_end_first [OF assms this] show ?thesis
    by (simp add: find_window_def position_upt del: upt_Suc)
qed

section \<open>Silent input\<close>

text \<open>
  What terminals and people send that puts nothing at a composer: the inert controls, CSI sequences
  other than cursor up and down (and other than the paste marker), X10 mouse reports, SS3 keys other
  than up and down, terminated string replies, and Alt chords.
\<close>

inductive silent :: "byte list \<Rightarrow> bool" where
  control: "is_inert_control b \<Longrightarrow> silent [b]"
| csi: "\<lbrakk>list_all (\<lambda>x. \<not> (64 \<le> x \<and> x \<le> 126)) params; 64 \<le> f; f \<le> 126; f \<noteq> 65; f \<noteq> 66;
    \<not> (params = [] \<and> f = 77); \<not> (params = [50, 48, 48] \<and> f = 126)\<rbrakk>
    \<Longrightarrow> silent (ESC # 91 # params @ [f])"
| mouse: "silent [ESC, 91, 77, x, y, z]"
| ss3: "\<lbrakk>f \<noteq> 65; f \<noteq> 66\<rbrakk> \<Longrightarrow> silent [ESC, 79, f]"
| reply: "\<lbrakk>i \<in> set STRING_ESCAPE_INTRODUCERS; BEL \<notin> set payload; ESC \<notin> set payload;
    terminator = [BEL] \<or> terminator = [ESC, 92]\<rbrakk> \<Longrightarrow> silent (ESC # i # payload @ terminator)"
| chord: "\<lbrakk>c \<noteq> 91; c \<noteq> 79; c \<notin> set STRING_ESCAPE_INTRODUCERS\<rbrakk> \<Longrightarrow> silent [ESC, c]"

lemma paste_start_ne: "PASTE_START \<noteq> []"
  by (simp add: PASTE_START_def)

lemma take_paste_start_iff:
  "take (length PASTE_START) (ESC # b # bs) = PASTE_START \<longleftrightarrow> b = 91 \<and> take 4 bs = [50, 48, 48, 126]"
  by (auto simp: PASTE_START_def ESC_def numeral_eq_Suc)

lemma csi_final_position:
  assumes "list_all (\<lambda>x. \<not> p x) params" and "p f"
  shows "position p (params @ f # rest) = Some (length params)"
  using assms by (induction params) auto

lemma csi_not_paste:
  assumes "list_all (\<lambda>x. \<not> (64 \<le> x \<and> x \<le> (126 :: nat))) params" and "64 \<le> f" and "f \<le> 126"
    and "take 4 (params @ f # rest) = [50, 48, 48, 126]"
  shows "params = [50, 48, 48] \<and> f = 126"
  using assms by (cases params; cases "tl params"; cases "tl (tl params)"; cases "tl (tl (tl params))")
    (auto simp: numeral_eq_Suc)

lemma string_escape_scan_payload:
  assumes "BEL \<notin> set payload" and "ESC \<notin> set payload"
  shows "string_escape_scan index (payload @ BEL # rest) = Some (index + length payload + 1)"
    and "string_escape_scan index (payload @ ESC # 92 # rest) = Some (index + length payload + 2)"
  using assms by (induction payload arbitrary: index) (auto simp: BEL_def ESC_def)

lemma silent_count: "silent k \<Longrightarrow> draft_content_byte_count (k @ rest) = draft_content_byte_count rest"
proof (induction rule: silent.induct)
  case (control b)
  then have "b \<noteq> ESC"
    by (auto simp: is_inert_control_def ESC_def DEL_def)
  with control show ?case
    by (simp add: count_plain)
next
  case (csi params f)
  then have "take 4 (params @ f # rest) \<noteq> [50, 48, 48, 126]"
    using csi_not_paste by blast
  moreover have "escape_sequence (ESC # 91 # params @ f # rest) = (length params + 3, False)"
    using csi csi_final_position [of "\<lambda>x. 64 \<le> x \<and> x \<le> 126" params f rest]
    by (auto simp: escape_sequence_def get_def CONTENT_CAPABLE_SEQUENCE_FINALS_def nth_append nth_Cons')
  moreover have "drop (length params + 3) (ESC # 91 # params @ f # rest) = rest"
    by (simp add: numeral_eq_Suc)
  ultimately show ?case
    by (simp add: count_escape take_paste_start_iff)
next
  case (mouse x y z)
  have "escape_sequence (ESC # 91 # 77 # x # y # z # rest) = (6, False)"
    by (simp add: escape_sequence_def get_def X10_MOUSE_REPORT_LEN_def)
  from count_escape [OF _ this] show ?case
    by (simp add: take_paste_start_iff)
next
  case (reply i payload terminator)
  then have "escape_sequence (ESC # i # payload @ terminator @ rest) = (length payload + length terminator + 2, False)"
    by (auto simp: escape_sequence_def get_def string_escape_len_def string_escape_scan_payload
        STRING_ESCAPE_INTRODUCERS_def)
  moreover have "i \<noteq> 91"
    using reply by (auto simp: STRING_ESCAPE_INTRODUCERS_def)
  ultimately show ?case
    by (simp add: count_escape take_paste_start_iff)
qed (auto simp: count_escape take_paste_start_iff escape_sequence_def get_def
    CONTENT_CAPABLE_SEQUENCE_FINALS_def)

section \<open>Properties\<close>



text \<open>Text that could sit unsent at a composer is counted, and exactly: each typed byte that is not an
  inert control once, and every byte of a bracketed paste, whatever it contains, between its markers.\<close>

theorem typed_and_pasted_counted:
  assumes "ESC \<notin> set typed" and "\<forall>i. take (length PASTE_END) (drop i payload) \<noteq> PASTE_END"
  shows "draft_content_byte_count (typed @ PASTE_START @ payload @ PASTE_END @ rest) =
     length (filter (\<lambda>b. \<not> is_inert_control b) typed) + length payload + draft_content_byte_count rest"
proof -
  have "draft_content_byte_count (PASTE_START @ payload @ PASTE_END @ rest) =
      length payload + draft_content_byte_count rest"
    using find_paste_end [of payload rest, OF spec [OF assms(2)]]
    by (subst draft_content_byte_count.simps) (simp add: Let_def paste_start_ne)
  with count_text [OF assms(1)] show ?thesis
    by simp
qed

theorem typed_and_pasted_counted_witness:
  "draft_content_byte_count ([104, 8, 105] @ PASTE_START @ [13, 27, 91, 65] @ PASTE_END @ []) = 6"
proof -
  have "take (length PASTE_END) (drop i [13, 27, 91, 65]) \<noteq> PASTE_END" for i
  proof
    assume "take (length PASTE_END) (drop i [13, 27, 91, 65]) = PASTE_END"
    from arg_cong [OF this, of length] show False
      by (simp add: PASTE_END_def)
  qed
  then show ?thesis
    using typed_and_pasted_counted [of "[104, 8, 105]" "[13, 27, 91, 65]" "[]"]
    by (simp add: ESC_def is_inert_control_def DEL_def)
qed

text \<open>A string reply whose payload carries an escape other than the terminator is not recognised: the
  scan gives up at that escape, and the payload is counted as typed.\<close>

lemma reply_with_inner_escape_counts:
  "string_escape_len [ESC, 93, 49, ESC, 91, BEL] = None"
  "draft_content_byte_count [ESC, 93, 49, ESC, 98, 50, BEL] = 2"
  by code_simp+

end
