(* ===== verification/Session_Input.thy ===== *)
theory Session_Input
  imports Headless_Terminal Draft_Bytes
begin

text \<open>
  The input side of a daemon session (\<^verbatim>\<open>session.rs\<close> and the writer half of \<^verbatim>\<open>stream_output\<close> in
  \<^verbatim>\<open>output.rs\<close>): the bytes one delivered message puts on the PTY, the queue and the writer that
  drains it, and the ledger that says whether text at the composer was typed.

  An \<open>inbox\<close> is the part of a session handle the input operations touch. The channel is a list
  with a flag for a dropped receiver; a poisoned coordination lock is a flag. An acknowledgement
  channel is its number. Counters are natural numbers, except the ledger, whose \<^verbatim>\<open>saturating_add\<close>
  is kept.
\<close>

section \<open>Messages\<close>

definition LOGICAL_INPUT_SUBMIT_DELAY_MS :: nat where
  "LOGICAL_INPUT_SUBMIT_DELAY_MS = 150"

definition BRACKETED_PASTE_BEGIN :: "byte list" where
  "BRACKETED_PASTE_BEGIN = 27 # lit ''[200~''"

definition BRACKETED_PASTE_END :: "byte list" where
  "BRACKETED_PASTE_END = 27 # lit ''[201~''"

definition PASTE_FRAMING_MIN_LEN :: nat where
  "PASTE_FRAMING_MIN_LEN = 256"

definition logical_message_bytes :: "byte list \<Rightarrow> bool \<Rightarrow> byte list" where
  "logical_message_bytes data bracketed =
     (if data = [] then [13]
      else if \<not> bracketed \<or> (\<not> list_ex (\<lambda>b. b = 13 \<or> b = 10) data \<and> length data < PASTE_FRAMING_MIN_LEN)
      then data @ [13]
      else BRACKETED_PASTE_BEGIN @ data @ BRACKETED_PASTE_END @ [13])"

datatype pending_input_kind = RawPending | LogicalPending

datatype raw_input_kind = Draft | Submission | Control

record pending_input =
  pi_data :: "byte list"
  pi_kind :: pending_input_kind
  declared_draft :: bool
  written :: "nat option"

definition pending_raw :: "byte list \<Rightarrow> nat option \<Rightarrow> pending_input" where
  "pending_raw data ack = \<lparr>pi_data = data, pi_kind = RawPending, declared_draft = False, written = ack\<rparr>"

definition pending_raw_draft :: "byte list \<Rightarrow> nat option \<Rightarrow> pending_input" where
  "pending_raw_draft data ack = \<lparr>pi_data = data, pi_kind = RawPending, declared_draft = True, written = ack\<rparr>"

definition pending_logical :: "byte list \<Rightarrow> nat option \<Rightarrow> bool \<Rightarrow> pending_input" where
  "pending_logical data ack bracketed =
     \<lparr>pi_data = logical_message_bytes data bracketed, pi_kind = LogicalPending, declared_draft = False,
      written = ack\<rparr>"

datatype input_queue_error = Closed | CoordinationUnavailable

section \<open>The ledger\<close>

datatype composer_attestation = Typed | NotTyped | AttestationUnknown

record input_coordination =
  draft_active :: bool
  draft_state_known :: bool
  typed_draft_bytes :: "nat option"
  draft_writes_enqueued :: nat
  draft_writes_completed :: nat
  chunks_at_last_draft_write :: nat

definition coordination_from_record :: "bool \<Rightarrow> bool \<Rightarrow> nat option \<Rightarrow> input_coordination" where
  "coordination_from_record act known typed =
     \<lparr>draft_active = act, draft_state_known = known, typed_draft_bytes = typed,
      draft_writes_enqueued = 0, draft_writes_completed = 0, chunks_at_last_draft_write = 0\<rparr>"

definition coordination_attestation :: "input_coordination \<Rightarrow> composer_attestation" where
  "coordination_attestation s =
     (if \<not> draft_state_known s then AttestationUnknown
      else (case typed_draft_bytes s of
              None \<Rightarrow> AttestationUnknown
            | Some n \<Rightarrow> if n = 0 then NotTyped else Typed))"

definition coordination_unresolved :: "input_coordination \<Rightarrow> bool" where
  "coordination_unresolved s \<longleftrightarrow> \<not> draft_state_known s \<or> draft_active s"

record inbox =
  in_coordination :: input_coordination
  in_queue :: "pending_input list"
  in_open :: bool
  in_poisoned :: bool
  mirrored_chunks :: nat
  in_bracketed :: bool

definition inbox_new :: "bool \<Rightarrow> bool \<Rightarrow> nat option \<Rightarrow> byte list list \<Rightarrow> bool \<Rightarrow> inbox" where
  "inbox_new act known typed pending_logical_inputs bracketed =
     \<lparr>in_coordination = coordination_from_record act known typed,
      in_queue = map (\<lambda>data. pending_logical data None bracketed) pending_logical_inputs,
      in_open = True, in_poisoned = False, mirrored_chunks = 0, in_bracketed = bracketed\<rparr>"

definition send :: "pending_input \<Rightarrow> inbox \<Rightarrow> (input_queue_error + unit) \<times> inbox" where
  "send item b = (if in_open b then (Inr (), b\<lparr>in_queue := in_queue b @ [item]\<rparr>) else (Inl Closed, b))"

definition enqueue_terminal_reply :: "byte list \<Rightarrow> inbox \<Rightarrow> (input_queue_error + unit) \<times> inbox" where
  "enqueue_terminal_reply data b = send (pending_raw data None) b"

definition route_raw ::
  "byte list \<Rightarrow> raw_input_kind \<Rightarrow> nat option \<Rightarrow> input_coordination \<Rightarrow> pending_input \<times> input_coordination" where
  "route_raw data kind ack s =
     (case kind of
        Submission \<Rightarrow>
          (pending_raw data ack,
           s\<lparr>draft_active := False, draft_state_known := True, typed_draft_bytes := Some 0\<rparr>)
      | Draft \<Rightarrow>
          (let content_bytes = draft_content_byte_count data
           in if content_bytes = 0 then (pending_raw data ack, s)
              else
                (pending_raw_draft data ack,
                 s\<lparr>draft_active := True, draft_state_known := True,
                   draft_writes_enqueued := draft_writes_enqueued s + 1,
                   typed_draft_bytes := map_option (\<lambda>typed. sat_add u64_max typed content_bytes) (typed_draft_bytes s)\<rparr>))
      | Control \<Rightarrow> (pending_raw data ack, s))"

definition enqueue_raw_input_with_ack ::
  "byte list \<Rightarrow> raw_input_kind \<Rightarrow> nat option \<Rightarrow> inbox \<Rightarrow> (input_queue_error + unit) \<times> inbox" where
  "enqueue_raw_input_with_ack data kind ack b =
     (if in_poisoned b then (Inl CoordinationUnavailable, b)
      else (case route_raw data kind ack (in_coordination b) of
              (routed, s) \<Rightarrow> send routed (b\<lparr>in_coordination := s\<rparr>)))"

definition enqueue_raw_input ::
  "byte list \<Rightarrow> raw_input_kind \<Rightarrow> inbox \<Rightarrow> (input_queue_error + unit) \<times> inbox" where
  "enqueue_raw_input data kind b = enqueue_raw_input_with_ack data kind None b"

definition enqueue_acknowledged_raw_input ::
  "byte list \<Rightarrow> raw_input_kind \<Rightarrow> nat \<Rightarrow> inbox \<Rightarrow> (input_queue_error + nat) \<times> inbox" where
  "enqueue_acknowledged_raw_input data kind ack b =
     (case enqueue_raw_input_with_ack data kind (Some ack) b of (r, b') \<Rightarrow> (map_sum id (\<lambda>_. ack) r, b'))"

definition enqueue_logical_input :: "byte list \<Rightarrow> nat \<Rightarrow> inbox \<Rightarrow> (input_queue_error + nat) \<times> inbox" where
  "enqueue_logical_input data ack b =
     (case send (pending_logical data (Some ack) (in_bracketed b)) b of (r, b') \<Rightarrow> (map_sum id (\<lambda>_. ack) r, b'))"

definition complete_declared_draft_write :: "inbox \<Rightarrow> (input_queue_error + unit) \<times> inbox" where
  "complete_declared_draft_write b =
     (if in_poisoned b then (Inl CoordinationUnavailable, b)
      else
        (let s = in_coordination b
         in (Inr (), b\<lparr>in_coordination := s\<lparr>draft_writes_completed := draft_writes_completed s + 1,
                        chunks_at_last_draft_write := mirrored_chunks b\<rparr>\<rparr>)))"

definition composer_attestation_of :: "inbox \<Rightarrow> composer_attestation" where
  "composer_attestation_of b =
     (if in_poisoned b then AttestationUnknown else coordination_attestation (in_coordination b))"

definition attestation_unresolved :: "inbox \<Rightarrow> bool" where
  "attestation_unresolved b = (if in_poisoned b then False else coordination_unresolved (in_coordination b))"

definition input_coordination_requires_v3 :: "inbox \<Rightarrow> input_queue_error + bool" where
  "input_coordination_requires_v3 b =
     (if in_poisoned b then Inl CoordinationUnavailable else Inr (draft_active (in_coordination b)))"

text \<open>
  \<^verbatim>\<open>attest_empty_composer\<close> in the three critical sections it takes: the test and the sample of the
  chunk counter, the reading of the frame, and the update of the ledger. The first returns the
  sample when there is something to resolve; the frame's answer is the argument of the last.
\<close>

definition attest_sample :: "inbox \<Rightarrow> nat option" where
  "attest_sample b = (if attestation_unresolved b then Some (mirrored_chunks b) else None)"

definition attest_commit :: "nat \<Rightarrow> composer_state \<Rightarrow> inbox \<Rightarrow> (input_queue_error + bool) \<times> inbox" where
  "attest_commit before_read composer b =
     (if \<not> proves_nothing_typed composer then (Inr False, b)
      else if in_poisoned b then (Inl CoordinationUnavailable, b)
      else
        (let s = in_coordination b
         in if draft_state_known s \<and>
               (\<not> draft_active s \<or> draft_writes_completed s \<noteq> draft_writes_enqueued s \<or>
                \<not> chunks_at_last_draft_write s < before_read)
            then (Inr False, b)
            else (Inr True, b\<lparr>in_coordination := s\<lparr>draft_state_known := True, draft_active := False,
                               typed_draft_bytes := Some 0\<rparr>\<rparr>)))"

section \<open>The writer\<close>

text \<open>The local state of the stream task's input half, with the bytes it has put on the PTY and the
  acknowledgements it has sent.\<close>

record input_writer =
  wr_pending :: "pending_input list"
  wr_offset :: nat
  submit_pause :: "nat option"
  wr_out :: "byte list"
  wr_acks :: "nat list"

definition writer_new :: input_writer where
  "writer_new = \<lparr>wr_pending = [], wr_offset = 0, submit_pause = None, wr_out = [], wr_acks = []\<rparr>"

definition acknowledge_written :: "pending_input \<Rightarrow> input_writer \<Rightarrow> input_writer" where
  "acknowledge_written item w =
     (case written item of None \<Rightarrow> w | Some ack \<Rightarrow> w\<lparr>wr_acks := wr_acks w @ [ack]\<rparr>)"

definition pause_after_submission :: "nat \<Rightarrow> nat" where
  "pause_after_submission now = now + LOGICAL_INPUT_SUBMIT_DELAY_MS"

definition pause_elapsed :: "nat \<Rightarrow> nat \<Rightarrow> bool" where
  "pause_elapsed deadline now \<longleftrightarrow> deadline \<le> now"

text \<open>One received input; also the body of the quiesce drain.\<close>

definition recv_input :: "pending_input \<Rightarrow> input_writer \<Rightarrow> input_writer" where
  "recv_input item w =
     (if pi_data item = [] \<and> pi_kind item = RawPending then acknowledge_written item w
      else w\<lparr>wr_pending := wr_pending w @ [item]\<rparr>)"

definition pause_tick :: "nat \<Rightarrow> input_writer \<Rightarrow> input_writer" where
  "pause_tick now w =
     (case submit_pause w of
        None \<Rightarrow> w
      | Some deadline \<Rightarrow> if pause_elapsed deadline now then w\<lparr>submit_pause := None\<rparr> else w)"

text \<open>One turn of the writable arm, \<open>n\<close> the count \<^verbatim>\<open>write(2)\<close> returned. The outcome is whether the
  loop goes on.\<close>

definition write_ready :: "nat \<Rightarrow> nat \<Rightarrow> input_writer \<Rightarrow> inbox \<Rightarrow> bool \<times> input_writer \<times> inbox" where
  "write_ready now n w b =
     (case wr_pending w of
        [] \<Rightarrow> (True, w, b)
      | front # rest \<Rightarrow>
          if n = 0 then (True, w, b)
          else
            (let sent = take n (drop (wr_offset w) (pi_data front));
                 w1 = w\<lparr>wr_out := wr_out w @ sent, wr_offset := wr_offset w + n\<rparr>
             in if length (pi_data front) \<le> wr_offset w1 then
                  (let w2 = w1\<lparr>wr_pending := rest, wr_offset := 0,
                               submit_pause := (if pi_kind front = LogicalPending
                                                then Some (pause_after_submission now) else submit_pause w1)\<rparr>
                   in if declared_draft front then
                        (case complete_declared_draft_write b of
                           (Inl _, b') \<Rightarrow> (False, w2, b')
                         | (Inr _, b') \<Rightarrow> (True, acknowledge_written front w2, b'))
                      else (True, acknowledge_written front w2, b))
                else (True, w1, b)))"

section \<open>Producers, writer, mirror and attestation interleaved\<close>

text \<open>
  The connection tasks enqueue while the stream task receives, writes, mirrors output and attests; any
  interleaving of their critical sections is a run. Besides the program's state a \<open>line_state\<close>
  records what the statements below speak of: every input the channel accepted, the content bytes
  declared since the last boundary (\<open>None\<close> while an inherited draft is uncounted), and the chunk count
  at the completion of every declared draft write. \<open>ln_frame\<close> is a running attestation: its sample,
  the number of chunks in the frame it read, and the frame's answer.
\<close>

record line_state =
  ln_inbox :: inbox
  ln_writer :: input_writer
  ln_running :: bool
  ln_sample :: "nat option"
  ln_frame :: "(nat \<times> nat \<times> composer_state) option"
  ln_accepted :: "pending_input list"
  ln_content :: "nat option"
  ln_marks :: "nat list"

definition line_init :: "bool \<Rightarrow> bool \<Rightarrow> nat option \<Rightarrow> byte list list \<Rightarrow> bool \<Rightarrow> line_state" where
  "line_init act known typed held bracketed =
     \<lparr>ln_inbox = inbox_new act known typed held bracketed, ln_writer = writer_new, ln_running = True,
      ln_sample = None, ln_frame = None,
      ln_accepted = in_queue (inbox_new act known typed held bracketed), ln_content = typed, ln_marks = []\<rparr>"

definition content_after :: "byte list \<Rightarrow> raw_input_kind \<Rightarrow> nat option \<Rightarrow> nat option" where
  "content_after data kind content =
     (case kind of
        Submission \<Rightarrow> Some 0
      | Draft \<Rightarrow> map_option (\<lambda>n. n + draft_content_byte_count data) content
      | Control \<Rightarrow> content)"

abbreviation queued :: "inbox \<Rightarrow> inbox \<Rightarrow> pending_input list" where
  "queued b b' \<equiv> drop (length (in_queue b)) (in_queue b')"

inductive line_step :: "line_state \<Rightarrow> line_state \<Rightarrow> bool" where
  raw: "enqueue_raw_input_with_ack data kind ack (ln_inbox s) = (r, b) \<Longrightarrow> \<not> in_poisoned (ln_inbox s) \<Longrightarrow>
    line_step s (s\<lparr>ln_inbox := b, ln_accepted := ln_accepted s @ queued (ln_inbox s) b,
                   ln_content := content_after data kind (ln_content s)\<rparr>)"
| raw_refused: "enqueue_raw_input_with_ack data kind ack (ln_inbox s) = (r, b) \<Longrightarrow> in_poisoned (ln_inbox s) \<Longrightarrow>
    line_step s (s\<lparr>ln_inbox := b\<rparr>)"
| logical: "enqueue_logical_input data ack (ln_inbox s) = (r, b) \<Longrightarrow>
    line_step s (s\<lparr>ln_inbox := b, ln_accepted := ln_accepted s @ queued (ln_inbox s) b\<rparr>)"
| reply: "enqueue_terminal_reply data (ln_inbox s) = (r, b) \<Longrightarrow>
    line_step s (s\<lparr>ln_inbox := b, ln_accepted := ln_accepted s @ queued (ln_inbox s) b\<rparr>)"
| recv: "ln_running s \<Longrightarrow> in_queue (ln_inbox s) = item # rest \<Longrightarrow>
    line_step s (s\<lparr>ln_inbox := (ln_inbox s)\<lparr>in_queue := rest\<rparr>, ln_writer := recv_input item (ln_writer s)\<rparr>)"
| pause: "line_step s (s\<lparr>ln_writer := pause_tick now (ln_writer s)\<rparr>)"
| pty_write: "ln_running s \<Longrightarrow> wr_pending (ln_writer s) = front # rest \<Longrightarrow> submit_pause (ln_writer s) = None \<Longrightarrow>
    n \<le> length (pi_data front) - wr_offset (ln_writer s) \<Longrightarrow>
    write_ready now n (ln_writer s) (ln_inbox s) = (cont, w, b) \<Longrightarrow>
    line_step s (s\<lparr>ln_inbox := b, ln_writer := w, ln_running := cont,
                   ln_marks := ln_marks s @ (if draft_writes_completed (in_coordination b) =
                       draft_writes_completed (in_coordination (ln_inbox s)) then [] else [mirrored_chunks b])\<rparr>)"
| mirror: "line_step s (s\<lparr>ln_inbox := (ln_inbox s)\<lparr>mirrored_chunks := mirrored_chunks (ln_inbox s) + 1,
                                                  in_bracketed := bracketed\<rparr>\<rparr>)"
| sample: "attest_sample (ln_inbox s) = Some k \<Longrightarrow> line_step s (s\<lparr>ln_sample := Some k\<rparr>)"
| read_frame: "ln_sample s = Some k \<Longrightarrow>
    line_step s (s\<lparr>ln_sample := None, ln_frame := Some (k, mirrored_chunks (ln_inbox s), composer)\<rparr>)"
| commit: "ln_frame s = Some (k, f, composer) \<Longrightarrow> attest_commit k composer (ln_inbox s) = (r, b) \<Longrightarrow>
    line_step s (s\<lparr>ln_inbox := b, ln_frame := None,
                   ln_content := (if r = Inr True then Some 0 else ln_content s)\<rparr>)"
| close_queue: "line_step s (s\<lparr>ln_inbox := (ln_inbox s)\<lparr>in_open := False\<rparr>\<rparr>)"
| poison: "line_step s (s\<lparr>ln_inbox := (ln_inbox s)\<lparr>in_poisoned := True\<rparr>\<rparr>)"

inductive line_reachable :: "line_state \<Rightarrow> bool" where
  start: "(case typed of None \<Rightarrow> True | Some n \<Rightarrow> n \<le> u64_max) \<Longrightarrow>
    line_reachable (line_init act known typed held bracketed)"
| more: "line_reachable s \<Longrightarrow> line_step s t \<Longrightarrow> line_reachable t"

text \<open>What an operation leaves of the queue.\<close>

lemma logical_message_enter:
  "logical_message_bytes data bracketed \<noteq> []" "last (logical_message_bytes data bracketed) = 13"
  by (simp_all add: logical_message_bytes_def)

lemma send_inbox:
  "send item b = (r, b') \<Longrightarrow>
   in_queue b' = in_queue b @ queued b b' \<and> (queued b b' = [] \<or> queued b b' = [item]) \<and>
   in_coordination b' = in_coordination b \<and> mirrored_chunks b' = mirrored_chunks b \<and> in_poisoned b' = in_poisoned b"
  by (auto simp: send_def split: if_splits)

lemma raw_inbox:
  assumes "enqueue_raw_input_with_ack data kind ack b = (r, b')" and "\<not> in_poisoned b"
  obtains routed s where "route_raw data kind ack (in_coordination b) = (routed, s)"
    and "in_coordination b' = s" and "in_queue b' = in_queue b @ queued b b'"
    and "queued b b' = [] \<or> queued b b' = [routed]" and "mirrored_chunks b' = mirrored_chunks b"
    and "in_poisoned b' = in_poisoned b"
  using assms send_inbox [of _ "b\<lparr>in_coordination := _\<rparr>"]
  by (cases "route_raw data kind ack (in_coordination b)")
    (fastforce simp: enqueue_raw_input_with_ack_def)

lemma write_ready_cases:
  assumes "wr_pending w = front # rest" and "wr_offset w < length (pi_data front)"
    and "n \<le> length (pi_data front) - wr_offset w" and "write_ready now n w b = (cont, w', b')"
  obtains (part) "wr_pending w' = front # rest" and "wr_offset w' = wr_offset w + n"
      and "wr_offset w' < length (pi_data front)" and "wr_out w' = wr_out w @ take n (drop (wr_offset w) (pi_data front))"
      and "wr_acks w' = wr_acks w" and "b' = b"
  | (whole) "wr_pending w' = rest" and "wr_offset w' = 0"
      and "wr_out w' = wr_out w @ drop (wr_offset w) (pi_data front)"
      and "wr_acks w' = wr_acks w \<or> (\<exists>a. written front = Some a \<and> wr_acks w' = wr_acks w @ [a])"
      and "b' = (if declared_draft front then snd (complete_declared_draft_write b) else b)"
proof (cases "n = 0 \<or> wr_offset w + n < length (pi_data front)")
  case True
  with assms show thesis
    by (intro part) (auto simp: write_ready_def Let_def split: if_splits)
next
  case False
  with assms(3) have "n = length (pi_data front) - wr_offset w" "n \<noteq> 0"
    by auto
  with assms show thesis
    by (intro whole) (auto simp: write_ready_def Let_def acknowledge_written_def split: if_splits sum.splits prod.splits option.splits)
qed

section \<open>Delivery\<close>

abbreviation nonempty_inputs :: "pending_input list \<Rightarrow> pending_input list" where
  "nonempty_inputs is \<equiv> filter (\<lambda>i. pi_data i \<noteq> []) is"

definition input_wf :: "pending_input \<Rightarrow> bool" where
  "input_wf i \<longleftrightarrow> (pi_kind i = LogicalPending \<longrightarrow> pi_data i \<noteq> [] \<and> last (pi_data i) = 13)"

text \<open>\<open>is\<close> are the inputs wholly on the PTY.\<close>

definition acknowledged :: "nat list \<Rightarrow> pending_input list \<Rightarrow> pending_input list \<Rightarrow> bool" where
  "acknowledged acks is acc \<longleftrightarrow>
     (\<forall>a \<in> set acks. \<exists>i. written i = Some a \<and> (i \<in> set is \<or> i \<in> set acc \<and> pi_data i = []))"

lemma acknowledged_mono:
  "acknowledged acks is acc \<Longrightarrow> set is \<subseteq> set is' \<Longrightarrow> set acc \<subseteq> set acc' \<Longrightarrow> acknowledged acks is' acc'"
  unfolding acknowledged_def by blast

lemma acknowledged_snoc:
  "acknowledged acks is acc \<Longrightarrow> written i = Some a \<Longrightarrow> i \<in> set is \<or> i \<in> set acc \<and> pi_data i = [] \<Longrightarrow>
   acknowledged (acks @ [a]) is acc"
  unfolding acknowledged_def by auto

definition delivered :: "pending_input list \<Rightarrow> line_state \<Rightarrow> bool" where
  "delivered is s \<longleftrightarrow>
     nonempty_inputs (ln_accepted s) = is @ wr_pending (ln_writer s) @ nonempty_inputs (in_queue (ln_inbox s)) \<and>
     wr_out (ln_writer s) =
       concat (map pi_data is) @ take (wr_offset (ln_writer s)) (concat (map pi_data (wr_pending (ln_writer s)))) \<and>
     acknowledged (wr_acks (ln_writer s)) is (ln_accepted s)"

definition delivery_inv :: "line_state \<Rightarrow> bool" where
  "delivery_inv s \<longleftrightarrow>
     (\<exists>is. delivered is s) \<and>
     (case wr_pending (ln_writer s) of
        [] \<Rightarrow> wr_offset (ln_writer s) = 0
      | front # _ \<Rightarrow> wr_offset (ln_writer s) < length (pi_data front)) \<and>
     list_all input_wf (ln_accepted s) \<and> set (in_queue (ln_inbox s)) \<subseteq> set (ln_accepted s)"

lemma pending_wf [simp]:
  "input_wf (pending_raw data ack)" "input_wf (pending_raw_draft data ack)"
  "input_wf (pending_logical data ack bracketed)"
  by (simp_all add: input_wf_def pending_raw_def pending_raw_draft_def pending_logical_def logical_message_enter)

lemma route_raw_wf: "route_raw data kind ack s = (routed, s') \<Longrightarrow> input_wf routed"
  by (auto simp: route_raw_def Let_def split: raw_input_kind.splits if_splits)

text \<open>An operation that only extends the queue, and one that touches neither queue nor writer.\<close>

lemma delivery_inv_extend:
  assumes "delivery_inv s" and "list_all input_wf new" and "in_queue b = in_queue (ln_inbox s) @ new"
    and "ln_inbox t = b" and "ln_accepted t = ln_accepted s @ new" and "ln_writer t = ln_writer s"
  shows "delivery_inv t"
proof -
  obtain "is" where "delivered is s"
    using assms(1) by (auto simp: delivery_inv_def)
  with assms have "delivered is t"
    by (auto simp: delivered_def intro: acknowledged_mono)
  with assms show ?thesis
    by (auto simp: delivery_inv_def list_all_iff split: list.splits)
qed

lemma delivery_inv_same:
  assumes "delivery_inv s" and "in_queue (ln_inbox t) = in_queue (ln_inbox s)"
    and "ln_accepted t = ln_accepted s" and "wr_pending (ln_writer t) = wr_pending (ln_writer s)"
    and "wr_offset (ln_writer t) = wr_offset (ln_writer s)" and "wr_out (ln_writer t) = wr_out (ln_writer s)"
    and "wr_acks (ln_writer t) = wr_acks (ln_writer s)"
  shows "delivery_inv t"
  using assms(1) unfolding delivery_inv_def delivered_def assms(2-) .

lemma delivery_inv_recv:
  assumes inv: "delivery_inv s" and q: "in_queue (ln_inbox s) = item # rest"
  shows "delivery_inv (s\<lparr>ln_inbox := (ln_inbox s)\<lparr>in_queue := rest\<rparr>, ln_writer := recv_input item (ln_writer s)\<rparr>)"
    (is "delivery_inv ?t")
proof -
  obtain "is" where "is": "delivered is s"
    using inv by (auto simp: delivery_inv_def)
  have wf: "input_wf item" and "item \<in> set (ln_accepted s)"
    using inv q by (auto simp: delivery_inv_def list_all_iff)
  show ?thesis
  proof (cases "pi_data item = []")
    case True
    with wf have "pi_kind item = RawPending"
      by (cases "pi_kind item") (auto simp: input_wf_def)
    with True "is" q \<open>item \<in> set (ln_accepted s)\<close> have "delivered is ?t"
      by (auto simp: delivered_def recv_input_def acknowledge_written_def split: option.split
          intro: acknowledged_snoc)
    with inv True \<open>pi_kind item = RawPending\<close> q show ?thesis
      by (auto simp: delivery_inv_def recv_input_def acknowledge_written_def split: option.split list.splits)
  next
    case False
    have "take (wr_offset (ln_writer s)) (pi_data item) = []" if "wr_pending (ln_writer s) = []"
      using inv that by (simp add: delivery_inv_def)
    moreover have "wr_offset (ln_writer s) \<le> length (concat (map pi_data (wr_pending (ln_writer s))))"
      using inv by (auto simp: delivery_inv_def split: list.splits)
    ultimately have "delivered is ?t"
      using False "is" q by (auto simp: delivered_def recv_input_def)
    with inv False q show ?thesis
      by (auto simp: delivery_inv_def recv_input_def split: list.splits)
  qed
qed

lemma delivery_inv_write:
  assumes inv: "delivery_inv s" and pending: "wr_pending (ln_writer s) = front # rest"
    and "n \<le> length (pi_data front) - wr_offset (ln_writer s)"
    and "write_ready now n (ln_writer s) (ln_inbox s) = (cont, w, b)"
  shows "delivery_inv (s\<lparr>ln_inbox := b, ln_writer := w, ln_running := cont, ln_marks := marks\<rparr>)"
    (is "delivery_inv ?t")
proof -
  obtain "is" where "is": "delivered is s"
    using inv by (auto simp: delivery_inv_def)
  have off: "wr_offset (ln_writer s) < length (pi_data front)"
    using inv pending by (simp add: delivery_inv_def)
  have queue: "in_queue b = in_queue (ln_inbox s)"
    if "b = (if declared_draft front then snd (complete_declared_draft_write (ln_inbox s)) else ln_inbox s)"
    using that by (simp add: complete_declared_draft_write_def Let_def)
  from pending off assms(3,4) show ?thesis
  proof (cases rule: write_ready_cases)
    case part
    with "is" pending have "delivered is ?t"
      by (simp add: delivered_def take_add)
    with inv part show ?thesis
      by (auto simp: delivery_inv_def)
  next
    case whole
    have "wr_out w = concat (map pi_data (is @ [front]))"
      using "is" pending off whole(3) by (simp add: delivered_def)
    moreover have "nonempty_inputs (ln_accepted s) = (is @ [front]) @ rest @ nonempty_inputs (in_queue b)"
      using "is" pending queue [OF whole(5)] by (simp add: delivered_def)
    moreover have "acknowledged (wr_acks (ln_writer s)) (is @ [front]) (ln_accepted s)"
      using "is" by (auto simp: delivered_def intro: acknowledged_mono)
    then have "acknowledged (wr_acks w) (is @ [front]) (ln_accepted s)"
      using whole(4) by (auto intro!: acknowledged_snoc [where i = front])
    ultimately have "delivered (is @ [front]) ?t"
      using whole(1,2) by (simp add: delivered_def)
    moreover have "rest = [] \<or> pi_data (hd rest) \<noteq> []"
    proof (cases rest)
      case (Cons r rs)
      then have "r \<in> set (nonempty_inputs (ln_accepted s))"
        using "is" pending by (simp add: delivered_def)
      with Cons show ?thesis by simp
    qed simp
    ultimately show ?thesis
      using inv whole(1,2) queue [OF whole(5)] by (cases rest) (auto simp: delivery_inv_def)
  qed
qed

lemma delivery_inv_init: "delivery_inv (line_init act known typed held bracketed)"
proof -
  have "delivered [] (line_init act known typed held bracketed)"
    by (simp add: delivered_def line_init_def inbox_new_def writer_new_def acknowledged_def)
  then show ?thesis
    by (auto simp: delivery_inv_def line_init_def inbox_new_def writer_new_def list_all_iff)
qed

lemma delivery_inv_step: "line_step s t \<Longrightarrow> delivery_inv s \<Longrightarrow> delivery_inv t"
proof (induction rule: line_step.induct)
  case (raw data kind ack s r b)
  obtain routed c where "route_raw data kind ack (in_coordination (ln_inbox s)) = (routed, c)"
    and "in_queue b = in_queue (ln_inbox s) @ queued (ln_inbox s) b"
    and "queued (ln_inbox s) b = [] \<or> queued (ln_inbox s) b = [routed]"
    using raw(1,2) by (rule raw_inbox)
  with raw(3) show ?case
    by (intro delivery_inv_extend [OF raw(3), where new = "queued (ln_inbox s) b" and b = b])
      (auto dest: route_raw_wf)
next
  case (raw_refused data kind ack s r b)
  then show ?case
    by (auto simp: enqueue_raw_input_with_ack_def)
next
  case (logical data ack s r b)
  then obtain r' where "send (pending_logical data (Some ack) (in_bracketed (ln_inbox s))) (ln_inbox s) = (r', b)"
    by (auto simp: enqueue_logical_input_def split: prod.splits)
  note new = send_inbox [OF this]
  show ?case
    by (rule delivery_inv_extend [OF logical(2), where new = "queued (ln_inbox s) b" and b = b])
      (use new in auto)
next
  case (reply data s r b)
  then have "send (pending_raw data None) (ln_inbox s) = (r, b)"
    by (simp add: enqueue_terminal_reply_def)
  note new = send_inbox [OF this]
  show ?case
    by (rule delivery_inv_extend [OF reply(2), where new = "queued (ln_inbox s) b" and b = b])
      (use new in auto)
next
  case (recv s item rest)
  then show ?case by (intro delivery_inv_recv)
next
  case (pty_write s front rest n now cont w b)
  then show ?case by (intro delivery_inv_write)
next
  case (commit s k f composer r b)
  then show ?case
    by (intro delivery_inv_same [OF commit(3)]) (auto simp: attest_commit_def Let_def split: if_splits)
qed (erule delivery_inv_same; simp add: pause_tick_def split: option.split)+

lemma delivery_inv_reachable: "line_reachable s \<Longrightarrow> delivery_inv s"
  by (induction rule: line_reachable.induct) (blast intro: delivery_inv_init delivery_inv_step)+

section \<open>The ledger and the frames that clear it\<close>

abbreviation declared_count :: "pending_input list \<Rightarrow> nat" where
  "declared_count is \<equiv> length (filter declared_draft is)"

definition ledger_inv :: "line_state \<Rightarrow> bool" where
  "ledger_inv s \<longleftrightarrow>
     typed_draft_bytes (in_coordination (ln_inbox s)) = map_option (min u64_max) (ln_content s) \<and>
     draft_writes_completed (in_coordination (ln_inbox s)) +
       declared_count (wr_pending (ln_writer s)) + declared_count (in_queue (ln_inbox s))
       \<le> draft_writes_enqueued (in_coordination (ln_inbox s))"

definition marks_inv :: "line_state \<Rightarrow> bool" where
  "marks_inv s \<longleftrightarrow>
     draft_writes_completed (in_coordination (ln_inbox s)) = length (ln_marks s) \<and>
     (\<forall>m \<in> set (ln_marks s). m \<le> chunks_at_last_draft_write (in_coordination (ln_inbox s))) \<and>
     chunks_at_last_draft_write (in_coordination (ln_inbox s)) \<le> mirrored_chunks (ln_inbox s) \<and>
     (\<forall>k. ln_sample s = Some k \<longrightarrow> k \<le> mirrored_chunks (ln_inbox s)) \<and>
     (\<forall>k f composer. ln_frame s = Some (k, f, composer) \<longrightarrow> k \<le> f)"

lemma route_raw_ledger:
  assumes "route_raw data kind ack c = (routed, c')" and "typed_draft_bytes c = map_option (min u64_max) content"
  shows "typed_draft_bytes c' = map_option (min u64_max) (content_after data kind content)"
    and "draft_writes_enqueued c' = draft_writes_enqueued c + (if declared_draft routed then 1 else 0)"
    and "draft_writes_completed c' = draft_writes_completed c"
    and "chunks_at_last_draft_write c' = chunks_at_last_draft_write c"
  using assms
  by (cases content; auto simp: route_raw_def content_after_def Let_def pending_raw_def pending_raw_draft_def
      sat_add_def split: raw_input_kind.splits if_splits)+

lemma attest_commit_ledger:
  assumes "attest_commit k composer b = (r, b')"
  shows "in_queue b' = in_queue b" and "mirrored_chunks b' = mirrored_chunks b"
    and "draft_writes_enqueued (in_coordination b') = draft_writes_enqueued (in_coordination b)"
    and "draft_writes_completed (in_coordination b') = draft_writes_completed (in_coordination b)"
    and "chunks_at_last_draft_write (in_coordination b') = chunks_at_last_draft_write (in_coordination b)"
    and "typed_draft_bytes (in_coordination b') =
      (if r = Inr True then Some 0 else typed_draft_bytes (in_coordination b))"
  using assms by (auto simp: attest_commit_def Let_def split: if_splits)

lemma complete_write_ledger:
  shows "in_queue (snd (complete_declared_draft_write b)) = in_queue b"
    and "mirrored_chunks (snd (complete_declared_draft_write b)) = mirrored_chunks b"
    and "typed_draft_bytes (in_coordination (snd (complete_declared_draft_write b))) = typed_draft_bytes (in_coordination b)"
    and "draft_writes_enqueued (in_coordination (snd (complete_declared_draft_write b))) =
      draft_writes_enqueued (in_coordination b)"
  by (simp_all add: complete_declared_draft_write_def Let_def)

lemma ledger_inv_step:
  assumes "line_step s t" and "delivery_inv s" and "ledger_inv s"
  shows "ledger_inv t"
  using assms
proof (induction rule: line_step.induct)
  case (raw data kind ack s r b)
  obtain routed c where route: "route_raw data kind ack (in_coordination (ln_inbox s)) = (routed, c)"
    and b: "in_coordination b = c" "in_queue b = in_queue (ln_inbox s) @ queued (ln_inbox s) b"
    and "queued (ln_inbox s) b = [] \<or> queued (ln_inbox s) b = [routed]"
    using raw(1,2) by (rule raw_inbox)
  then have "declared_count (queued (ln_inbox s) b) \<le> (if declared_draft routed then 1 else 0)"
    by auto
  moreover have "declared_count (in_queue b) =
      declared_count (in_queue (ln_inbox s)) + declared_count (queued (ln_inbox s) b)"
    using b(2) by (metis filter_append length_append)
  ultimately show ?case
    using raw(4) route_raw_ledger [OF route, of "ln_content s"] b(1) by (simp add: ledger_inv_def)
next
  case (raw_refused data kind ack s r b)
  then show ?case
    by (auto simp: enqueue_raw_input_with_ack_def)
next
  case (logical data ack s r b)
  then show ?case
    by (auto simp: enqueue_logical_input_def send_def ledger_inv_def pending_logical_def split: if_splits)
next
  case (reply data s r b)
  then show ?case
    by (auto simp: enqueue_terminal_reply_def send_def ledger_inv_def pending_raw_def split: if_splits)
next
  case (recv s item rest)
  then show ?case
    by (auto simp: ledger_inv_def recv_input_def acknowledge_written_def split: option.split)
next
  case (pty_write s front rest n now cont w b)
  have off: "wr_offset (ln_writer s) < length (pi_data front)"
    using pty_write by (simp add: delivery_inv_def)
  from pty_write(2) off pty_write(4,5) show ?case
  proof (cases rule: write_ready_cases)
    case whole
    then show ?thesis
      using pty_write(2,7)
      by (auto simp: ledger_inv_def complete_declared_draft_write_def Let_def split: if_splits)
  qed (use pty_write(2,7) in \<open>auto simp: ledger_inv_def\<close>)
next
  case (commit s k f composer r b)
  with attest_commit_ledger [OF commit(2)] show ?case
    by (auto simp: ledger_inv_def)
qed (simp_all add: ledger_inv_def pause_tick_def split: option.split)

lemma marks_inv_step:
  assumes "line_step s t" and "delivery_inv s" and "marks_inv s"
  shows "marks_inv t"
  using assms
proof (induction rule: line_step.induct)
  case (raw data kind ack s r b)
  obtain routed c where "route_raw data kind ack (in_coordination (ln_inbox s)) = (routed, c)"
    and "in_coordination b = c" and "mirrored_chunks b = mirrored_chunks (ln_inbox s)"
    using raw(1,2) by (rule raw_inbox)
  moreover from this(1) have "draft_writes_completed c = draft_writes_completed (in_coordination (ln_inbox s)) \<and>
      chunks_at_last_draft_write c = chunks_at_last_draft_write (in_coordination (ln_inbox s))"
    by (auto simp: route_raw_def Let_def split: raw_input_kind.splits if_splits)
  ultimately show ?case
    using raw(4) by (simp add: marks_inv_def)
next
  case (raw_refused data kind ack s r b)
  then show ?case
    by (auto simp: enqueue_raw_input_with_ack_def)
next
  case (logical data ack s r b)
  then show ?case
    by (auto simp: enqueue_logical_input_def send_def marks_inv_def split: if_splits)
next
  case (reply data s r b)
  then show ?case
    by (auto simp: enqueue_terminal_reply_def send_def marks_inv_def split: if_splits)
next
  case (pty_write s front rest n now cont w b)
  have off: "wr_offset (ln_writer s) < length (pi_data front)"
    using pty_write by (simp add: delivery_inv_def)
  from pty_write(2) off pty_write(4,5) show ?case
  proof (cases rule: write_ready_cases)
    case whole
    then show ?thesis
      using pty_write(7)
      by (auto simp: marks_inv_def complete_declared_draft_write_def Let_def split: if_splits)
  qed (use pty_write(7) in \<open>auto simp: marks_inv_def\<close>)
next
  case (sample s k)
  then show ?case
    by (simp add: marks_inv_def attest_sample_def split: if_splits)
next
  case (commit s k f composer r b)
  with attest_commit_ledger [OF commit(2)] show ?case
    by (auto simp: marks_inv_def)
qed (auto simp: marks_inv_def)

lemma line_inv_reachable: "line_reachable s \<Longrightarrow> delivery_inv s \<and> ledger_inv s \<and> marks_inv s"
proof (induction rule: line_reachable.induct)
  case (start typed act known held bracketed)
  have "declared_count (in_queue (inbox_new act known typed held bracketed)) = 0"
    by (simp add: inbox_new_def pending_logical_def o_def)
  with start have "ledger_inv (line_init act known typed held bracketed)"
    and "marks_inv (line_init act known typed held bracketed)"
    by (auto simp: ledger_inv_def marks_inv_def line_init_def inbox_new_def writer_new_def
        coordination_from_record_def split: option.splits)
  then show ?case
    by (simp add: delivery_inv_init)
next
  case (more s t)
  then show ?case
    by (auto intro: delivery_inv_step ledger_inv_step marks_inv_step)
qed

section \<open>An example run\<close>

text \<open>A character is typed, written and echoed, and the frame after it renders an empty composer.\<close>

definition attest_example :: line_state where
  "attest_example =
     (line_init False True (Some 0) [] False)
       \<lparr>ln_inbox := (inbox_new False True (Some 0) [] False)
          \<lparr>in_coordination := \<lparr>draft_active = True, draft_state_known = True, typed_draft_bytes = Some 1,
             draft_writes_enqueued = 1, draft_writes_completed = 1, chunks_at_last_draft_write = 0\<rparr>,
           mirrored_chunks := 1\<rparr>,
        ln_writer := writer_new\<lparr>wr_out := [97], wr_acks := [7]\<rparr>,
        ln_frame := Some (1, 1, Empty), ln_accepted := [pending_raw_draft [97] (Some 7)],
        ln_content := Some 1, ln_marks := [0]\<rparr>"

lemma line_reachable_to: "line_reachable s \<Longrightarrow> line_step s t \<Longrightarrow> t = t' \<Longrightarrow> line_reachable t'"
  using line_reachable.more by blast

lemma attest_example_reachable: "line_reachable attest_example"
proof -
  define s0 where "s0 = line_init False True (Some 0) [] False"
  define b1 where "b1 = snd (enqueue_raw_input_with_ack [97] Draft (Some 7) (ln_inbox s0))"
  define s1 where "s1 = s0\<lparr>ln_inbox := b1, ln_accepted := [pending_raw_draft [97] (Some 7)], ln_content := Some 1\<rparr>"
  define s2 where "s2 = s1\<lparr>ln_inbox := b1\<lparr>in_queue := []\<rparr>,
    ln_writer := recv_input (pending_raw_draft [97] (Some 7)) writer_new\<rparr>"
  define b3 where "b3 = snd (complete_declared_draft_write (ln_inbox s2))"
  define w3 where "w3 = writer_new\<lparr>wr_out := [97], wr_acks := [7]\<rparr>"
  define s3 where "s3 = s2\<lparr>ln_inbox := b3, ln_writer := w3, ln_running := True, ln_marks := [0]\<rparr>"
  define s4 where "s4 = s3\<lparr>ln_inbox := b3\<lparr>mirrored_chunks := 1, in_bracketed := False\<rparr>\<rparr>"
  define s5 where "s5 = s4\<lparr>ln_sample := Some 1\<rparr>"
  note defs = s0_def b1_def s1_def s2_def b3_def w3_def s3_def s4_def s5_def
  have "line_reachable s0"
    unfolding s0_def by (rule line_reachable.start) simp
  then have "line_reachable s1"
    by (rule line_reachable_to [OF _ line_step.raw [of "[97]" Draft "Some 7" s0 "Inr ()" b1]])
      (unfold defs, code_simp+)
  then have "line_reachable s2"
    by (rule line_reachable_to [OF _ line_step.recv [of s1 "pending_raw_draft [97] (Some 7)" "[]"]])
      (unfold defs, code_simp+)
  then have "line_reachable s3"
    by (rule line_reachable_to [OF _ line_step.pty_write [of s2 "pending_raw_draft [97] (Some 7)" "[]" 1 0 True w3 b3]])
      (unfold defs, code_simp+)
  then have "line_reachable s4"
    by (rule line_reachable_to [OF _ line_step.mirror [of s3 False]]) (unfold defs, code_simp+)
  then have "line_reachable s5"
    by (rule line_reachable_to [OF _ line_step.sample [of s4 1]]) (unfold defs, code_simp+)
  then show ?thesis
    by (rule line_reachable_to [OF _ line_step.read_frame [of s5 1 Empty]]) (unfold defs, code_simp+)
qed

section \<open>Properties\<close>

text \<open>C2: Input reaches the PTY whole and in order. In every interleaving the bytes written are those of the
  accepted inputs one after another, up to a part of the one being written; nothing is dropped,
  repeated or interleaved; a delivered message ends with its Enter; and an acknowledgement is sent
  only for an input all of whose bytes are on the PTY.\<close>

theorem input_delivered_in_order:
  assumes "line_reachable s"
  shows "\<exists>is. nonempty_inputs (ln_accepted s) =
      is @ wr_pending (ln_writer s) @ nonempty_inputs (in_queue (ln_inbox s)) \<and>
    wr_out (ln_writer s) =
      concat (map pi_data is) @ take (wr_offset (ln_writer s)) (concat (map pi_data (wr_pending (ln_writer s)))) \<and>
    (\<forall>i \<in> set is. pi_kind i = LogicalPending \<longrightarrow> last (pi_data i) = 13) \<and>
    (\<forall>a \<in> set (wr_acks (ln_writer s)). \<exists>i. written i = Some a \<and>
       (i \<in> set is \<or> i \<in> set (ln_accepted s) \<and> pi_data i = []))"
proof -
  obtain "is" where "is": "delivered is s" and wf: "list_all input_wf (ln_accepted s)"
    using line_inv_reachable [OF assms] by (auto simp: delivery_inv_def)
  have "set is \<subseteq> set (nonempty_inputs (ln_accepted s))"
    using "is" by (simp add: delivered_def)
  with wf have "\<forall>i \<in> set is. pi_kind i = LogicalPending \<longrightarrow> last (pi_data i) = 13"
    by (auto simp: list_all_iff input_wf_def)
  with "is" show ?thesis
    unfolding delivered_def acknowledged_def by blast
qed

theorem input_delivered_in_order_witness:
  "\<exists>is. wr_out (ln_writer attest_example) = concat (map pi_data is) \<and>
     nonempty_inputs (ln_accepted attest_example) = is"
  using input_delivered_in_order [OF attest_example_reachable]
  by (simp add: attest_example_def writer_new_def line_init_def inbox_new_def)

text \<open>C14: The ledger is exact. In every interleaving a readable attestation says what was declared since
  the last submission or proving frame: not typed when no content byte was, typed when some were, and
  unknown exactly while the state was inherited without a count.\<close>

theorem composer_attestation_exact:
  assumes "line_reachable s" and "\<not> in_poisoned (ln_inbox s)"
  shows "composer_attestation_of (ln_inbox s) =
    (if draft_state_known (in_coordination (ln_inbox s))
     then (case ln_content s of None \<Rightarrow> AttestationUnknown | Some n \<Rightarrow> if n = 0 then NotTyped else Typed)
     else AttestationUnknown)"
proof -
  have "typed_draft_bytes (in_coordination (ln_inbox s)) = map_option (min u64_max) (ln_content s)"
    using line_inv_reachable [OF assms(1)] by (simp add: ledger_inv_def)
  moreover have "min u64_max n = 0 \<longleftrightarrow> n = 0" for n
    by (simp add: u64_max_def min_def)
  ultimately show ?thesis
    using assms(2) by (auto simp: composer_attestation_of_def coordination_attestation_def split: option.split)
qed

theorem composer_attestation_exact_witness: "composer_attestation_of (ln_inbox attest_example) = Typed"
proof -
  have "\<not> in_poisoned (ln_inbox attest_example)" "draft_state_known (in_coordination (ln_inbox attest_example))"
    "ln_content attest_example = Some 1"
    by code_simp+
  with composer_attestation_exact [OF attest_example_reachable] show ?thesis
    by simp
qed

text \<open>C12: A frame clears a declared draft only if it is newer than the draft. When an attestation resolves a
  draft this daemon saw, no declared byte is still queued or half written, and the frame it read holds
  a chunk mirrored after the last declared write had reached the PTY, whatever the producers did
  between the sample, the reading and the update.\<close>

theorem attested_frame_postdates_draft:
  assumes "line_reachable s" and "ln_frame s = Some (k, f, composer)"
    and "attest_commit k composer (ln_inbox s) = (Inr True, b)"
    and "draft_state_known (in_coordination (ln_inbox s))"
  shows "proves_nothing_typed composer \<and>
    filter declared_draft (wr_pending (ln_writer s) @ in_queue (ln_inbox s)) = [] \<and>
    length (ln_marks s) = draft_writes_enqueued (in_coordination (ln_inbox s)) \<and>
    (\<forall>m \<in> set (ln_marks s). m < f) \<and> composer_attestation_of b = NotTyped"
proof -
  note inv = line_inv_reachable [OF assms(1)]
  have commit: "proves_nothing_typed composer" "\<not> in_poisoned (ln_inbox s)"
    "draft_writes_completed (in_coordination (ln_inbox s)) = draft_writes_enqueued (in_coordination (ln_inbox s))"
    "chunks_at_last_draft_write (in_coordination (ln_inbox s)) < k"
    "b = (ln_inbox s)\<lparr>in_coordination := (in_coordination (ln_inbox s))
       \<lparr>draft_state_known := True, draft_active := False, typed_draft_bytes := Some 0\<rparr>\<rparr>"
    using assms(3,4) by (auto simp: attest_commit_def Let_def split: if_splits)
  have "filter declared_draft (wr_pending (ln_writer s) @ in_queue (ln_inbox s)) = []"
    using inv commit(3) by (simp add: ledger_inv_def)
  moreover have "k \<le> f" and "\<forall>m \<in> set (ln_marks s). m \<le> chunks_at_last_draft_write (in_coordination (ln_inbox s))"
    and "length (ln_marks s) = draft_writes_completed (in_coordination (ln_inbox s))"
    using inv assms(2) by (auto simp: marks_inv_def)
  moreover from this commit(4) have "\<forall>m \<in> set (ln_marks s). m < f"
    by fastforce
  moreover have "composer_attestation_of b = NotTyped"
    using commit(2,5) by (simp add: composer_attestation_of_def coordination_attestation_def)
  ultimately show ?thesis
    using commit(1,3) by simp
qed

theorem attested_frame_postdates_draft_witness:
  "length (ln_marks attest_example) = 1 \<and>
   composer_attestation_of (snd (attest_commit 1 Empty (ln_inbox attest_example))) = NotTyped"
proof -
  have "ln_frame attest_example = Some (1, 1, Empty)"
    "draft_state_known (in_coordination (ln_inbox attest_example))"
    "draft_writes_enqueued (in_coordination (ln_inbox attest_example)) = 1"
    "attest_commit 1 Empty (ln_inbox attest_example) =
      (Inr True, snd (attest_commit 1 Empty (ln_inbox attest_example)))"
    by code_simp+
  with attested_frame_postdates_draft [OF attest_example_reachable] show ?thesis
    by metis
qed

end
