(* ===== verification/Session_Status.thy ===== *)
theory Session_Status
  imports Session_Input
begin

text \<open>
  The runtime side of a daemon session (\<^verbatim>\<open>session.rs\<close>) and what the stream task publishes from it
  (\<^verbatim>\<open>output.rs\<close>): mirroring output, status detection with its throttle and its rule for idle
  frames, the quiet refresh, status edges and composer edges. An \<^verbatim>\<open>Instant\<close> is a number of
  milliseconds; \<^verbatim>\<open>saturating_duration_since\<close> is subtraction on natural numbers.
\<close>

section \<open>State\<close>

definition STATUS_DETECTION_THROTTLE_MS :: nat where
  "STATUS_DETECTION_THROTTLE_MS = 500"

definition STATUS_IDLE_FLUSH_MS :: nat where
  "STATUS_IDLE_FLUSH_MS = STATUS_DETECTION_THROTTLE_MS"

record 't session_runtime =
  rt_headless :: "'t headless_terminal"
  rt_classifier :: classifier
  published_composer :: "(ustr option \<times> composer_attestation) option"
  rt_provider :: "agent_provider option"
  rt_status :: session_status
  status_observed :: bool
  last_status_check_at :: "nat option"
  last_output_at :: "nat option"
  operator_input_only :: bool
  input_policy_classified :: bool

definition runtime_new ::
  "(uchar \<Rightarrow> ustr) \<Rightarrow> detection \<Rightarrow> 't headless_terminal \<Rightarrow> agent_provider option \<Rightarrow> cli_version option
     \<Rightarrow> session_status \<Rightarrow> bool \<Rightarrow> nat option \<Rightarrow> bool \<Rightarrow> bool \<Rightarrow> 't session_runtime" where
  "runtime_new lc d h p version status observed last_check operator_only classified =
     \<lparr>rt_headless = h, rt_classifier = with_version lc d p version, published_composer = None,
      rt_provider = p, rt_status = status, status_observed = observed, last_status_check_at = last_check,
      last_output_at = None, operator_input_only = operator_only, input_policy_classified = classified\<rparr>"

definition classify_input :: "bool \<Rightarrow> 't session_runtime \<Rightarrow> 't session_runtime" where
  "classify_input flag rt = rt\<lparr>operator_input_only := flag, input_policy_classified := True\<rparr>"

definition set_cli_version ::
  "(uchar \<Rightarrow> ustr) \<Rightarrow> detection \<Rightarrow> cli_version option \<Rightarrow> 't session_runtime \<Rightarrow> 't session_runtime" where
  "set_cli_version lc d version rt =
     (case set_version lc d version (rt_classifier rt) of (_, c) \<Rightarrow> rt\<lparr>rt_classifier := c\<rparr>)"

section \<open>Detection\<close>

definition allows_output_triggered_idle :: "agent_provider option \<Rightarrow> bool" where
  "allows_output_triggered_idle p \<longleftrightarrow> p \<noteq> Some Claude"

definition detect_headless_terminal_status_if_due ::
  "('t, 'x) vt \<Rightarrow> (uchar \<Rightarrow> ustr) \<Rightarrow> detection \<Rightarrow> nat \<Rightarrow> nat \<Rightarrow> bool
     \<Rightarrow> 't session_runtime \<Rightarrow> ('x + session_status option) \<times> 't session_runtime" where
  "detect_headless_terminal_status_if_due v lc d now throttle allow_idle rt =
     (if \<not> status_frame_complete v (rt_headless rt) then (Inr None, rt)
      else if (case last_status_check_at rt of None \<Rightarrow> False | Some t \<Rightarrow> now - t < throttle) then (Inr None, rt)
      else
        (case visible_status v lc d (rt_classifier rt) (rt_headless rt) of
           (r, c, h) \<Rightarrow>
             (let rt1 = rt\<lparr>rt_classifier := c, rt_headless := h\<rparr>
              in case r of
                   Inl e \<Rightarrow> (Inl e, rt1)
                 | Inr (Some next_status) \<Rightarrow>
                     if next_status = Idle \<and> \<not> allow_idle then (Inr None, rt1)
                     else
                       (Inr (if rt_status rt \<noteq> next_status then Some next_status else None),
                        rt1\<lparr>last_status_check_at := Some now, status_observed := True\<rparr>)
                 | Inr None \<Rightarrow>
                     if \<not> allow_idle then (Inr None, rt1)
                     else
                       (Inr (if status_observed rt \<and> (rt_status rt = Busy \<or> rt_status rt = Waiting)
                             then Some Idle else None),
                        rt1\<lparr>last_status_check_at := Some now\<rparr>))))"

definition mirror_output_at ::
  "('t, 'x) vt \<Rightarrow> (uchar \<Rightarrow> ustr) \<Rightarrow> detection \<Rightarrow> byte list \<Rightarrow> bool \<Rightarrow> nat \<Rightarrow> nat
     \<Rightarrow> 't session_runtime \<Rightarrow> inbox \<Rightarrow> ('x + session_status option \<times> byte list list) \<times> 't session_runtime \<times> inbox" where
  "mirror_output_at v lc d data allow_replies now throttle rt b =
     (let h1 = ht_write v data (rt_headless rt);
          b' = b\<lparr>in_bracketed := bracketed_paste_mode v h1, mirrored_chunks := mirrored_chunks b + 1\<rparr>;
          (drained, h2) = drain_pty_writes h1;
          replies = (if allow_replies then drained else []);
          rt1 = rt\<lparr>rt_headless := h2, last_output_at := Some now\<rparr>
      in case detect_headless_terminal_status_if_due v lc d now throttle
                (allows_output_triggered_idle (rt_provider rt)) rt1 of
           (Inl e, rt2) \<Rightarrow> (Inl e, rt2, b')
         | (Inr status, rt2) \<Rightarrow> (Inr (status, replies), rt2, b'))"

definition refresh_quiet_status_at ::
  "('t, 'x) vt \<Rightarrow> (uchar \<Rightarrow> ustr) \<Rightarrow> detection \<Rightarrow> nat \<Rightarrow> nat
     \<Rightarrow> 't session_runtime \<Rightarrow> ('x + session_status option) \<times> 't session_runtime" where
  "refresh_quiet_status_at v lc d quiet_for now rt =
     (if (case last_output_at rt of None \<Rightarrow> False | Some t \<Rightarrow> now - t < quiet_for) then (Inr None, rt)
      else detect_headless_terminal_status_if_due v lc d now 0 True rt)"

record status_observation =
  so_provider :: "agent_provider option"
  so_version :: "cli_version option"
  so_status :: "session_status option"
  so_rule :: "ustr option"
  so_lines :: "ustr list"

definition debug_status_observation ::
  "('t, 'x) vt \<Rightarrow> (uchar \<Rightarrow> ustr) \<Rightarrow> detection \<Rightarrow> 't session_runtime \<Rightarrow> ('x + status_observation) \<times> 't session_runtime" where
  "debug_status_observation v lc d rt =
     (case visible_verdict v lc d (rt_classifier rt) (rt_headless rt) of
        (r, c, h) \<Rightarrow>
          (let rt1 = rt\<lparr>rt_classifier := c, rt_headless := h\<rparr>
           in case r of
                Inl e \<Rightarrow> (Inl e, rt1)
              | Inr verdict \<Rightarrow>
                  (case debug_lines v 8 h of
                     Inl e \<Rightarrow> (Inl e, rt1)
                   | Inr lines \<Rightarrow>
                       (Inr \<lparr>so_provider = rt_provider rt, so_version = cl_version (rt_classifier rt),
                             so_status = map_option vd_status verdict, so_rule = map_option vd_rule_id verdict,
                             so_lines = lines\<rparr>, rt1))))"

definition session_codex_resume_session_id ::
  "('t, 'x) vt \<Rightarrow> 't session_runtime \<Rightarrow> 'x + ustr option" where
  "session_codex_resume_session_id v rt =
     (if rt_provider rt \<noteq> Some Codex then Inr None else codex_resume_session_id v (rt_headless rt))"

definition update_status :: "session_status \<Rightarrow> 't session_runtime \<Rightarrow> bool \<times> 't session_runtime" where
  "update_status status rt = (if rt_status rt \<noteq> status then (True, rt\<lparr>rt_status := status\<rparr>) else (False, rt))"

definition session_waiting_prompt_snippet ::
  "('t, 'x) vt \<Rightarrow> (uchar \<Rightarrow> ustr) \<Rightarrow> detection \<Rightarrow> 't session_runtime \<Rightarrow> ('x + ustr option) \<times> 't session_runtime" where
  "session_waiting_prompt_snippet v lc d rt =
     (case waiting_prompt_snippet v lc d (rt_classifier rt) (rt_headless rt) of
        (r, c) \<Rightarrow> (r, rt\<lparr>rt_classifier := c\<rparr>))"

section \<open>Attestation and composer edges\<close>

definition attest_empty_composer ::
  "('t, 'x) vt \<Rightarrow> (uchar \<Rightarrow> ustr) \<Rightarrow> detection \<Rightarrow> 't session_runtime \<Rightarrow> inbox
     \<Rightarrow> (('x + input_queue_error) + bool) \<times> 't session_runtime \<times> inbox" where
  "attest_empty_composer v lc d rt b =
     (case attest_sample b of
        None \<Rightarrow> (Inr False, rt, b)
      | Some k \<Rightarrow>
          (case ht_composer_state v lc d (rt_classifier rt) (rt_headless rt) of
             (Inl e, c) \<Rightarrow> (Inl (Inl e), rt\<lparr>rt_classifier := c\<rparr>, b)
           | (Inr composer, c) \<Rightarrow>
               (case attest_commit k composer b of
                  (Inl e, b') \<Rightarrow> (Inl (Inr e), rt\<lparr>rt_classifier := c\<rparr>, b')
                | (Inr r, b') \<Rightarrow> (Inr r, rt\<lparr>rt_classifier := c\<rparr>, b'))))"

definition session_composer_line ::
  "('t, 'x) vt \<Rightarrow> (uchar \<Rightarrow> ustr) \<Rightarrow> detection \<Rightarrow> 't session_runtime \<Rightarrow> ustr option \<times> 't session_runtime" where
  "session_composer_line v lc d rt =
     (case ht_composer_line v lc d (rt_classifier rt) (rt_headless rt) of
        (Inr t, c) \<Rightarrow> (t, rt\<lparr>rt_classifier := c\<rparr>)
      | (Inl _, c) \<Rightarrow> (None, rt\<lparr>rt_classifier := c\<rparr>))"

definition take_composer_transition ::
  "('t, 'x) vt \<Rightarrow> (uchar \<Rightarrow> ustr) \<Rightarrow> detection \<Rightarrow> inbox \<Rightarrow> 't session_runtime
     \<Rightarrow> (ustr option \<times> composer_attestation) option \<times> 't session_runtime" where
  "take_composer_transition v lc d b rt =
     (let attestation = composer_attestation_of b
      in case ht_composer_line v lc d (rt_classifier rt) (rt_headless rt) of
           (Inl _, c) \<Rightarrow> (None, rt\<lparr>rt_classifier := c\<rparr>)
         | (Inr t, c) \<Rightarrow>
             (let rt1 = rt\<lparr>rt_classifier := c\<rparr>;
                  had_composer = (case published_composer rt of Some (Some _, _) \<Rightarrow> True | _ \<Rightarrow> False)
              in if t = None \<and> \<not> had_composer
                 then (None, rt1\<lparr>published_composer := Some (None, attestation)\<rparr>)
                 else if published_composer rt = Some (t, attestation) then (None, rt1)
                 else (Some (t, attestation), rt1\<lparr>published_composer := Some (t, attestation)\<rparr>)))"

section \<open>Status edges\<close>

text \<open>\<^verbatim>\<open>emit_status_changed\<close> asks whether the session is retired at four points; \<open>retired i\<close> is the
  answer at the \<open>i\<close>-th. The results are the event broadcast and the event given to the fanout.\<close>

type_synonym status_event = "session_status \<times> ustr option"

definition emit_status_changed ::
  "('t, 'x) vt \<Rightarrow> (uchar \<Rightarrow> ustr) \<Rightarrow> detection \<Rightarrow> (nat \<Rightarrow> bool) \<Rightarrow> session_status \<Rightarrow> 't session_runtime
     \<Rightarrow> status_event option \<times> status_event option \<times> 't session_runtime" where
  "emit_status_changed v lc d retired status rt =
     (if retired 0 then (None, None, rt)
      else
        (case update_status status rt of
           (False, rt1) \<Rightarrow> (None, None, rt1)
         | (True, rt1) \<Rightarrow>
             if retired 1 then (None, None, rt1)
             else
               (let (snippet, rt2) =
                      (if status = Waiting \<or> status = Idle then
                         (case session_waiting_prompt_snippet v lc d rt1 of
                            (Inr prompt, rt') \<Rightarrow> (prompt, rt')
                          | (Inl _, rt') \<Rightarrow> (None, rt'))
                       else (None, rt1))
                in if retired 2 then (None, None, rt2)
                   else if retired 3 then (Some (status, snippet), None, rt2)
                   else (Some (status, snippet), Some (status, snippet), rt2))))"

section \<open>When a status is detected\<close>

definition due :: "nat \<Rightarrow> nat \<Rightarrow> nat option \<Rightarrow> bool" where
  "due now wait since = (case since of None \<Rightarrow> True | Some t \<Rightarrow> wait \<le> now - t)"

lemma detect_some:
  assumes "detect_headless_terminal_status_if_due v lc d now throttle allow_idle rt = (Inr (Some s), rt')"
  shows "status_frame_complete v (rt_headless rt)" and "due now throttle (last_status_check_at rt)"
    and "s \<noteq> rt_status rt"
    and "fst (visible_status v lc d (rt_classifier rt) (rt_headless rt)) = Inr (Some s) \<and> (s = Idle \<longrightarrow> allow_idle) \<or>
      fst (visible_status v lc d (rt_classifier rt) (rt_headless rt)) = Inr None \<and> s = Idle \<and> allow_idle \<and>
      status_observed rt \<and> (rt_status rt = Busy \<or> rt_status rt = Waiting)"
    and "last_status_check_at rt' = Some now"
  using assms
  by (auto simp: detect_headless_terminal_status_if_due_def due_def Let_def
      split: if_splits option.splits prod.splits sum.splits)

lemma detect_status: "rt_status (snd (detect_headless_terminal_status_if_due v lc d now throttle allow_idle rt)) = rt_status rt"
  by (auto simp: detect_headless_terminal_status_if_due_def Let_def split: option.splits prod.splits sum.splits)

text \<open>The status a settled frame calls for.\<close>

definition settled_status :: "session_status option \<Rightarrow> 't session_runtime \<Rightarrow> session_status" where
  "settled_status seen rt =
     (case seen of
        Some s \<Rightarrow> s
      | None \<Rightarrow> if status_observed rt \<and> (rt_status rt = Busy \<or> rt_status rt = Waiting) then Idle else rt_status rt)"

lemma detect_settled:
  assumes "status_frame_complete v (rt_headless rt)" and "due now throttle (last_status_check_at rt)"
    and "visible_status v lc d (rt_classifier rt) (rt_headless rt) = (Inr seen, c, h)"
  shows "fst (detect_headless_terminal_status_if_due v lc d now throttle True rt) =
    Inr (if settled_status seen rt = rt_status rt then None else Some (settled_status seen rt))"
  using assms
  by (auto simp: detect_headless_terminal_status_if_due_def settled_status_def due_def Let_def split: option.splits)

text \<open>A Claude session whose frame matches the one rule of its rule set.\<close>

definition busy_runtime :: "(cell list list \<times> nat \<times> nat) session_runtime" where
  "busy_runtime =
     runtime_new (\<lambda>x. [x]) busy_detection (sheet [[glyph False ''x'']] 0 0) (Some Claude) None Idle False None
       False False"

section \<open>Properties\<close>

text \<open>C23: A status published from output is backed by the frame: the frame was complete, the throttle had
  elapsed, the status is new, and it is what the rules read off the frame or the idle a session falls
  back to; and output never makes a Claude session idle.\<close>

theorem output_status_sound:
  assumes "mirror_output_at v lc d data allow_replies now throttle rt b = (Inr (Some s, replies), rt', b')"
  shows "let h = (ht_write v data (rt_headless rt))\<lparr>ht_pty_writes := []\<rparr>;
             seen = fst (visible_status v lc d (rt_classifier rt) h)
         in status_frame_complete v h \<and> due now throttle (last_status_check_at rt) \<and> s \<noteq> rt_status rt \<and>
            (seen = Inr (Some s) \<or> seen = Inr None \<and> s = Idle \<and> status_observed rt) \<and>
            (rt_provider rt = Some Claude \<longrightarrow> s \<noteq> Idle \<and> seen = Inr (Some s)) \<and>
            (\<not> allow_replies \<longrightarrow> replies = []) \<and> mirrored_chunks b' = mirrored_chunks b + 1"
proof -
  define h where "h = (ht_write v data (rt_headless rt))\<lparr>ht_pty_writes := []\<rparr>"
  define rt1 where "rt1 = rt\<lparr>rt_headless := h, last_output_at := Some now\<rparr>"
  have detect: "detect_headless_terminal_status_if_due v lc d now throttle
      (allows_output_triggered_idle (rt_provider rt)) rt1 = (Inr (Some s), rt')"
    and rest: "\<not> allow_replies \<longrightarrow> replies = []" "mirrored_chunks b' = mirrored_chunks b + 1"
    using assms
    by (auto simp: mirror_output_at_def drain_pty_writes_def h_def rt1_def Let_def split: prod.splits sum.splits)
  from detect_some [OF detect] rest show ?thesis
    by (auto simp: rt1_def h_def [symmetric] allows_output_triggered_idle_def Let_def)
qed

theorem output_status_sound_witness:
  "due 0 500 (last_status_check_at busy_runtime) \<and> Busy \<noteq> rt_status busy_runtime"
proof -
  have "fst (mirror_output_at sheet_vt (\<lambda>x. [x]) busy_detection [] False 0 500 busy_runtime
      (inbox_new False True None [] False)) = Inr (Some Busy, [])"
    by code_simp
  then obtain rt' b' where "mirror_output_at sheet_vt (\<lambda>x. [x]) busy_detection [] False 0 500 busy_runtime
      (inbox_new False True None [] False) = (Inr (Some Busy, []), rt', b')"
    by (metis prod.collapse)
  from output_status_sound [OF this] show ?thesis
    unfolding Let_def by blast
qed



end
