(* ===== verification/Json.thy ===== *)
theory Json
  imports Prelude "HOL-Library.List_Lexorder"
begin

text \<open>
  The values the configuration code works on: \<^verbatim>\<open>serde_json::Value\<close> with the accessors the code calls,
  and \<^verbatim>\<open>BTreeMap\<close> as a key-sorted association list. Reading JSON text is serde's: code that does it
  takes the reader as a parameter. \<^verbatim>\<open>serde_json::Map\<close> is a \<^verbatim>\<open>BTreeMap\<close> in this build, so the members
  of an object are met in key order.
\<close>

section \<open>Ordered maps\<close>

text \<open>What a client of a map type relies on: a lookup after an insertion.\<close>

locale map_contract =
  fixes put :: "'k \<Rightarrow> 'v \<Rightarrow> 'm \<Rightarrow> 'm"
    and look :: "'m \<Rightarrow> 'k \<Rightarrow> 'v option"
    and good :: "'m \<Rightarrow> bool"
  assumes look_put: "good m \<Longrightarrow> look (put k v m) = (look m)(k \<mapsto> v)"
    and good_put: "good m \<Longrightarrow> good (put k v m)"
begin

lemma good_put_all: "good m \<Longrightarrow> good (fold (\<lambda>(k, v). put k v) kvs m)"
  by (induction kvs arbitrary: m) (auto simp: good_put)

lemma look_put_all: "good m \<Longrightarrow> look (fold (\<lambda>(k, v). put k v) kvs m) = look m ++ map_of (rev kvs)"
proof (induction kvs arbitrary: m)
  case (Cons kv kvs)
  then show ?case
    by (cases kv) (auto simp: look_put good_put map_add_def fun_eq_iff split: option.splits)
qed simp

text \<open>Entries under distinct keys land one by one.\<close>

lemma look_put_distinct:
  assumes "good m" and "distinct (map fst kvs)"
  shows "look (fold (\<lambda>(k, v). put k v) kvs m) = look m ++ map_of kvs"
proof -
  have "map_of (rev kvs) = map_of kvs"
    using assms(2) by (subst map_of_inject_set) (simp_all flip: rev_map)
  then show ?thesis
    by (simp add: look_put_all [OF assms(1)])
qed

end

fun bt_insert :: "'k :: linorder \<Rightarrow> 'v \<Rightarrow> ('k \<times> 'v) list \<Rightarrow> ('k \<times> 'v) list" where
  "bt_insert k v [] = [(k, v)]"
| "bt_insert k v ((k', v') # m) =
     (if k < k' then (k, v) # (k', v') # m
      else if k = k' then (k, v) # m
      else (k', v') # bt_insert k v m)"

definition bt_wf :: "('k :: linorder \<times> 'v) list \<Rightarrow> bool" where
  "bt_wf m \<longleftrightarrow> sorted_wrt (<) (map fst m)"

lemma bt_insert_keys: "fst ` set (bt_insert k v m) = insert k (fst ` set m)"
  by (induction m rule: bt_insert.induct) auto

lemma bt_insert_wf: "bt_wf m \<Longrightarrow> bt_wf (bt_insert k v m)"
proof (induction k v m rule: bt_insert.induct)
  case (2 k v k' v' m)
  then show ?case
    using bt_insert_keys [of k v m] by (auto simp: bt_wf_def)
qed (simp add: bt_wf_def)

lemma bt_insert_lookup: "map_of (bt_insert k v m) = (map_of m)(k \<mapsto> v)"
  by (induction k v m rule: bt_insert.induct) auto

interpretation bt: map_contract bt_insert map_of bt_wf
  by unfold_locales (simp_all add: bt_insert_lookup bt_insert_wf)

text \<open>\<^verbatim>\<open>collect()\<close> into a \<^verbatim>\<open>BTreeMap\<close>, or into a \<^verbatim>\<open>HashMap\<close> whose order nothing reads.\<close>

definition bt_collect :: "('k :: linorder \<times> 'v) list \<Rightarrow> ('k \<times> 'v) list" where
  "bt_collect kvs = fold (\<lambda>(k, v). bt_insert k v) kvs []"

lemma bt_wf_Nil [simp]: "bt_wf []"
  by (simp add: bt_wf_def)

lemma bt_wf_distinct: "bt_wf m \<Longrightarrow> distinct (map fst m)"
  by (simp add: bt_wf_def strict_sorted_iff)

lemma bt_collect_wf: "bt_wf (bt_collect kvs)"
  unfolding bt_collect_def by (rule bt.good_put_all) simp

lemma bt_collect_lookup: "map_of (bt_collect kvs) = map_of (rev kvs)"
  unfolding bt_collect_def by (subst bt.look_put_all) simp_all

lemma bt_collect_keys: "fst ` set (bt_collect kvs) = fst ` set kvs"
  by (metis bt_collect_lookup dom_map_of_conv_image_fst set_rev)

lemma bt_collect_entry: "(k, v) \<in> set (bt_collect kvs) \<Longrightarrow> (k, v) \<in> set kvs"
  using bt_collect_lookup [of kvs] bt_wf_distinct [OF bt_collect_wf [of kvs]]
  by (metis map_of_SomeD map_of_is_SomeI set_rev)

lemma bt_insert_last: "\<forall>k' \<in> fst ` set m. k' < k \<Longrightarrow> bt_insert k v m = m @ [(k, v)]"
  by (induction k v m rule: bt_insert.induct) auto

lemma fold_bt_insert_sorted:
  "bt_wf (m @ kvs) \<Longrightarrow> fold (\<lambda>(k, v). bt_insert k v) kvs m = m @ kvs"
proof (induction kvs arbitrary: m)
  case (Cons kv kvs)
  obtain k v where kv: "kv = (k, v)"
    by (cases kv)
  have "bt_insert k v m = m @ [(k, v)]"
    using Cons.prems by (intro bt_insert_last) (auto simp: bt_wf_def sorted_wrt_append kv)
  then show ?case
    using Cons.IH [of "m @ [(k, v)]"] Cons.prems by (simp add: kv)
qed simp

lemma bt_collect_sorted: "bt_wf kvs \<Longrightarrow> bt_collect kvs = kvs"
  using fold_bt_insert_sorted [of "[]" kvs] by (simp add: bt_collect_def)

section \<open>JSON values\<close>

text \<open>A number is serde's: an unsigned or a negative integer, or the bits of a float.\<close>

datatype json_number = PosInt nat | NegInt int | Float nat

datatype json =
    JNull
  | JBool bool
  | JNumber json_number
  | JString ustr
  | JArray "json list"
  | JObject "(ustr \<times> json) list"

fun json_as_str :: "json \<Rightarrow> ustr option" where
  "json_as_str (JString s) = Some s"
| "json_as_str _ = None"

fun json_as_array :: "json \<Rightarrow> json list option" where
  "json_as_array (JArray vs) = Some vs"
| "json_as_array _ = None"

fun json_as_object :: "json \<Rightarrow> (ustr \<times> json) list option" where
  "json_as_object (JObject m) = Some m"
| "json_as_object _ = None"

fun json_as_u64 :: "json \<Rightarrow> nat option" where
  "json_as_u64 (JNumber (PosInt n)) = Some n"
| "json_as_u64 _ = None"

fun json_as_i64 :: "json \<Rightarrow> int option" where
  "json_as_i64 (JNumber (PosInt n)) = (if n < 2 ^ 63 then Some (int n) else None)"
| "json_as_i64 (JNumber (NegInt i)) = Some i"
| "json_as_i64 _ = None"

definition json_get :: "json \<Rightarrow> ustr \<Rightarrow> json option" where
  "json_get j k = do { m \<leftarrow> json_as_object j; map_of m k }"

text \<open>The invariants of the Rust types: \<^verbatim>\<open>u64\<close> and \<^verbatim>\<open>i64\<close> payloads, sorted members.\<close>

fun json_number_wf :: "json_number \<Rightarrow> bool" where
  "json_number_wf (PosInt n) = (n < 2 ^ 64)"
| "json_number_wf (NegInt i) = (- (2 ^ 63) \<le> i \<and> i < 0)"
| "json_number_wf (Float b) = (b < 2 ^ 64)"

fun json_wf :: "json \<Rightarrow> bool" where
  "json_wf (JNumber n) = json_number_wf n"
| "json_wf (JArray vs) = (\<forall>v \<in> set vs. json_wf v)"
| "json_wf (JObject m) = (bt_wf m \<and> (\<forall>kv \<in> set m. json_wf (snd kv)))"
| "json_wf _ = True"

definition is_Some :: "'a option \<Rightarrow> bool" where
  "is_Some x \<longleftrightarrow> x \<noteq> None"

text \<open>\<^verbatim>\<open>Iterator::filter_map\<close> and \<^verbatim>\<open>collect::<Option<Vec<_>>>()\<close>.\<close>

fun filter_map :: "('a \<Rightarrow> 'b option) \<Rightarrow> 'a list \<Rightarrow> 'b list" where
  "filter_map f [] = []"
| "filter_map f (x # xs) = (case f x of None \<Rightarrow> filter_map f xs | Some y \<Rightarrow> y # filter_map f xs)"

fun collect_options :: "'a option list \<Rightarrow> 'a list option" where
  "collect_options [] = Some []"
| "collect_options (x # xs) = do { y \<leftarrow> x; ys \<leftarrow> collect_options xs; Some (y # ys) }"

lemma filter_map_set: "set (filter_map f xs) = {y. \<exists>x \<in> set xs. f x = Some y}"
  by (induction xs) (auto split: option.splits)

lemma filter_map_append [simp]: "filter_map f (xs @ ys) = filter_map f xs @ filter_map f ys"
  by (induction xs) (auto split: option.splits)

lemma collect_options_SomeD: "collect_options xs = Some ys \<Longrightarrow> xs = map Some ys"
  by (induction xs arbitrary: ys) (auto split: Option.bind_splits)

lemma collect_options_map_Some [simp]: "collect_options (map Some ys) = Some ys"
  by (induction ys) auto

text \<open>A map filtered entry by entry under its own keys.\<close>

definition map_values :: "('k \<Rightarrow> 'v \<Rightarrow> 'w option) \<Rightarrow> ('k \<times> 'v) list \<Rightarrow> ('k \<times> 'w) list" where
  "map_values f m = filter_map (\<lambda>(k, v). map_option (Pair k) (f k v)) m"

lemma map_values_keys: "fst ` set (map_values f m) \<subseteq> fst ` set m"
  by (induction m) (auto simp: map_values_def split: option.splits)

lemma map_values_wf: "bt_wf m \<Longrightarrow> bt_wf (map_values f m)"
proof (induction m)
  case (Cons kv m)
  have "k \<in> fst ` set (map_values f m) \<Longrightarrow> fst kv < k" for k
    using subsetD [OF map_values_keys [of f m], of k] Cons.prems by (auto simp: bt_wf_def)
  with Cons show ?case
    by (cases kv) (force simp: bt_wf_def map_values_def split: option.splits)
qed (simp add: map_values_def)

lemma map_values_lookup:
  "distinct (map fst m) \<Longrightarrow> map_of (map_values f m) k = Option.bind (map_of m k) (f k)"
proof (induction m)
  case (Cons kv m)
  obtain k' v where kv: "kv = (k', v)"
    by (cases kv)
  have "k \<notin> fst ` set m \<Longrightarrow> map_of (map_values f m) k = None"
    using map_values_keys [of f m] by (auto simp: map_of_eq_None_iff)
  then show ?case
    using Cons by (auto simp: kv map_values_def split: option.splits)
qed (simp add: map_values_def)

lemma map_values_entry:
  "(k, w) \<in> set (map_values f m) \<Longrightarrow> \<exists>v. (k, v) \<in> set m \<and> f k v = Some w"
  by (auto simp: map_values_def filter_map_set)

end
