(* ===== verification/Wildcards.thy ===== *)
theory Wildcards
  imports Utf8 "HOL-Library.While_Combinator"
begin

text \<open>
  The \<^verbatim>\<open>*\<close> patterns of a repository's \<^verbatim>\<open>agentProviders\<close> table
  (\<^verbatim>\<open>crates/kanna-server/src/task_creator/definitions.rs\<close>): the greedy matcher
  \<^verbatim>\<open>wildcard_matches\<close> with its one backtracking point, as a loop over its four local variables,
  and the proof that it returns and decides the textbook meaning of a pattern.
\<close>

section \<open>The matcher\<close>

text \<open>
  The locals of the loop; \<open>Mismatch\<close> is the early \<^verbatim>\<open>return false\<close>.
\<close>

datatype scan =
    Scan (pattern_index: nat) (value_index: nat) (wildcard_index: "nat option")
      (wildcard_value_index: nat)
  | Mismatch

definition STAR :: byte where
  "STAR = 42"

fun scanning :: "byte list \<Rightarrow> scan \<Rightarrow> bool" where
  "scanning v (Scan pi vi w wvi) = (vi < length v)"
| "scanning v Mismatch = False"

fun scan_step :: "byte list \<Rightarrow> byte list \<Rightarrow> scan \<Rightarrow> scan" where
  "scan_step p v (Scan pi vi w wvi) =
     (if pi < length p \<and> p ! pi = v ! vi then Scan (pi + 1) (vi + 1) w wvi
      else if pi < length p \<and> p ! pi = STAR then Scan (pi + 1) vi (Some pi) vi
      else (case w of
              Some k \<Rightarrow> Scan (k + 1) (wvi + 1) w (wvi + 1)
            | None \<Rightarrow> Mismatch))"
| "scan_step p v Mismatch = Mismatch"

fun scan_verdict :: "byte list \<Rightarrow> scan \<Rightarrow> bool" where
  "scan_verdict p (Scan pi vi w wvi) =
     (pi + length (takeWhile (\<lambda>b. b = STAR) (drop pi p)) = length p)"
| "scan_verdict p Mismatch = False"

text \<open>\<open>None\<close> is a loop that never ends.\<close>

definition wildcard_run :: "byte list \<Rightarrow> byte list \<Rightarrow> bool option" where
  "wildcard_run p v =
     map_option (scan_verdict p) (while_option (scanning v) (scan_step p v) (Scan 0 0 None 0))"

definition wildcard_matches :: "ustr \<Rightarrow> ustr \<Rightarrow> bool" where
  "wildcard_matches p v \<longleftrightarrow> wildcard_run (as_bytes p) (as_bytes v) = Some True"

section \<open>What a pattern means\<close>

text \<open>A star stands for any run of bytes, every other byte for itself.\<close>

fun glob :: "byte list \<Rightarrow> byte list \<Rightarrow> bool" where
  "glob [] v = (v = [])"
| "glob (c # p) [] = (c = STAR \<and> glob p [])"
| "glob (c # p) (d # v) =
     (if c = STAR then glob p (d # v) \<or> glob (c # p) v else c = d \<and> glob p v)"

lemma glob_star_iff: "glob (STAR # p) v \<longleftrightarrow> (\<exists>n \<le> length v. glob p (drop n v))"
proof (induction v)
  case (Cons d v)
  have "(\<exists>n \<le> length (d # v). glob p (drop n (d # v))) \<longleftrightarrow>
      glob p (d # v) \<or> (\<exists>n \<le> length v. glob p (drop n v))"
    by (metis Suc_le_mono drop0 drop_Suc_Cons length_Cons not0_implies_Suc zero_le)
  then show ?case
    using Cons by simp
qed simp

lemma glob_empty_value: "glob p [] \<longleftrightarrow> list_all (\<lambda>b. b = STAR) p"
  by (induction p) auto

lemma glob_literal: "STAR \<notin> set s \<Longrightarrow> glob (s @ p) (s @ v) = glob p v"
  by (induction s) auto

lemma glob_literal_split:
  "STAR \<notin> set s \<Longrightarrow> glob (s @ p) v \<Longrightarrow> \<exists>u. v = s @ u \<and> glob p u"
proof (induction s arbitrary: v)
  case (Cons c s)
  then show ?case by (cases v) auto
qed simp

lemma glob_star_suffix: "glob (STAR # p) u \<Longrightarrow> glob (STAR # p) (w @ u)"
  by (induction w) auto

text \<open>After the literal run between two stars has matched once, the first star is done with.\<close>

lemma glob_second_star:
  assumes "STAR \<notin> set s"
  shows "glob (STAR # s @ STAR # p) (s @ u) = glob (STAR # p) u"
proof
  assume "glob (STAR # s @ STAR # p) (s @ u)"
  then obtain n where n: "n \<le> length (s @ u)" "glob (s @ STAR # p) (drop n (s @ u))"
    by (auto simp: glob_star_iff)
  then obtain w where w: "drop n (s @ u) = s @ w" "glob (STAR # p) w"
    using glob_literal_split [OF assms] by blast
  have "w = drop (length s) (drop n (s @ u))"
    by (simp only: w(1)) simp
  also have "\<dots> = drop n (drop (length s) (s @ u))"
    by (simp only: drop_drop add.commute)
  finally have "u = take n u @ w"
    by simp
  then show "glob (STAR # p) u"
    using glob_star_suffix [OF w(2)] by metis
next
  assume "glob (STAR # p) u"
  then have "glob (s @ STAR # p) (s @ u)"
    using assms by (simp add: glob_literal)
  then show "glob (STAR # s @ STAR # p) (s @ u)"
    unfolding glob_star_iff by (rule_tac exI [of _ 0]) simp
qed

text \<open>A literal run that matched and then met the wrong byte shifts the star by one.\<close>

lemma glob_shift:
  assumes "STAR \<notin> set s" and "q = [] \<or> hd q \<noteq> STAR \<and> hd q \<noteq> d"
  shows "glob (STAR # s @ q) (s @ d # u) = glob (STAR # s @ q) (tl (s @ d # u))"
proof -
  have "\<not> glob (s @ q) (s @ d # u)"
    using assms glob_literal [of s q "d # u"] by (cases q) auto
  then show ?thesis
    by (cases s) auto
qed

lemma glob_final:
  assumes "STAR \<notin> set s"
  shows "glob (STAR # s @ q) s = list_all (\<lambda>b. b = STAR) q"
proof
  assume "glob (STAR # s @ q) s"
  then obtain n where n: "glob (s @ q) (drop n s)"
    by (auto simp: glob_star_iff)
  then obtain u where u: "drop n s = s @ u" "glob q u"
    using glob_literal_split [OF assms] by blast
  have "length s - n = length (s @ u)"
    by (metis length_drop u(1))
  then have "u = []"
    by (cases u) auto
  with u(2) show "list_all (\<lambda>b. b = STAR) q"
    by (simp add: glob_empty_value)
next
  assume "list_all (\<lambda>b. b = STAR) q"
  then have "glob (s @ q) (s @ [])"
    using glob_literal [OF assms, of q "[]"] by (simp only: glob_empty_value)
  then show "glob (STAR # s @ q) s"
    unfolding glob_star_iff by (rule_tac exI [of _ 0]) simp
qed

section \<open>The loop\<close>

text \<open>
  Before a star nothing was given up: the rest of the pattern must match the rest of the value.
  After one, a literal run \<open>s\<close> of the pattern has been read off the value since the star, and the
  whole question is the one the star's position asks.
\<close>

fun scan_inv :: "byte list \<Rightarrow> byte list \<Rightarrow> scan \<Rightarrow> bool" where
  "scan_inv p v (Scan pi vi w wvi) \<longleftrightarrow>
     pi \<le> length p \<and> vi \<le> length v \<and>
     (case w of
        None \<Rightarrow> glob p v = glob (drop pi p) (drop vi v)
      | Some k \<Rightarrow> k < pi \<and> wvi \<le> vi \<and>
          (\<exists>s. STAR \<notin> set s \<and> drop k p = STAR # s @ drop pi p \<and> drop wvi v = s @ drop vi v \<and>
               glob p v = glob (STAR # s @ drop pi p) (s @ drop vi v)))"
| "scan_inv p v Mismatch \<longleftrightarrow> \<not> glob p v"

lemma drop_tl_Suc: "drop (Suc n) xs = tl (drop n xs)"
  by (simp add: drop_Suc tl_drop)

lemma scan_match_inv:
  assumes "scan_inv p v (Scan pi vi w wvi)" and "STAR \<notin> set v"
    and lt: "vi < length v" "pi < length p" and eq: "p ! pi = v ! vi"
  shows "scan_inv p v (Scan (pi + 1) (vi + 1) w wvi)"
proof -
  have c: "drop pi p = v ! vi # drop (Suc pi) p" "drop vi v = v ! vi # drop (Suc vi) v"
    using lt eq by (metis Cons_nth_drop_Suc)+
  have n: "v ! vi \<noteq> STAR"
    using assms(2) lt(1) by (metis nth_mem)
  show ?thesis
  proof (cases w)
    case None
    then show ?thesis
      using assms(1) lt c n by simp
  next
    case (Some k)
    then obtain s where s: "STAR \<notin> set s" "drop k p = STAR # s @ drop pi p"
        "drop wvi v = s @ drop vi v" "glob p v = glob (STAR # s @ drop pi p) (s @ drop vi v)"
        "k < pi" "wvi \<le> vi"
      using assms(1) by auto
    then show ?thesis
      using Some lt c n by (auto intro!: exI [of _ "s @ [v ! vi]"])
  qed
qed

lemma scan_star_inv:
  assumes "scan_inv p v (Scan pi vi w wvi)" and lt: "vi < length v" "pi < length p"
    and eq: "p ! pi = STAR"
  shows "scan_inv p v (Scan (pi + 1) vi (Some pi) vi)"
proof -
  have c: "drop pi p = STAR # drop (Suc pi) p"
    using lt eq by (metis Cons_nth_drop_Suc)
  have "glob p v = glob (drop pi p) (drop vi v)"
  proof (cases w)
    case None
    then show ?thesis using assms(1) by simp
  next
    case (Some k)
    then obtain s where s: "STAR \<notin> set s"
        "glob p v = glob (STAR # s @ drop pi p) (s @ drop vi v)"
      using assms(1) by auto
    show ?thesis
      using s(2) glob_second_star [OF s(1), of "drop (Suc pi) p" "drop vi v"]
      by (simp only: c)
  qed
  then show ?thesis
    using lt c by (auto intro!: exI [of _ "[]"])
qed

lemma scan_back_inv:
  assumes "scan_inv p v (Scan pi vi (Some k) wvi)" and lt: "vi < length v"
    and ne: "pi < length p \<longrightarrow> p ! pi \<noteq> v ! vi \<and> p ! pi \<noteq> STAR"
  shows "scan_inv p v (Scan (k + 1) (wvi + 1) (Some k) (wvi + 1))"
proof -
  obtain s where s: "STAR \<notin> set s" "drop k p = STAR # s @ drop pi p"
      "drop wvi v = s @ drop vi v" "glob p v = glob (STAR # s @ drop pi p) (s @ drop vi v)"
      "k < pi" "wvi \<le> vi" "pi \<le> length p"
    using assms(1) by auto
  have d: "drop vi v = v ! vi # drop (Suc vi) v"
    using lt by (simp add: Cons_nth_drop_Suc)
  have "drop pi p = [] \<or> hd (drop pi p) \<noteq> STAR \<and> hd (drop pi p) \<noteq> v ! vi"
    using ne by (cases "pi < length p") (auto simp: hd_drop_conv_nth)
  from glob_shift [OF s(1) this, of "drop (Suc vi) v"]
  have "glob p v = glob (STAR # s @ drop pi p) (tl (s @ drop vi v))"
    by (simp only: s(4) d [symmetric])
  then have "glob p v = glob (STAR # s @ drop pi p) (drop (Suc wvi) v)"
    by (simp only: drop_tl_Suc s(3))
  moreover have "drop (Suc k) p = s @ drop pi p"
    by (simp add: drop_tl_Suc s(2))
  ultimately show ?thesis
    using s lt by (auto intro!: exI [of _ "[]"])
qed

lemma scan_stuck:
  assumes "scan_inv p v (Scan pi vi None wvi)" and lt: "vi < length v"
    and ne: "pi < length p \<longrightarrow> p ! pi \<noteq> v ! vi \<and> p ! pi \<noteq> STAR"
  shows "\<not> glob p v"
proof (cases "pi < length p")
  case True
  then show ?thesis
    using assms by (simp add: Cons_nth_drop_Suc [symmetric])
next
  case False
  then show ?thesis
    using assms by simp
qed

lemma scan_step_inv:
  assumes "scan_inv p v st" and "STAR \<notin> set v" and "scanning v st"
  shows "scan_inv p v (scan_step p v st)"
proof (cases st)
  case (Scan pi vi w wvi)
  with assms have i: "scan_inv p v (Scan pi vi w wvi)" and lt: "vi < length v"
    by simp_all
  show ?thesis
    unfolding Scan scan_step.simps
    using scan_match_inv [OF i assms(2) lt] scan_star_inv [OF i lt]
      scan_back_inv [OF _ lt] scan_stuck [OF _ lt] i
    by (auto split: option.splits simp del: scan_inv.simps(1))
qed (use assms in simp)

lemma takeWhile_all: "length (takeWhile P xs) = length xs \<longleftrightarrow> list_all P xs"
  by (induction xs) auto

lemma scan_verdict_inv:
  assumes "scan_inv p v st" and "\<not> scanning v st"
  shows "scan_verdict p st = glob p v"
proof (cases st)
  case (Scan pi vi w wvi)
  then have vi: "drop vi v = []" and pi: "pi \<le> length p"
    using assms by auto
  have "scan_verdict p st = list_all (\<lambda>b. b = STAR) (drop pi p)"
    using pi takeWhile_all [of "\<lambda>b. b = STAR" "drop pi p"] by (auto simp: Scan)
  also have "\<dots> = glob p v"
    using assms(1) vi by (auto simp: Scan glob_empty_value glob_final split: option.splits)
  finally show ?thesis .
qed (use assms in simp)

text \<open>
  The loop ends: the star moves right in the pattern, for one star its value position moves
  right, and between two backtracks the value index does.
\<close>

fun scan_ok :: "byte list \<Rightarrow> byte list \<Rightarrow> scan \<Rightarrow> bool" where
  "scan_ok p v (Scan pi vi w wvi) \<longleftrightarrow> (case w of None \<Rightarrow> True | Some k \<Rightarrow> k < pi \<and> wvi \<le> vi)"
| "scan_ok p v Mismatch \<longleftrightarrow> True"

fun scan_rank :: "byte list \<Rightarrow> byte list \<Rightarrow> scan \<Rightarrow> nat \<times> nat \<times> nat" where
  "scan_rank p v (Scan pi vi w wvi) =
     (Suc (length p - (case w of None \<Rightarrow> 0 | Some k \<Rightarrow> Suc k)), length v - wvi, length v - vi)"
| "scan_rank p v Mismatch = (0, 0, 0)"

definition scan_order :: "byte list \<Rightarrow> byte list \<Rightarrow> (scan \<times> scan) set" where
  "scan_order p v = inv_image (less_than <*lex*> less_than <*lex*> less_than) (scan_rank p v)"

lemma scan_step_decreases:
  assumes "scan_ok p v st" and "scanning v st"
  shows "scan_ok p v (scan_step p v st) \<and> (scan_step p v st, st) \<in> scan_order p v"
  using assms
  by (cases st) (auto simp: scan_order_def split: option.splits)

lemma wildcard_run_returns: "\<exists>b. wildcard_run p v = Some b"
proof -
  have "\<exists>t. while_option (scanning v) (scan_step p v) (Scan 0 0 None 0) = Some t"
  proof (rule wf_while_option_Some [where P = "scan_ok p v"])
    have "wf (scan_order p v)"
      unfolding scan_order_def by (intro wf_inv_image wf_lex_prod wf_less_than)
    then show "wf {(t, s). (scan_ok p v s \<and> scanning v s) \<and> t = scan_step p v s}"
      by (rule wf_subset) (auto simp: scan_step_decreases)
  qed (simp_all add: scan_step_decreases)
  then show ?thesis
    by (auto simp: wildcard_run_def)
qed

lemma wildcard_run_glob:
  assumes "STAR \<notin> set v"
  shows "wildcard_run p v = Some (glob p v)"
proof -
  obtain t where t: "while_option (scanning v) (scan_step p v) (Scan 0 0 None 0) = Some t"
    using wildcard_run_returns [of p v] by (auto simp: wildcard_run_def)
  have "scan_inv p v t"
    by (rule while_option_rule [OF _ t, of "scan_inv p v"]) (auto simp: scan_step_inv assms)
  then show ?thesis
    using scan_verdict_inv while_option_stop [OF t] t by (auto simp: wildcard_run_def)
qed

section \<open>Bytes and characters\<close>

text \<open>
  The code matches bytes. A star of the byte pattern might stop inside a character of the value,
  but then the next literal byte of the pattern, which leads a character, cannot match.
\<close>

lemma lead_STAR [simp]: "lead STAR"
  by (simp add: lead_def STAR_def)

lemma utf8_STAR [simp]: "utf8_char STAR = [STAR]"
  by (simp add: utf8_char_def STAR_def)

lemma STAR_in_utf8_char [simp]: "STAR \<in> set (utf8_char c) \<longleftrightarrow> c = STAR"
  by (auto simp: utf8_char_def STAR_def)

lemma STAR_in_as_bytes [simp]: "STAR \<in> set (as_bytes s) \<longleftrightarrow> STAR \<in> set s"
  by (induction s) auto

lemma glob_mid_char:
  assumes "glob (as_bytes p) (ks @ as_bytes v)" and "ks \<noteq> []" and "list_all (\<lambda>b. \<not> lead b) ks"
  shows "glob (as_bytes p) (as_bytes v)"
  using assms
proof (induction p arbitrary: ks)
  case (Cons c p)
  show ?case
  proof (cases "c = STAR")
    case True
    then obtain n where n: "glob (as_bytes p) (drop n (ks @ as_bytes v))"
      using Cons.prems(1) by (auto simp: glob_star_iff)
    show ?thesis
    proof (cases "n < length ks")
      case True
      then have "glob (as_bytes p) (as_bytes v)"
        using n Cons.prems(3) by (intro Cons.IH [of "drop n ks"]) (auto simp: list_all_iff dest: in_set_dropD)
      then show ?thesis
        using \<open>c = STAR\<close> by (auto simp: glob_star_iff intro!: exI [of _ 0])
    next
      case False
      then have "glob (STAR # as_bytes p) (take (n - length ks) (as_bytes v) @ drop (n - length ks) (as_bytes v))"
        using n by (intro glob_star_suffix) (auto simp: glob_star_iff intro!: exI [of _ 0])
      then show ?thesis
        using \<open>c = STAR\<close> by simp
    qed
  next
    case False
    obtain b bs where "utf8_char c = b # bs" "lead b"
      by (rule utf8_char_shape)
    moreover from this have "b \<noteq> STAR"
      using False STAR_in_utf8_char [of c] by auto
    ultimately show ?thesis
      using Cons.prems by (cases ks) auto
  qed
qed simp

lemma drop_as_bytes:
  obtains ks m where "drop n (as_bytes v) = ks @ as_bytes (drop m v)" "list_all (\<lambda>b. \<not> lead b) ks"
    "m \<le> length v"
proof (induction v arbitrary: n thesis)
  case Nil
  show ?case by (rule Nil [of "[]" 0]) simp_all
next
  case (Cons c v)
  obtain b bs where b: "utf8_char c = b # bs" "list_all (\<lambda>x. \<not> lead x) bs"
    by (rule utf8_char_shape)
  consider "n = 0" | "0 < n" "n \<le> length (utf8_char c)" | "length (utf8_char c) < n"
    by linarith
  then show ?case
  proof cases
    case 1
    then show ?thesis by (intro Cons.prems [of "[]" 0]) simp_all
  next
    case 2
    then have "drop n (as_bytes (c # v)) = drop (n - 1) bs @ as_bytes (drop 1 (c # v))"
      by (cases n) (simp_all add: b)
    then show ?thesis
      using b(2) by - (rule Cons.prems [of "drop (n - 1) bs" 1], auto simp: list_all_iff dest: in_set_dropD)
  next
    case 3
    obtain ks m where "drop (n - length (utf8_char c)) (as_bytes v) = ks @ as_bytes (drop m v)"
        "list_all (\<lambda>b. \<not> lead b) ks" "m \<le> length v"
      by (rule Cons.IH)
    with 3 show ?thesis
      by (intro Cons.prems [of ks "Suc m"]) simp_all
  qed
qed

lemma glob_as_bytes: "glob (as_bytes p) (as_bytes v) = glob p v"
proof (induction p arbitrary: v)
  case (Cons c p)
  show ?case
  proof (cases "c = STAR")
    case True
    show ?thesis
    proof
      assume "glob (as_bytes (c # p)) (as_bytes v)"
      then obtain n where n: "glob (as_bytes p) (drop n (as_bytes v))"
        using True by (auto simp: glob_star_iff)
      obtain ks m where "drop n (as_bytes v) = ks @ as_bytes (drop m v)"
          "list_all (\<lambda>b. \<not> lead b) ks" "m \<le> length v"
        by (rule drop_as_bytes)
      then show "glob (c # p) v"
        using n True Cons.IH glob_mid_char [of p ks "drop m v"]
        by (cases "ks = []") (auto simp: glob_star_iff)
    next
      assume "glob (c # p) v"
      then obtain m where m: "glob (as_bytes p) (as_bytes (drop m v))"
        using True Cons.IH by (auto simp: glob_star_iff)
      then have "glob (STAR # as_bytes p) (as_bytes (take m v) @ as_bytes (drop m v))"
        by (intro glob_star_suffix) (auto simp: glob_star_iff intro!: exI [of _ 0])
      then show "glob (as_bytes (c # p)) (as_bytes v)"
        using True by (simp flip: as_bytes_simps(3))
    qed
  next
    case False
    then have s: "STAR \<notin> set (utf8_char c)"
      by simp
    show ?thesis
    proof (cases v)
      case Nil
      then show ?thesis
        using False s by (cases "utf8_char c") auto
    next
      case (Cons d v')
      have "glob (as_bytes (c # p)) (as_bytes v) \<longleftrightarrow> c = d \<and> glob (as_bytes p) (as_bytes v')"
        using glob_literal [OF s, of "as_bytes p" "as_bytes v'"]
          glob_literal_split [OF s, of "as_bytes p" "as_bytes v"]
        by (auto simp: Cons dest!: utf8_char_prefix)
      then show ?thesis
        using False Cons.IH by (simp add: Cons)
    qed
  qed
qed simp

lemma wildcard_matches_iff: "STAR \<notin> set v \<Longrightarrow> wildcard_matches p v \<longleftrightarrow> glob p v"
  by (simp add: wildcard_matches_def wildcard_run_glob glob_as_bytes)

text \<open>
  A star in the value is read as a literal before it is read as a wildcard, so the pattern that
  matches everything misses it.
\<close>

lemma wildcard_star_in_value:
  "glob (lit ''*'') (lit ''*x'')" "\<not> wildcard_matches (lit ''*'') (lit ''*x'')"
  by (simp add: STAR_def, code_simp)

end
