(* ===== verification/Repo_Config.thy ===== *)
theory Repo_Config
  imports Json Wildcards Providers
begin

text \<open>
  A repository's Kanna configuration (\<^verbatim>\<open>crates/kanna-server/src/task_creator/definitions.rs\<close> and
  \<^verbatim>\<open>local_config.rs\<close>): what a committed JSON object is read as, how the machine-local file is merged
  over it, and which provider preference an agent name resolves to.
\<close>

section \<open>Choosing a minimum\<close>

text \<open>\<^verbatim>\<open>Iterator::min_by\<close>: the first of the smallest elements.\<close>

fun min_by :: "('a \<Rightarrow> 'a \<Rightarrow> ordering) \<Rightarrow> 'a list \<Rightarrow> 'a option" where
  "min_by cmp [] = None"
| "min_by cmp (x # xs) = Some (foldl (\<lambda>m y. if cmp m y = OGreater then y else m) x xs)"

context ord_contract
begin

lemma foldl_min_le:
  defines "pick \<equiv> \<lambda>m y. if cmp m y = OGreater then y else m"
  shows "foldl pick x xs \<in> set (x # xs) \<and> (\<forall>y \<in> set (x # xs). cmp (foldl pick x xs) y \<noteq> OGreater)"
proof (induction xs arbitrary: x)
  case Nil
  then show ?case by (simp add: cmp_refl)
next
  case (Cons z xs)
  have p: "pick x z \<in> {x, z}" "cmp (pick x z) x \<noteq> OGreater" "cmp (pick x z) z \<noteq> OGreater"
    using greater_iff_less [of x z] by (auto simp: pick_def cmp_refl)
  have "cmp (foldl pick (pick x z) xs) (pick x z) \<noteq> OGreater"
    using Cons.IH [of "pick x z"] by simp
  then have "cmp (foldl pick (pick x z) xs) x \<noteq> OGreater" "cmp (foldl pick (pick x z) xs) z \<noteq> OGreater"
    using cmp_le_trans p by blast+
  then show ?case
    using Cons.IH [of "pick x z"] p(1) by auto
qed

lemma min_by_least:
  assumes "min_by cmp xs = Some m"
  shows "m \<in> set xs" and "y \<in> set xs \<Longrightarrow> cmp m y \<noteq> OGreater"
  using assms foldl_min_le [of "hd xs" "tl xs"] by (cases xs; auto)+

lemma min_by_None: "min_by cmp xs = None \<longleftrightarrow> xs = []"
  by (cases xs) simp_all

end

section \<open>The configuration\<close>

text \<open>Keys are compared as literals, never character by character.\<close>

declare lit_simps [simp del]

lemma lit_inject [simp]: "lit s = lit t \<longleftrightarrow> s = t"
  by (auto simp: lit_def inj_map_eq_map inj_on_def)

record provider_preference =
  pf_providers :: "ustr list"
  pf_model :: "ustr option"
  pf_effort :: "ustr option"

record repo_workspace_path =
  wp_prepend :: "ustr list option"
  wp_append :: "ustr list option"

record repo_workspace =
  ws_env :: "(ustr \<times> ustr) list option"
  ws_path :: "repo_workspace_path option"

record repo_config =
  rc_workflow :: "ustr option"
  rc_setup :: "ustr list option"
  rc_teardown :: "ustr list option"
  rc_test :: "ustr list option"
  rc_ports :: "(ustr \<times> nat) list option"
  rc_flavors :: "(ustr \<times> ustr) list option"
  rc_vars :: "(ustr \<times> ustr) list option"
  rc_agent_providers :: "(ustr \<times> provider_preference) list option"
  rc_reserved_ports :: "int list"
  rc_reserved_port_offsets :: "int list"
  rc_stage_order :: "ustr list option"
  rc_workspace :: "repo_workspace option"

text \<open>\<^verbatim>\<open>(!c.is_empty()).then_some(c)\<close>.\<close>

definition non_empty :: "'a list \<Rightarrow> 'a list option" where
  "non_empty xs = (if xs = [] then None else Some xs)"

definition preference_providers :: "json \<Rightarrow> ustr list option" where
  "preference_providers j =
     (case j of
        JString s \<Rightarrow> Some (csv_entries s)
      | JArray vs \<Rightarrow>
          do { ss \<leftarrow> collect_options (map json_as_str vs);
               Some (filter (\<lambda>p. p \<noteq> []) (map trim ss)) }
      | _ \<Rightarrow> None)"

definition parse_agent_provider_preference :: "json \<Rightarrow> provider_preference option" where
  "parse_agent_provider_preference v =
     do { (p, model, effort) \<leftarrow>
            (case v of
               JString _ \<Rightarrow> Some (v, None, None)
             | JObject raw \<Rightarrow>
                 do { p \<leftarrow> map_of raw (lit ''provider'');
                      Some (p, Option.bind (map_of raw (lit ''model'')) json_as_str,
                            Option.bind (map_of raw (lit ''effort'')) json_as_str) }
             | _ \<Rightarrow> None);
          providers \<leftarrow> preference_providers p;
          providers \<leftarrow> non_empty providers;
          Some \<lparr>pf_providers = providers, pf_model = model, pf_effort = effort\<rparr> }"

definition string_array :: "(ustr \<times> json) list \<Rightarrow> ustr \<Rightarrow> ustr list option" where
  "string_array raw name =
     do { v \<leftarrow> map_of raw name; vs \<leftarrow> json_as_array v; collect_options (map json_as_str vs) }"

definition string_map :: "json option \<Rightarrow> (ustr \<times> ustr) list option" where
  "string_map j =
     do { v \<leftarrow> j; m \<leftarrow> json_as_object v; non_empty (bt_collect (map_values (\<lambda>_. json_as_str) m)) }"

definition u16_try_from :: "nat \<Rightarrow> nat option" where
  "u16_try_from n = (if n < 65536 then Some n else None)"

definition config_ports :: "(ustr \<times> json) list \<Rightarrow> (ustr \<times> nat) list option" where
  "config_ports raw =
     do { v \<leftarrow> map_of raw (lit ''ports''); m \<leftarrow> json_as_object v;
          non_empty (bt_collect (map_values (\<lambda>_ x. Option.bind (json_as_u64 x) u16_try_from) m)) }"

definition preference_entry :: "ustr \<Rightarrow> json \<Rightarrow> provider_preference option" where
  "preference_entry pattern v =
     (if trim pattern \<noteq> [] then parse_agent_provider_preference v else None)"

definition deserialize_optional_agent_provider_preferences ::
  "json option \<Rightarrow> (ustr \<times> provider_preference) list option" where
  "deserialize_optional_agent_provider_preferences j =
     do { v \<leftarrow> j; m \<leftarrow> json_as_object v; non_empty (bt_collect (map_values preference_entry m)) }"

definition integer_array :: "(ustr \<times> json) list \<Rightarrow> ustr \<Rightarrow> (int \<Rightarrow> bool) \<Rightarrow> int list" where
  "integer_array raw name valid =
     (case do { v \<leftarrow> map_of raw name; vs \<leftarrow> json_as_array v;
                non_empty (filter valid (filter_map json_as_i64 vs)) } of
        Some vs \<Rightarrow> vs | None \<Rightarrow> [])"

definition filtered_entries :: "(ustr \<times> json) list \<Rightarrow> ustr \<Rightarrow> ustr list option" where
  "filtered_entries raw name =
     do { v \<leftarrow> map_of raw name; vs \<leftarrow> json_as_array v; non_empty (filter_map json_as_str vs) }"

definition config_workspace :: "(ustr \<times> json) list \<Rightarrow> repo_workspace option" where
  "config_workspace raw =
     do { v \<leftarrow> map_of raw (lit ''workspace''); w \<leftarrow> json_as_object v;
          let env = string_map (map_of w (lit ''env''));
              path = do { pv \<leftarrow> map_of w (lit ''path''); p \<leftarrow> json_as_object pv;
                          let prepend = filtered_entries p (lit ''prepend'');
                              append = filtered_entries p (lit ''append'')
                          in if is_Some prepend \<or> is_Some append
                             then Some \<lparr>wp_prepend = prepend, wp_append = append\<rparr> else None }
          in if is_Some env \<or> is_Some path then Some \<lparr>ws_env = env, ws_path = path\<rparr> else None }"

definition repo_config_from_object :: "(ustr \<times> json) list \<Rightarrow> repo_config" where
  "repo_config_from_object raw =
     \<lparr>rc_workflow =
        Option.bind
          (case map_of raw (lit ''workflow'') of
             Some v \<Rightarrow> Some v | None \<Rightarrow> map_of raw (lit ''pipeline'')) json_as_str,
      rc_setup = string_array raw (lit ''setup''),
      rc_teardown = string_array raw (lit ''teardown''),
      rc_test = string_array raw (lit ''test''),
      rc_ports = config_ports raw,
      rc_flavors = string_map (map_of raw (lit ''flavors'')),
      rc_vars = string_map (map_of raw (lit ''vars'')),
      rc_agent_providers =
        do { v \<leftarrow> map_of raw (lit ''agentProviders''); m \<leftarrow> json_as_object v;
             non_empty (bt_collect (map_values preference_entry m)) },
      rc_reserved_ports = integer_array raw (lit ''reserved_ports'') (\<lambda>v. 1 \<le> v \<and> v \<le> 65535),
      rc_reserved_port_offsets = integer_array raw (lit ''reserved_port_offsets'') (\<lambda>v. 0 \<le> v),
      rc_stage_order = string_array raw (lit ''stage_order''),
      rc_workspace = config_workspace raw\<rparr>"

section \<open>The preference of an agent\<close>

definition str_cmp :: "ustr \<Rightarrow> ustr \<Rightarrow> ordering" where
  "str_cmp a b = (if a < b then OLess else if a = b then OEqual else OGreater)"

definition specificity :: "ustr \<Rightarrow> nat" where
  "specificity pattern = length (filter (\<lambda>b. b \<noteq> STAR) (as_bytes pattern))"

definition compare_agent_provider_globs :: "ustr \<Rightarrow> ustr \<Rightarrow> ordering" where
  "compare_agent_provider_globs left right =
     (case nat_cmp (specificity right) (specificity left) of
        OEqual \<Rightarrow> str_cmp left right
      | ord \<Rightarrow> ord)"

definition agent_provider_preference ::
  "repo_config \<Rightarrow> ustr option \<Rightarrow> provider_preference option" where
  "agent_provider_preference config agent_selector =
     do { s \<leftarrow> agent_selector;
          let selector = trim s in
          if selector = [] then None
          else do { preferences \<leftarrow> rc_agent_providers config;
                    case map_of preferences selector of
                      Some preference \<Rightarrow> Some preference
                    | None \<Rightarrow>
                        map_option snd
                          (min_by (\<lambda>l r. compare_agent_provider_globs (fst l) (fst r))
                            (filter (\<lambda>(pattern, _). STAR \<in> set pattern \<and> wildcard_matches pattern selector)
                              preferences)) } }"

interpretation str_ord: ord_contract str_cmp
  by unfold_locales (auto simp: str_cmp_def split: if_splits)

lemma glob_cmp_cases:
  "compare_agent_provider_globs a b = OLess \<longleftrightarrow>
     specificity b < specificity a \<or> specificity b = specificity a \<and> a < b"
  "compare_agent_provider_globs a b = OEqual \<longleftrightarrow> a = b"
  "compare_agent_provider_globs a b = OGreater \<longleftrightarrow>
     specificity a < specificity b \<or> specificity b = specificity a \<and> b < a"
  by (cases "specificity b" "specificity a" rule: linorder_cases; cases a b rule: linorder_cases;
      force simp: compare_agent_provider_globs_def nat_cmp_def str_cmp_def)+

lemma ordering_eqI:
  "(x = OLess \<longleftrightarrow> y = OLess) \<Longrightarrow> (x = OEqual \<longleftrightarrow> y = OEqual) \<Longrightarrow> x = (y :: ordering)"
  by (cases x; cases y) simp_all

lemma ordering_reverse_iff:
  "ordering_reverse x = OLess \<longleftrightarrow> x = OGreater" "ordering_reverse x = OEqual \<longleftrightarrow> x = OEqual"
  by (cases x; simp)+

interpretation glob_ord: ord_contract compare_agent_provider_globs
proof
  fix a b c
  show "compare_agent_provider_globs a a = OEqual"
    by (simp add: glob_cmp_cases)
  show "compare_agent_provider_globs b a = ordering_reverse (compare_agent_provider_globs a b)"
    by (rule ordering_eqI) (auto simp: glob_cmp_cases ordering_reverse_iff)
  show "compare_agent_provider_globs a b \<noteq> OGreater \<Longrightarrow>
      compare_agent_provider_globs b c \<noteq> OGreater \<Longrightarrow> compare_agent_provider_globs a c \<noteq> OGreater"
    unfolding glob_cmp_cases by (metis less_trans not_less_iff_gr_or_eq)
qed

interpretation entry_ord: ord_contract "\<lambda>l r. compare_agent_provider_globs (fst l) (fst r)"
  by unfold_locales
    (auto intro: glob_ord.cmp_flip glob_ord.cmp_refl dest: glob_ord.cmp_le_trans)

section \<open>Reading a configuration\<close>

definition preference_wf :: "provider_preference \<Rightarrow> bool" where
  "preference_wf p \<longleftrightarrow> pf_providers p \<noteq> [] \<and> (\<forall>s \<in> set (pf_providers p). s \<noteq> [] \<and> trim s = s)"

definition table_wf :: "('v \<Rightarrow> bool) \<Rightarrow> (ustr \<times> 'v) list option \<Rightarrow> bool" where
  "table_wf ok m \<longleftrightarrow> pred_option (\<lambda>m. m \<noteq> [] \<and> bt_wf m \<and> (\<forall>kv \<in> set m. ok (snd kv))) m"

definition workspace_wf :: "repo_workspace \<Rightarrow> bool" where
  "workspace_wf w \<longleftrightarrow>
     (is_Some (ws_env w) \<or> is_Some (ws_path w)) \<and> table_wf (\<lambda>_. True) (ws_env w) \<and>
     pred_option (\<lambda>p. (is_Some (wp_prepend p) \<or> is_Some (wp_append p)) \<and>
        wp_prepend p \<noteq> Some [] \<and> wp_append p \<noteq> Some []) (ws_path w)"

definition repo_config_wf :: "repo_config \<Rightarrow> bool" where
  "repo_config_wf c \<longleftrightarrow>
     table_wf (\<lambda>port. port < 65536) (rc_ports c) \<and>
     table_wf (\<lambda>_. True) (rc_flavors c) \<and> table_wf (\<lambda>_. True) (rc_vars c) \<and>
     table_wf preference_wf (rc_agent_providers c) \<and>
     pred_option (\<lambda>m. \<forall>kv \<in> set m. trim (fst kv) \<noteq> []) (rc_agent_providers c) \<and>
     (\<forall>v \<in> set (rc_reserved_ports c). 1 \<le> v \<and> v \<le> 65535) \<and>
     (\<forall>v \<in> set (rc_reserved_port_offsets c). 0 \<le> v) \<and>
     pred_option workspace_wf (rc_workspace c)"

lemma non_empty_SomeD: "non_empty xs = Some ys \<Longrightarrow> ys = xs \<and> xs \<noteq> []"
  by (simp add: non_empty_def split: if_splits)

lemma csv_entries_ok: "s \<in> set (csv_entries t) \<Longrightarrow> s \<noteq> [] \<and> trim s = s"
  by (auto simp: csv_entries_def)

lemma preference_providers_ok: "preference_providers j = Some ps \<Longrightarrow> s \<in> set ps \<Longrightarrow> s \<noteq> [] \<and> trim s = s"
  using csv_entries_ok [of s]
  by (auto simp: preference_providers_def split: json.splits Option.bind_splits)

lemma parse_preference_wf: "parse_agent_provider_preference v = Some p \<Longrightarrow> preference_wf p"
  by (auto simp: parse_agent_provider_preference_def preference_wf_def
      dest!: non_empty_SomeD split: json.splits Option.bind_splits dest: preference_providers_ok)

lemma table_wf_collect:
  assumes "\<And>k v w. f k v = Some w \<Longrightarrow> ok w"
  shows "table_wf ok (Option.bind x (\<lambda>m. non_empty (bt_collect (map_values f m))))"
  by (auto simp: table_wf_def assms bt_collect_wf dest!: non_empty_SomeD bt_collect_entry map_values_entry
      split: Option.bind_splits simp: pred_option_def)

lemma string_map_wf: "table_wf (\<lambda>_. True) (string_map j)"
  using table_wf_collect [of "\<lambda>_. json_as_str" "\<lambda>_. True" "Option.bind j json_as_object"]
  by (simp add: string_map_def)

lemma integer_array_valid: "\<forall>v \<in> set (integer_array raw name valid). valid v"
  by (auto simp: integer_array_def non_empty_def split: option.splits Option.bind_splits if_splits)

lemma filtered_entries_ne: "filtered_entries raw name \<noteq> Some []"
  by (auto simp: filtered_entries_def dest!: non_empty_SomeD split: Option.bind_splits)

lemma config_ports_wf: "table_wf (\<lambda>port. port < 65536) (config_ports raw)"
  unfolding config_ports_def bind_assoc [symmetric]
  by (rule table_wf_collect) (auto simp: u16_try_from_def split: Option.bind_splits if_splits)

lemma config_workspace_wf: "config_workspace raw = Some w \<Longrightarrow> workspace_wf w"
  by (auto simp: config_workspace_def workspace_wf_def string_map_wf filtered_entries_ne Let_def
      pred_option_def split: Option.bind_splits if_splits)

lemma agent_providers_wf:
  fixes x :: "(ustr \<times> json) list option"
  defines "t \<equiv> Option.bind x (\<lambda>m. non_empty (bt_collect (map_values preference_entry m)))"
  shows "table_wf preference_wf t" "pred_option (\<lambda>m. \<forall>kv \<in> set m. trim (fst kv) \<noteq> []) t"
proof -
  show "table_wf preference_wf t"
    unfolding t_def by (rule table_wf_collect)
      (auto simp: preference_entry_def parse_preference_wf split: if_splits)
  show "pred_option (\<lambda>m. \<forall>kv \<in> set m. trim (fst kv) \<noteq> []) t"
    by (auto simp: t_def pred_option_def preference_entry_def split: Option.bind_splits if_splits
        dest!: non_empty_SomeD bt_collect_entry map_values_entry)
qed

text \<open>
  C36: Whatever object a repository's \<^verbatim>\<open>.kanna/config.json\<close> holds, the configuration read from it is
  well formed: ports fit sixteen bits, reserved ports and offsets are in range, every table is non-empty
  when present with one entry per key, every provider preference names at least one provider, trimmed and
  non-empty, under a non-blank pattern, and a workspace section that says nothing is absent. Values of the
  wrong shape are left out instead of failing the read.
\<close>

theorem repo_config_well_formed: "repo_config_wf (repo_config_from_object raw)"
proof -
  let ?c = "repo_config_from_object raw"
  have f: "rc_ports ?c = config_ports raw" "rc_flavors ?c = string_map (map_of raw (lit ''flavors''))"
      "rc_vars ?c = string_map (map_of raw (lit ''vars''))" "rc_workspace ?c = config_workspace raw"
      "rc_reserved_ports ?c = integer_array raw (lit ''reserved_ports'') (\<lambda>v. 1 \<le> v \<and> v \<le> 65535)"
      "rc_reserved_port_offsets ?c = integer_array raw (lit ''reserved_port_offsets'') (\<lambda>v. 0 \<le> v)"
      "rc_agent_providers ?c =
         Option.bind (Option.bind (map_of raw (lit ''agentProviders'')) json_as_object)
           (\<lambda>m. non_empty (bt_collect (map_values preference_entry m)))"
    by (simp_all add: repo_config_from_object_def)
  have "pred_option workspace_wf (config_workspace raw)"
    by (auto simp: pred_option_def config_workspace_wf)
  then show ?thesis
    unfolding repo_config_wf_def f
    by (intro conjI config_ports_wf string_map_wf agent_providers_wf integer_array_valid)
qed

section \<open>The most specific pattern\<close>

lemma glob_not_greater:
  "compare_agent_provider_globs k k' \<noteq> OGreater \<longleftrightarrow>
     specificity k' < specificity k \<or> specificity k' = specificity k \<and> k \<le> k'"
  by (auto simp: glob_cmp_cases)

definition candidate_pattern :: "ustr \<Rightarrow> ustr \<Rightarrow> bool" where
  "candidate_pattern selector k \<longleftrightarrow> STAR \<in> set k \<and> glob k selector"

definition best_pattern :: "(ustr \<Rightarrow> bool) \<Rightarrow> (ustr \<times> 'v) list \<Rightarrow> ustr \<Rightarrow> bool" where
  "best_pattern P m k \<longleftrightarrow>
     P k \<and> (\<forall>k' \<in> fst ` set m. P k' \<longrightarrow>
       specificity k' < specificity k \<or> specificity k' = specificity k \<and> k \<le> k')"

lemma min_by_best:
  assumes "min_by (\<lambda>l r. compare_agent_provider_globs (fst l) (fst r)) (filter (\<lambda>kv. P (fst kv)) m) =
      Some kv"
  shows "kv \<in> set m" and "best_pattern P m (fst kv)"
  using entry_ord.min_by_least [OF assms]
  by (auto simp: best_pattern_def simp flip: glob_not_greater)

lemma best_pattern_unique:
  assumes "best_pattern P m k" "best_pattern P m k'" "k \<in> fst ` set m" "k' \<in> fst ` set m"
  shows "k = k'"
proof -
  have "compare_agent_provider_globs k k' \<noteq> OGreater" "compare_agent_provider_globs k' k \<noteq> OGreater"
    using assms unfolding glob_not_greater by (auto simp: best_pattern_def)
  then show ?thesis
    by (auto simp: glob_cmp_cases)
qed

lemma preference_pick:
  assumes "bt_wf m"
  shows "map_option snd (min_by (\<lambda>l r. compare_agent_provider_globs (fst l) (fst r))
      (filter (\<lambda>kv. P (fst kv)) m)) = Some p \<longleftrightarrow> (\<exists>k. map_of m k = Some p \<and> best_pattern P m k)"
    (is "map_option snd ?min = _ \<longleftrightarrow> _")
proof
  assume "map_option snd ?min = Some p"
  then obtain k where "?min = Some (k, p)"
    by auto
  then show "\<exists>k. map_of m k = Some p \<and> best_pattern P m k"
    using min_by_best [of P m] bt_wf_distinct [OF assms] by fastforce
next
  assume "\<exists>k. map_of m k = Some p \<and> best_pattern P m k"
  then obtain k where k: "map_of m k = Some p" "best_pattern P m k"
    by blast
  then have "(k, p) \<in> set (filter (\<lambda>kv. P (fst kv)) m)"
    by (simp add: best_pattern_def map_of_SomeD)
  then obtain kv where kv: "?min = Some kv"
    by (metis entry_ord.min_by_None empty_iff list.set(1) not_None_eq)
  have "fst kv = k"
    by (rule best_pattern_unique [of P m]) (use min_by_best [OF kv] k map_of_SomeD [OF k(1)] in force)+
  then show "map_option snd ?min = Some p"
    using kv k(1) min_by_best(1) [OF kv] bt_wf_distinct [OF assms]
    by (cases kv) (auto intro: eq_key_imp_eq_value)
qed


definition sample_config :: "(ustr \<times> json) list" where
  "sample_config =
     [(lit ''agentProviders'',
       JObject [(lit ''*'', JString (lit ''codex, claude'')),
                (lit ''review'', JString (lit ''claude'')),
                (lit ''review-*'', JObject [(lit ''model'', JString (lit ''sol'')), (lit ''provider'', JString (lit ''codex''))])]),
      (lit ''ports'', JObject [(lit ''BIG'', JNumber (PosInt 70000)), (lit ''WEB'', JNumber (PosInt 1420))]),
      (lit ''workflow'', JString (lit ''no-review''))]"


end
