(* ===== verification/Local_Config.thy ===== *)
theory Local_Config
  imports Repo_Config
begin

text \<open>
  The machine-local layer over a repository's configuration
  (\<^verbatim>\<open>crates/kanna-server/src/task_creator/local_config.rs\<close>): which keys \<^verbatim>\<open>.kanna/config.local.json\<close> may
  set, what a value must be, how it is merged over the committed object, and what the merged object means
  once it is read as a configuration. The file's content and serde's reader are parameters.
\<close>

section \<open>What the file may say\<close>

datatype local_merge = Replace | Entries

datatype local_detail =
    NotWorkflowName
  | NotCommands
  | NotPortTable
  | NotPort ustr
  | NotProviderTable
  | EmptySelector
  | NotPreference ustr

datatype local_error =
    CannotRead
  | NotJson
  | NotObject
  | NotOverridable ustr
  | InvalidValue ustr local_detail

definition validate_workflow :: "json \<Rightarrow> local_detail + unit" where
  "validate_workflow v =
     (case json_as_str v of
        Some name \<Rightarrow> if trim name \<noteq> [] then Inr () else Inl NotWorkflowName
      | None \<Rightarrow> Inl NotWorkflowName)"

definition validate_string_array :: "json \<Rightarrow> local_detail + unit" where
  "validate_string_array v =
     (case json_as_array v of
        Some vs \<Rightarrow> if list_all (\<lambda>x. is_Some (json_as_str x)) vs then Inr () else Inl NotCommands
      | None \<Rightarrow> Inl NotCommands)"

definition port_valid :: "json \<Rightarrow> bool" where
  "port_valid v = (case json_as_u64 v of Some port \<Rightarrow> 1 \<le> port \<and> port \<le> 65535 | None \<Rightarrow> False)"

definition validate_ports :: "json \<Rightarrow> local_detail + unit" where
  "validate_ports v =
     (case json_as_object v of
        None \<Rightarrow> Inl NotPortTable
      | Some entries \<Rightarrow>
          (case find (\<lambda>(_, port). \<not> port_valid port) entries of
             Some (name, _) \<Rightarrow> Inl (NotPort name)
           | None \<Rightarrow> Inr ()))"

fun validate_provider_entries :: "(ustr \<times> json) list \<Rightarrow> local_detail + unit" where
  "validate_provider_entries [] = Inr ()"
| "validate_provider_entries ((pattern, preference) # entries) =
     (if trim pattern = [] then Inl EmptySelector
      else if parse_agent_provider_preference preference = None then Inl (NotPreference pattern)
      else validate_provider_entries entries)"

definition validate_agent_providers :: "json \<Rightarrow> local_detail + unit" where
  "validate_agent_providers v =
     (case json_as_object v of
        None \<Rightarrow> Inl NotProviderTable
      | Some entries \<Rightarrow> validate_provider_entries entries)"

record overridable_key =
  ok_name :: ustr
  ok_merge :: local_merge
  ok_validate :: "json \<Rightarrow> local_detail + unit"

definition OVERRIDABLE_KEYS :: "overridable_key list" where
  "OVERRIDABLE_KEYS =
     [\<lparr>ok_name = lit ''agentProviders'', ok_merge = Entries, ok_validate = validate_agent_providers\<rparr>,
      \<lparr>ok_name = lit ''workflow'', ok_merge = Replace, ok_validate = validate_workflow\<rparr>,
      \<lparr>ok_name = lit ''ports'', ok_merge = Entries, ok_validate = validate_ports\<rparr>,
      \<lparr>ok_name = lit ''setup'', ok_merge = Replace, ok_validate = validate_string_array\<rparr>,
      \<lparr>ok_name = lit ''teardown'', ok_merge = Replace, ok_validate = validate_string_array\<rparr>,
      \<lparr>ok_name = lit ''test'', ok_merge = Replace, ok_validate = validate_string_array\<rparr>]"

definition canonical_key :: "ustr \<Rightarrow> ustr" where
  "canonical_key key = (if key = lit ''pipeline'' then lit ''workflow'' else key)"

definition find_overridable :: "ustr \<Rightarrow> overridable_key option" where
  "find_overridable key = find (\<lambda>entry. ok_name entry = canonical_key key) OVERRIDABLE_KEYS"

section \<open>Merging\<close>

definition merge_entries :: "json option \<Rightarrow> json \<Rightarrow> json" where
  "merge_entries entry v =
     (let base = (case entry of Some (JObject b) \<Rightarrow> b | _ \<Rightarrow> [])
      in case json_as_object v of
           Some overrides \<Rightarrow> JObject (fold (\<lambda>(name, x). bt_insert name x) overrides base)
         | None \<Rightarrow> JObject base)"

definition merge_key :: "overridable_key \<Rightarrow> json \<Rightarrow> (ustr \<times> json) list \<Rightarrow> (ustr \<times> json) list" where
  "merge_key entry v config =
     (case ok_merge entry of
        Replace \<Rightarrow> bt_insert (ok_name entry) v config
      | Entries \<Rightarrow> bt_insert (ok_name entry) (merge_entries (map_of config (ok_name entry)) v) config)"

fun apply_local_keys ::
  "(ustr \<times> json) list \<Rightarrow> (ustr \<times> json) list \<Rightarrow> ustr list
     \<Rightarrow> local_error + ((ustr \<times> json) list \<times> ustr list)" where
  "apply_local_keys [] config keys = Inr (config, keys)"
| "apply_local_keys ((key, v) # local) config keys =
     (if key = lit ''$schema'' then apply_local_keys local config keys
      else case find_overridable key of
             None \<Rightarrow> Inl (NotOverridable key)
           | Some entry \<Rightarrow>
               (case ok_validate entry v of
                  Inl detail \<Rightarrow> Inl (InvalidValue key detail)
                | Inr _ \<Rightarrow>
                    apply_local_keys local (merge_key entry v config) (keys @ [canonical_key key])))"

datatype local_file = Absent | Unreadable | Content ustr

definition apply_local_config_override ::
  "(ustr \<Rightarrow> json option) \<Rightarrow> local_file \<Rightarrow> (ustr \<times> json) list
     \<Rightarrow> local_error + ((ustr \<times> json) list \<times> ustr list option)" where
  "apply_local_config_override from_str file config =
     (case file of
        Absent \<Rightarrow> Inr (config, None)
      | Unreadable \<Rightarrow> Inl CannotRead
      | Content content \<Rightarrow>
          (case from_str content of
             None \<Rightarrow> Inl NotJson
           | Some (JObject local) \<Rightarrow>
               (case apply_local_keys local config [] of
                  Inl e \<Rightarrow> Inl e
                | Inr (config', keys) \<Rightarrow>
                    Inr (config', if keys = [] then None else Some (sort keys)))
           | Some _ \<Rightarrow> Inl NotObject))"

section \<open>What a successful merge does to one key\<close>

definition protected_key :: "ustr \<Rightarrow> bool" where
  "protected_key k \<longleftrightarrow> (\<forall>entry \<in> set OVERRIDABLE_KEYS. ok_name entry \<noteq> k)"

lemma find_overridable_SomeD:
  "find_overridable key = Some entry \<Longrightarrow> entry \<in> set OVERRIDABLE_KEYS \<and> ok_name entry = canonical_key key"
  by (auto simp: find_overridable_def find_Some_iff)

lemma merge_key_other: "k \<noteq> ok_name entry \<Longrightarrow> map_of (merge_key entry v config) k = map_of config k"
  by (simp add: merge_key_def bt_insert_lookup split: local_merge.split)

lemma apply_local_keys_other:
  assumes "apply_local_keys local config keys = Inr (config', keys')"
    and "\<forall>key \<in> fst ` set local. canonical_key key \<noteq> k"
  shows "map_of config' k = map_of config k"
  using assms
proof (induction local config keys rule: apply_local_keys.induct)
  case (2 key v local config keys)
  then show ?case
    by (auto simp: merge_key_other dest!: find_overridable_SomeD split: if_splits option.splits sum.splits)
qed simp

lemma apply_local_keys_protected:
  assumes "apply_local_keys local config keys = Inr (config', keys')" and "protected_key k"
  shows "map_of config' k = map_of config k"
  using assms
proof (induction local config keys rule: apply_local_keys.induct)
  case (2 key v local config keys)
  then show ?case
    by (fastforce simp: merge_key_other protected_key_def dest!: find_overridable_SomeD
        split: if_splits option.splits sum.splits)
qed simp

definition merged_value :: "overridable_key \<Rightarrow> json option \<Rightarrow> json \<Rightarrow> json" where
  "merged_value entry old v = (case ok_merge entry of Replace \<Rightarrow> v | Entries \<Rightarrow> merge_entries old v)"

lemma merge_key_own:
  "map_of (merge_key entry v config) (ok_name entry) =
     Some (merged_value entry (map_of config (ok_name entry)) v)"
  by (simp add: merge_key_def merged_value_def bt_insert_lookup split: local_merge.split)

lemma apply_local_keys_ConsD:
  assumes "apply_local_keys ((key, v) # local) config keys = Inr r" and "key \<noteq> lit ''$schema''"
  obtains entry where "find_overridable key = Some entry" "ok_validate entry v = Inr ()"
    "apply_local_keys local (merge_key entry v config) (keys @ [canonical_key key]) = Inr r"
  using assms by (auto split: option.splits sum.splits)

text \<open>A key no other local key stands for is validated and merged over the committed value.\<close>

lemma apply_local_keys_own:
  assumes "apply_local_keys local config keys = Inr (config', keys')"
    and "map_of local key = Some v" and "distinct (map fst local)" and "key \<noteq> lit ''$schema''"
    and "\<forall>key' \<in> fst ` set local. canonical_key key' = canonical_key key \<longrightarrow> key' = key"
  shows "\<exists>entry. find_overridable key = Some entry \<and> ok_validate entry v = Inr () \<and>
    map_of config' (canonical_key key) =
      Some (merged_value entry (map_of config (canonical_key key)) v)"
  using assms
proof (induction local arbitrary: config keys)
  case (Cons kv local)
  obtain key1 v1 where kv: "kv = (key1, v1)"
    by (cases kv)
  note step = Cons.prems(1) [unfolded kv]
  consider "key1 = key" | "key1 = lit ''$schema''" "key1 \<noteq> key" | "key1 \<noteq> lit ''$schema''" "key1 \<noteq> key"
    by blast
  then show ?case
  proof cases
    case 1
    obtain entry where e: "find_overridable key1 = Some entry" "ok_validate entry v1 = Inr ()"
        "apply_local_keys local (merge_key entry v1 config) (keys @ [canonical_key key1]) = Inr (config', keys')"
      using apply_local_keys_ConsD [OF step] 1 Cons.prems(4) by blast
    have "map_of config' (canonical_key key) = map_of (merge_key entry v1 config) (canonical_key key)"
      by (rule apply_local_keys_other [OF e(3)]) (use Cons.prems 1 kv in force)
    then show ?thesis
      using e find_overridable_SomeD [OF e(1)] merge_key_own [of entry v1 config] Cons.prems(2) 1 kv
      by simp
  next
    case 2
    then show ?thesis
      using Cons.IH [of config keys] Cons.prems kv by simp
  next
    case 3
    obtain entry where e: "find_overridable key1 = Some entry"
        "apply_local_keys local (merge_key entry v1 config) (keys @ [canonical_key key1]) = Inr (config', keys')"
      using apply_local_keys_ConsD [OF step 3(1)] by blast
    have "canonical_key key1 \<noteq> canonical_key key"
      using Cons.prems(5) 3(2) kv by simp
    then have "map_of (merge_key entry v1 config) (canonical_key key) = map_of config (canonical_key key)"
      using find_overridable_SomeD [OF e(1)] by (intro merge_key_other) simp
    then show ?thesis
      using Cons.IH [OF e(2)] Cons.prems 3(2) kv by simp
  qed
qed simp

section \<open>Tables\<close>

text \<open>The entry a table-valued key of an object has under a name.\<close>

definition entry_of :: "(ustr \<times> json) list \<Rightarrow> ustr \<Rightarrow> ustr \<Rightarrow> json option" where
  "entry_of raw key name = Option.bind (map_of raw key) (\<lambda>v. json_get v name)"

lemma merge_entries_object:
  assumes "json_wf (JObject overrides)" and "\<forall>b. entry = Some b \<longrightarrow> json_wf b"
  shows "\<exists>m. merge_entries entry (JObject overrides) = JObject m \<and> bt_wf m \<and>
    map_of m = map_of (case entry of Some (JObject b) \<Rightarrow> b | _ \<Rightarrow> []) ++ map_of overrides"
proof -
  let ?b = "case entry of Some (JObject b) \<Rightarrow> b | _ \<Rightarrow> []"
  have b: "bt_wf ?b"
    using assms(2) by (auto split: option.split json.split)
  have "distinct (map fst overrides)"
    using assms(1) by (simp add: bt_wf_distinct)
  then show ?thesis
    using bt.look_put_distinct [OF b, of overrides] bt.good_put_all [OF b, of overrides]
    by (simp add: merge_entries_def Let_def)
qed

lemma json_wf_member: "json_wf (JObject m) \<Longrightarrow> map_of m k = Some v \<Longrightarrow> json_wf v"
  by (auto dest!: map_of_SomeD)

lemma canonical_key_inj: "key \<noteq> lit ''workflow'' \<Longrightarrow> key \<noteq> lit ''pipeline'' \<Longrightarrow>
    canonical_key key' = canonical_key key \<longleftrightarrow> key' = key"
  by (auto simp: canonical_key_def)

text \<open>Tables merge entry by entry.\<close>

lemma apply_local_keys_entries:
  assumes ok: "apply_local_keys local config keys = Inr (config', keys')"
    and wf: "json_wf (JObject local)" "json_wf (JObject config)"
    and k: "find_overridable key = Some entry" "ok_merge entry = Entries"
    and kc: "key \<notin> {lit ''$schema'', lit ''workflow'', lit ''pipeline''}"
    and obj: "\<And>v. ok_validate entry v = Inr () \<Longrightarrow> \<exists>m. v = JObject m"
  shows "entry_of config' key name =
    (case entry_of local key name of Some x \<Rightarrow> Some x | None \<Rightarrow> entry_of config key name)"
    and "\<forall>v. map_of config' key = Some v \<longrightarrow> (\<forall>m. v = JObject m \<longrightarrow> bt_wf m)"
proof -
  have c: "canonical_key key = key"
    using kc by (simp add: canonical_key_def)
  have *: "(entry_of config' key name =
      (case entry_of local key name of Some x \<Rightarrow> Some x | None \<Rightarrow> entry_of config key name)) \<and>
      (\<forall>v. map_of config' key = Some v \<longrightarrow> (\<forall>m. v = JObject m \<longrightarrow> bt_wf m))"
  proof (cases "map_of local key")
    case None
    then have "map_of config' key = map_of config key"
      using kc canonical_key_inj [of key]
      by (intro apply_local_keys_other [OF ok]) (auto simp: c map_of_eq_None_iff)
    then show ?thesis
      using None json_wf_member [OF wf(2), of key] by (auto simp: entry_of_def)
  next
    case (Some v)
    have d: "distinct (map fst local)"
      using wf(1) by (simp add: bt_wf_distinct)
    from apply_local_keys_own [OF ok Some d] kc canonical_key_inj [of key]
    have e: "ok_validate entry v = Inr ()" "map_of config' key = Some (merged_value entry (map_of config key) v)"
      using k(1) by (auto simp: c)
    obtain ov where v: "v = JObject ov"
      using obj [OF e(1)] by blast
    obtain m where m: "merge_entries (map_of config key) (JObject ov) = JObject m" "bt_wf m"
        "map_of m = map_of (case map_of config key of Some (JObject b) \<Rightarrow> b | _ \<Rightarrow> []) ++ map_of ov"
      using merge_entries_object [of ov "map_of config key"] json_wf_member [OF wf(1) Some]
        json_wf_member [OF wf(2)] v by blast
    then show ?thesis
      using e(2) k(2) Some v
      by (auto simp: entry_of_def merged_value_def json_get_def map_add_def split: option.split json.split)
  qed
  then show "entry_of config' key name =
    (case entry_of local key name of Some x \<Rightarrow> Some x | None \<Rightarrow> entry_of config key name)"
    and "\<forall>v. map_of config' key = Some v \<longrightarrow> (\<forall>m. v = JObject m \<longrightarrow> bt_wf m)"
    by blast+
qed

section \<open>The merged configuration\<close>

definition preference_at :: "repo_config \<Rightarrow> ustr \<Rightarrow> provider_preference option" where
  "preference_at c pattern = Option.bind (rc_agent_providers c) (\<lambda>m. map_of m pattern)"

definition port_at :: "repo_config \<Rightarrow> ustr \<Rightarrow> nat option" where
  "port_at c name = Option.bind (rc_ports c) (\<lambda>m. map_of m name)"

lemma collected_lookup:
  assumes "bt_wf m"
  shows "Option.bind (non_empty (bt_collect (map_values f m))) (\<lambda>t. map_of t k) =
    Option.bind (map_of m k) (f k)"
proof -
  have "map_of (bt_collect (map_values f m)) k = Option.bind (map_of m k) (f k)"
    by (simp only: bt_collect_sorted [OF map_values_wf [OF assms]]
        map_values_lookup [OF bt_wf_distinct [OF assms]])
  then show ?thesis
    by (auto simp: non_empty_def)
qed

lemma entry_lookup:
  assumes "\<forall>v. map_of raw key = Some v \<longrightarrow> (\<forall>m. v = JObject m \<longrightarrow> bt_wf m)"
  shows "Option.bind (Option.bind (Option.bind (map_of raw key) json_as_object)
      (\<lambda>m. non_empty (bt_collect (map_values f m)))) (\<lambda>t. map_of t k) =
    Option.bind (entry_of raw key k) (f k)"
proof (cases "map_of raw key")
  case (Some v)
  then show ?thesis
    using assms collected_lookup [of _ f k] by (cases v) (auto simp: entry_of_def json_get_def)
qed (simp add: entry_of_def)

lemma preference_at_entry:
  assumes "\<forall>v. map_of raw (lit ''agentProviders'') = Some v \<longrightarrow> (\<forall>m. v = JObject m \<longrightarrow> bt_wf m)"
  shows "preference_at (repo_config_from_object raw) k =
    Option.bind (entry_of raw (lit ''agentProviders'') k) (preference_entry k)"
  using entry_lookup [OF assms, of preference_entry k]
  by (simp add: preference_at_def repo_config_from_object_def)

lemma port_at_entry:
  assumes "\<forall>v. map_of raw (lit ''ports'') = Some v \<longrightarrow> (\<forall>m. v = JObject m \<longrightarrow> bt_wf m)"
  shows "port_at (repo_config_from_object raw) k =
    Option.bind (entry_of raw (lit ''ports'') k) (\<lambda>x. Option.bind (json_as_u64 x) u16_try_from)"
  using entry_lookup [OF assms, of "\<lambda>_ x. Option.bind (json_as_u64 x) u16_try_from" k]
  by (simp add: port_at_def repo_config_from_object_def config_ports_def)

lemma validate_provider_entries_ok:
  "validate_provider_entries m = Inr () \<Longrightarrow> map_of m k = Some x \<Longrightarrow> is_Some (preference_entry k x)"
  by (induction m rule: validate_provider_entries.induct)
    (auto simp: preference_entry_def is_Some_def split: if_splits)

lemma validate_agent_providers_ok:
  assumes "validate_agent_providers v = Inr ()"
  shows "\<exists>m. v = JObject m" and "json_get v k = Some x \<Longrightarrow> is_Some (preference_entry k x)"
  using assms validate_provider_entries_ok
  by (cases v; auto simp: validate_agent_providers_def json_get_def)+

lemma validate_ports_ok:
  assumes "validate_ports v = Inr ()"
  shows "\<exists>m. v = JObject m" and "json_get v k = Some x \<Longrightarrow> port_valid x"
  using assms
  by (cases v; force simp: validate_ports_def json_get_def find_None_iff dest: map_of_SomeD
      split: option.splits)+

lemma port_valid_u16: "port_valid x \<Longrightarrow> is_Some (Option.bind (json_as_u64 x) u16_try_from)"
  by (auto simp: port_valid_def u16_try_from_def is_Some_def split: option.splits)

lemma overridable_simps:
  "find_overridable (lit ''agentProviders'') =
     Some \<lparr>ok_name = lit ''agentProviders'', ok_merge = Entries, ok_validate = validate_agent_providers\<rparr>"
  "find_overridable (lit ''ports'') =
     Some \<lparr>ok_name = lit ''ports'', ok_merge = Entries, ok_validate = validate_ports\<rparr>"
  "find_overridable (lit ''workflow'') =
     Some \<lparr>ok_name = lit ''workflow'', ok_merge = Replace, ok_validate = validate_workflow\<rparr>"
  by (simp_all add: find_overridable_def OVERRIDABLE_KEYS_def canonical_key_def)

lemma protected_keys:
  "protected_key (lit ''vars'')" "protected_key (lit ''flavors'')" "protected_key (lit ''workspace'')"
  "protected_key (lit ''reserved_ports'')" "protected_key (lit ''reserved_port_offsets'')"
  "protected_key (lit ''stage_order'')"
  by (simp_all add: protected_key_def OVERRIDABLE_KEYS_def)

text \<open>A local table is in force: its entries are read, and the committed ones it does not name survive.\<close>

lemma local_preferences:
  assumes ok: "apply_local_keys local config keys = Inr (config', keys')"
    and wf: "json_wf (JObject local)" "json_wf (JObject config)"
  shows "preference_at (repo_config_from_object config') pattern =
    (case entry_of local (lit ''agentProviders'') pattern of
       Some x \<Rightarrow> preference_entry pattern x
     | None \<Rightarrow> preference_at (repo_config_from_object config) pattern)"
proof -
  note e = apply_local_keys_entries [OF ok wf overridable_simps(1), simplified, OF
      validate_agent_providers_ok(1)]
  have c: "\<forall>v. map_of config (lit ''agentProviders'') = Some v \<longrightarrow> (\<forall>m. v = JObject m \<longrightarrow> bt_wf m)"
    using json_wf_member [OF wf(2), of "lit ''agentProviders''"] by auto
  show ?thesis
    by (simp add: preference_at_entry [OF e(2)] preference_at_entry [OF c] e(1) split: option.split)
qed

lemma local_ports:
  assumes ok: "apply_local_keys local config keys = Inr (config', keys')"
    and wf: "json_wf (JObject local)" "json_wf (JObject config)"
  shows "port_at (repo_config_from_object config') name =
    (case entry_of local (lit ''ports'') name of
       Some x \<Rightarrow> Option.bind (json_as_u64 x) u16_try_from
     | None \<Rightarrow> port_at (repo_config_from_object config) name)"
proof -
  note e = apply_local_keys_entries [OF ok wf overridable_simps(2), simplified, OF
      validate_ports_ok(1)]
  have c: "\<forall>v. map_of config (lit ''ports'') = Some v \<longrightarrow> (\<forall>m. v = JObject m \<longrightarrow> bt_wf m)"
    using json_wf_member [OF wf(2), of "lit ''ports''"] by auto
  show ?thesis
    by (simp add: port_at_entry [OF e(2)] port_at_entry [OF c] e(1) split: option.split)
qed

text \<open>Every entry of an accepted local table means something.\<close>

lemma local_entries_valid:
  assumes ok: "apply_local_keys local config keys = Inr (config', keys')"
    and wf: "json_wf (JObject local)"
  shows "entry_of local (lit ''agentProviders'') pattern = Some x \<Longrightarrow> is_Some (preference_entry pattern x)"
    and "entry_of local (lit ''ports'') name = Some y \<Longrightarrow>
      is_Some (Option.bind (json_as_u64 y) u16_try_from)"
proof -
  have d: "distinct (map fst local)"
    using wf by (simp add: bt_wf_distinct)
  have own: "\<exists>entry. find_overridable key = Some entry \<and> ok_validate entry v = Inr ()"
    if "map_of local key = Some v" "key \<noteq> lit ''$schema''" "key \<noteq> lit ''workflow''" "key \<noteq> lit ''pipeline''"
    for key v
    using apply_local_keys_own [OF ok that(1) d that(2)] canonical_key_inj [OF that(3,4)] by blast
  show "is_Some (preference_entry pattern x)" if "entry_of local (lit ''agentProviders'') pattern = Some x"
    using that own [of "lit ''agentProviders''"] validate_agent_providers_ok(2)
    by (auto simp: entry_of_def overridable_simps split: Option.bind_splits)
  show "is_Some (Option.bind (json_as_u64 y) u16_try_from)" if "entry_of local (lit ''ports'') name = Some y"
  proof (rule port_valid_u16)
    show "port_valid y"
      using that own [of "lit ''ports''"] validate_ports_ok(2) [of _ name y]
      by (auto simp: entry_of_def overridable_simps split: Option.bind_splits)
  qed
qed

lemma apply_local_keys_append:
  "apply_local_keys (xs @ ys) config keys =
     (case apply_local_keys xs config keys of
        Inl e \<Rightarrow> Inl e
      | Inr (config', keys') \<Rightarrow> apply_local_keys ys config' keys')"
  by (induction xs config keys rule: apply_local_keys.induct) (auto split: option.split sum.split)

text \<open>Where a key replaces, the last local key that stands for it is in force.\<close>

lemma apply_local_keys_replace:
  assumes "apply_local_keys (xs @ (key, v) # ys) config keys = Inr (config', keys')"
    and "key \<noteq> lit ''$schema''" and "find_overridable key = Some entry" and "ok_merge entry = Replace"
    and "\<forall>key' \<in> fst ` set ys. canonical_key key' \<noteq> canonical_key key"
  shows "map_of config' (canonical_key key) = Some v" and "ok_validate entry v = Inr ()"
proof -
  obtain c k where c: "apply_local_keys ((key, v) # ys) c k = Inr (config', keys')"
    using assms(1) by (auto simp: apply_local_keys_append split: sum.splits)
  then have e: "ok_validate entry v = Inr ()"
      "apply_local_keys ys (merge_key entry v c) (k @ [canonical_key key]) = Inr (config', keys')"
    using apply_local_keys_ConsD [OF c assms(2)] assms(3) by auto
  have "map_of config' (canonical_key key) = map_of (merge_key entry v c) (canonical_key key)"
    by (rule apply_local_keys_other [OF e(2) assms(5)])
  then show "map_of config' (canonical_key key) = Some v" and "ok_validate entry v = Inr ()"
    using e(1) find_overridable_SomeD [OF assms(3)] merge_key_own [of entry v c] assms(4)
    by (simp_all add: merged_value_def)
qed

lemma later_keys_greater:
  assumes "bt_wf (xs @ (key, v) # ys)" and "key' \<in> fst ` set ys"
  shows "key < key'"
  using assms by (auto simp: bt_wf_def sorted_wrt_append)

lemma workflow_alias: "canonical_key key = lit ''workflow'' \<longleftrightarrow> key = lit ''workflow'' \<or> key = lit ''pipeline''"
  by (auto simp: canonical_key_def)

lemma local_workflow_last:
  assumes ok: "apply_local_keys local config keys = Inr (config', keys')" and wf: "bt_wf local"
    and v: "map_of local key = Some v"
    and key: "key = lit ''workflow'' \<or> key = lit ''pipeline'' \<and> map_of local (lit ''workflow'') = None"
  shows "map_of config' (lit ''workflow'') = Some v"
proof -
  from map_of_SomeD [OF v] obtain xs ys where l: "local = xs @ (key, v) # ys"
    by (auto dest: split_list)
  have c: "canonical_key key = lit ''workflow''"
    using key by (auto simp: workflow_alias)
  have f: "find_overridable key = find_overridable (lit ''workflow'')"
    using c by (simp add: find_overridable_def canonical_key_def)
  have "lit ''pipeline'' < lit ''workflow''"
    by code_simp
  then have "canonical_key key' \<noteq> lit ''workflow''" if "key' \<in> fst ` set ys" for key'
    using later_keys_greater [OF wf [unfolded l] that] key that
    by (force simp: workflow_alias l map_of_eq_None_iff)
  then show ?thesis
    using apply_local_keys_replace(1) [OF ok [unfolded l], unfolded f, OF _ overridable_simps(3)] key
    by (auto simp: c)
qed

lemma local_workflow:
  assumes ok: "apply_local_keys local config keys = Inr (config', keys')" and wf: "bt_wf local"
  shows "map_of config' (lit ''workflow'') =
    (case map_of local (lit ''workflow'') of
       Some v \<Rightarrow> Some v
     | None \<Rightarrow> (case map_of local (lit ''pipeline'') of
                Some v \<Rightarrow> Some v | None \<Rightarrow> map_of config (lit ''workflow'')))"
proof -
  have "map_of config' (lit ''workflow'') = map_of config (lit ''workflow'')"
    if "map_of local (lit ''workflow'') = None" "map_of local (lit ''pipeline'') = None"
    using that by (intro apply_local_keys_other [OF ok]) (force simp: workflow_alias map_of_eq_None_iff)
  then show ?thesis
    using local_workflow_last [OF ok wf] by (simp split: option.split)
qed

lemma apply_local_config_override_InrD:
  assumes "apply_local_config_override from_str (Content content) config = Inr (config', overridden)"
  obtains local keys where "from_str content = Some (JObject local)"
    "apply_local_keys local config [] = Inr (config', keys)"
    "overridden = (if keys = [] then None else Some (sort keys))"
  using assms
  by (auto simp: apply_local_config_override_def split: option.splits json.splits sum.splits)

lemma apply_local_keys_names:
  assumes "apply_local_keys local config keys = Inr (config', keys')"
  shows "keys' = keys @ map canonical_key (filter (\<lambda>k. k \<noteq> lit ''$schema'') (map fst local))"
  using assms
  by (induction local config keys rule: apply_local_keys.induct)
    (auto split: if_splits option.splits sum.splits)

lemma local_override_facts:
  assumes "apply_local_config_override from_str (Content content) config = Inr (config', overridden)"
    and "from_str content = Some (JObject local)"
    and "json_wf (JObject local)" and "json_wf (JObject config)"
  defines "c \<equiv> repo_config_from_object config" and "c' \<equiv> repo_config_from_object config'"
  shows "preference_at c' pattern =
      (case entry_of local (lit ''agentProviders'') pattern of
         Some x \<Rightarrow> preference_entry pattern x | None \<Rightarrow> preference_at c pattern)"
    and "is_Some (entry_of local (lit ''agentProviders'') pattern) \<longrightarrow> is_Some (preference_at c' pattern)"
    and "port_at c' name =
      (case entry_of local (lit ''ports'') name of
         Some x \<Rightarrow> Option.bind (json_as_u64 x) u16_try_from | None \<Rightarrow> port_at c name)"
    and "is_Some (entry_of local (lit ''ports'') name) \<longrightarrow> is_Some (port_at c' name)"
    and "rc_workflow c' =
      (case map_of local (lit ''workflow'') of
         Some v \<Rightarrow> json_as_str v
       | None \<Rightarrow> (case map_of local (lit ''pipeline'') of Some v \<Rightarrow> json_as_str v | None \<Rightarrow> rc_workflow c))"
    and "rc_vars c' = rc_vars c \<and> rc_flavors c' = rc_flavors c \<and> rc_workspace c' = rc_workspace c \<and>
      rc_reserved_ports c' = rc_reserved_ports c \<and>
      rc_reserved_port_offsets c' = rc_reserved_port_offsets c \<and> rc_stage_order c' = rc_stage_order c"
proof -
  obtain keys where ok: "apply_local_keys local config [] = Inr (config', keys)"
    using assms(1,2) by (auto elim: apply_local_config_override_InrD)
  note prefs = local_preferences [OF ok assms(3,4), folded c_def c'_def]
    and ports = local_ports [OF ok assms(3,4), folded c_def c'_def]
    and valid = local_entries_valid [OF ok assms(3)]
    and keep = apply_local_keys_protected [OF ok]
  show "preference_at c' pattern = (case entry_of local (lit ''agentProviders'') pattern of
      Some x \<Rightarrow> preference_entry pattern x | None \<Rightarrow> preference_at c pattern)"
    by (rule prefs)
  show "is_Some (entry_of local (lit ''agentProviders'') pattern) \<longrightarrow> is_Some (preference_at c' pattern)"
    using prefs [of pattern] valid(1) [of pattern]
    by (cases "entry_of local (lit ''agentProviders'') pattern") (simp_all add: is_Some_def)
  show "port_at c' name = (case entry_of local (lit ''ports'') name of
      Some x \<Rightarrow> Option.bind (json_as_u64 x) u16_try_from | None \<Rightarrow> port_at c name)"
    by (rule ports)
  show "is_Some (entry_of local (lit ''ports'') name) \<longrightarrow> is_Some (port_at c' name)"
    using ports [of name] valid(2) [of name]
    by (cases "entry_of local (lit ''ports'') name") (simp_all add: is_Some_def)
  have "map_of config' (lit ''pipeline'') = map_of config (lit ''pipeline'')"
    by (rule keep) (simp add: protected_key_def OVERRIDABLE_KEYS_def)
  then show "rc_workflow c' = (case map_of local (lit ''workflow'') of Some v \<Rightarrow> json_as_str v
      | None \<Rightarrow> (case map_of local (lit ''pipeline'') of Some v \<Rightarrow> json_as_str v | None \<Rightarrow> rc_workflow c))"
    using local_workflow [OF ok] assms(3)
    by (simp add: c_def c'_def repo_config_from_object_def split: option.split)
  show "rc_vars c' = rc_vars c \<and> rc_flavors c' = rc_flavors c \<and> rc_workspace c' = rc_workspace c \<and>
      rc_reserved_ports c' = rc_reserved_ports c \<and>
      rc_reserved_port_offsets c' = rc_reserved_port_offsets c \<and> rc_stage_order c' = rc_stage_order c"
    using keep protected_keys
    by (simp add: c_def c'_def repo_config_from_object_def config_workspace_def integer_array_def string_array_def)
qed


definition sample_local :: "(ustr \<times> json) list" where
  "sample_local =
     [(lit ''$schema'', JString (lit ''s'')),
      (lit ''agentProviders'', JObject [(lit ''review'', JString (lit ''codex''))]),
      (lit ''pipeline'', JString (lit ''pr-review''))]"


text \<open>
  The keys reported as overridden come from the file one by one, so a file that sets both spellings of the
  workflow key is reported to override it twice.
\<close>

lemma overridden_reported_twice:
  "apply_local_config_override
     (\<lambda>_. Some (JObject [(lit ''pipeline'', JString (lit ''a'')), (lit ''workflow'', JString (lit ''b''))]))
     (Content []) [] =
   Inr ([(lit ''workflow'', JString (lit ''b''))], Some [lit ''workflow'', lit ''workflow''])"
  by code_simp

end
