(* ===== verification/Session_Manager.thy ===== *)
theory Session_Manager
  imports Prelude "HOL-Library.AList"
begin

text \<open>
  The session registry of the daemon (\<^verbatim>\<open>SessionManager\<close> in \<^verbatim>\<open>crates/daemon/src/session.rs\<close>) and the
  commands that create and end sessions: \<^verbatim>\<open>Spawn\<close> and \<^verbatim>\<open>Kill\<close> (\<^verbatim>\<open>connection.rs\<close>), the exit cleanup
  of the stream task (\<^verbatim>\<open>output.rs\<close>), the handoff to a successor (\<^verbatim>\<open>handoff.rs\<close>) and the shutdown on
  \<^verbatim>\<open>SIGTERM\<close> (\<^verbatim>\<open>startup.rs\<close>). A session handle is the number of its allocation: an \<^verbatim>\<open>Arc\<close> held by a
  task is never reused, so pointer equality is equality of these numbers. The two atomic flags of a
  handle are the lists of the handles that have them set.
\<close>

section \<open>The registry\<close>

record manager =
  mg_sessions :: "(ustr \<times> nat) list"
  lifecycle_locks :: "(ustr \<times> nat) list"
  teardown_tombstones :: "ustr list"
  handoff_epoch :: nat
  sealed_for_handoff :: bool
  retired_handles :: "nat list"
  teardown_claimed :: "nat list"

definition manager_new :: manager where
  "manager_new = \<lparr>mg_sessions = [], lifecycle_locks = [], teardown_tombstones = [], handoff_epoch = 0,
     sealed_for_handoff = False, retired_handles = [], teardown_claimed = []\<rparr>"

definition retire :: "nat \<Rightarrow> manager \<Rightarrow> manager" where
  "retire h m = m\<lparr>retired_handles := List.insert h (retired_handles m)\<rparr>"

definition is_retired :: "nat \<Rightarrow> manager \<Rightarrow> bool" where
  "is_retired h m \<longleftrightarrow> h \<in> set (retired_handles m)"

definition claim_teardown :: "nat \<Rightarrow> manager \<Rightarrow> bool \<times> manager" where
  "claim_teardown h m =
     (h \<notin> set (teardown_claimed m), m\<lparr>teardown_claimed := List.insert h (teardown_claimed m)\<rparr>)"

definition seal_for_handoff :: "manager \<Rightarrow> nat \<times> manager" where
  "seal_for_handoff m =
     (let m1 = m\<lparr>sealed_for_handoff := True, handoff_epoch := handoff_epoch m + 1\<rparr> in (handoff_epoch m1, m1))"

definition unseal_for_handoff :: "manager \<Rightarrow> manager" where
  "unseal_for_handoff m = m\<lparr>sealed_for_handoff := False\<rparr>"

definition manager_get :: "ustr \<Rightarrow> manager \<Rightarrow> nat option" where
  "manager_get sid m = map_of (mg_sessions m) sid"

definition manager_contains :: "ustr \<Rightarrow> manager \<Rightarrow> bool" where
  "manager_contains sid m \<longleftrightarrow> manager_get sid m \<noteq> None"

definition manager_insert :: "ustr \<Rightarrow> nat \<Rightarrow> manager \<Rightarrow> manager" where
  "manager_insert sid h m =
     (let m1 = m\<lparr>mg_sessions := AList.update sid h (mg_sessions m)\<rparr>
      in case manager_get sid m of None \<Rightarrow> m1 | Some previous \<Rightarrow> retire previous m1)"

definition insert_unless_sealed :: "ustr \<Rightarrow> nat \<Rightarrow> manager \<Rightarrow> bool \<times> manager" where
  "insert_unless_sealed sid h m =
     (if sealed_for_handoff m \<or> sid \<in> set (teardown_tombstones m) then (False, m)
      else (True, manager_insert sid h m))"

definition begin_teardown :: "ustr \<Rightarrow> manager \<Rightarrow> bool \<times> manager" where
  "begin_teardown sid m =
     (sid \<notin> set (teardown_tombstones m), m\<lparr>teardown_tombstones := List.insert sid (teardown_tombstones m)\<rparr>)"

definition end_teardown :: "ustr \<Rightarrow> manager \<Rightarrow> manager" where
  "end_teardown sid m = m\<lparr>teardown_tombstones := removeAll sid (teardown_tombstones m)\<rparr>"

definition is_tearing_down :: "ustr \<Rightarrow> manager \<Rightarrow> bool" where
  "is_tearing_down sid m \<longleftrightarrow> sid \<in> set (teardown_tombstones m)"

definition manager_remove :: "ustr \<Rightarrow> manager \<Rightarrow> nat option \<times> manager" where
  "manager_remove sid m =
     (let m1 = m\<lparr>mg_sessions := AList.delete sid (mg_sessions m)\<rparr>
      in case manager_get sid m of None \<Rightarrow> (None, m1) | Some h \<Rightarrow> (Some h, retire h m1))"

definition remove_if_same :: "ustr \<Rightarrow> nat \<Rightarrow> manager \<Rightarrow> nat option \<times> manager" where
  "remove_if_same sid expected m =
     (if manager_get sid m = Some expected then manager_remove sid m else (None, m))"

definition manager_handles :: "manager \<Rightarrow> (ustr \<times> nat) list" where
  "manager_handles m = mg_sessions m"

definition session_ids :: "manager \<Rightarrow> ustr list" where
  "session_ids m = map fst (mg_sessions m)"

definition is_current :: "ustr \<Rightarrow> nat \<Rightarrow> manager \<Rightarrow> bool" where
  "is_current sid h m \<longleftrightarrow> manager_get sid m = Some h"

text \<open>\<open>alive\<close> says which locks some task still holds a strong reference to, \<open>fresh\<close> is the address of
  the lock that is allocated when there is none to share.\<close>

definition lifecycle_lock :: "(nat \<Rightarrow> bool) \<Rightarrow> nat \<Rightarrow> ustr \<Rightarrow> manager \<Rightarrow> nat \<times> manager" where
  "lifecycle_lock alive fresh sid m =
     (let kept = filter (\<lambda>(_, l). alive l) (lifecycle_locks m)
      in case map_of kept sid of
           Some l \<Rightarrow> (l, m\<lparr>lifecycle_locks := kept\<rparr>)
         | None \<Rightarrow> (fresh, m\<lparr>lifecycle_locks := AList.update sid fresh kept\<rparr>))"

definition kill_all_handles :: "manager \<Rightarrow> (ustr \<times> nat) list \<times> manager" where
  "kill_all_handles m =
     (manager_handles m, (fold (\<lambda>(_, h). retire h) (manager_handles m) m)\<lparr>mg_sessions := []\<rparr>)"

section \<open>The critical sections of the commands\<close>

text \<open>What \<^verbatim>\<open>Kill\<close> does under the manager lock: refuse while a transfer is in flight, otherwise take
  the incarnation it resolves and guard its id.\<close>

definition kill_claim :: "ustr \<Rightarrow> manager \<Rightarrow> (unit + nat option) \<times> manager" where
  "kill_claim sid m =
     (if sealed_for_handoff m then (Inl (), m)
      else
        (case (case manager_get sid m of None \<Rightarrow> (None, m) | Some h \<Rightarrow> remove_if_same sid h m) of
           (None, m1) \<Rightarrow> (Inr None, m1)
         | (Some h, m1) \<Rightarrow> (Inr (Some h), snd (begin_teardown sid m1))))"

datatype spawn_error = SessionAlreadyExists | PtySpawnFailed

text \<open>What \<^verbatim>\<open>Spawn\<close> does under the manager lock, from the duplicate check to the insertion, when the
  steps between them (the seeded snapshot, the headless terminal, the descriptor) succeed.\<close>

definition spawn_install :: "ustr \<Rightarrow> nat \<Rightarrow> manager \<Rightarrow> (spawn_error + unit) \<times> manager" where
  "spawn_install sid h m =
     (if manager_contains sid m then (Inl SessionAlreadyExists, m)
      else if sealed_for_handoff m \<or> is_tearing_down sid m then (Inl PtySpawnFailed, m)
      else
        (case insert_unless_sealed sid h m of
           (False, m1) \<Rightarrow> (Inl PtySpawnFailed, m1)
         | (True, m1) \<Rightarrow> (Inr (), m1)))"

text \<open>The last check of the exit cleanup: whether the ending incarnation is still the current one.\<close>

definition exit_remove :: "ustr \<Rightarrow> nat \<Rightarrow> manager \<Rightarrow> bool \<times> manager" where
  "exit_remove sid h m = (if is_current sid h m then (True, snd (manager_remove sid m)) else (False, m))"

text \<open>\<^verbatim>\<open>SessionHandle::kill\<close>: the first claimant runs the sweep, whose outcome is \<open>swept\<close>; a later
  one finds the teardown claimed.\<close>

definition session_kill :: "nat \<Rightarrow> bool \<Rightarrow> manager \<Rightarrow> bool \<times> manager" where
  "session_kill h swept m =
     (case claim_teardown h m of (claimed, m1) \<Rightarrow> (if claimed then swept else True, m1))"

section \<open>Spawn, Kill, exit and handoff interleaved\<close>

text \<open>
  A command holds the lifecycle lock of its session id from its first step to its last, so at most one
  task per id is between them; \<open>dm_task\<close> gives it. It also holds the daemon lifecycle lock for reading,
  which a handoff takes for writing. What clients are told is \<open>dm_log\<close>,
  and \<open>dm_known\<close> lists every handle with the id it was created for.
\<close>

datatype incident =
  Announced ustr nat
| Exited ustr nat bool

datatype lifecycle_task =
  Killing
| KillClaimed "nat option"
| KillCleaning
| Spawning
| SpawnInserted nat
| Exiting nat
| ExitChecked nat
| ExitUnsealed nat
| ExitRemoved nat
| ExitCleaning nat

datatype handoff_phase =
  NoHandoff | HandoffGuarded | HandoffSealed | HandoffCollecting | HandoffSnapshot | HandoffCommitted

text \<open>What \<^verbatim>\<open>handoff_parts\<close> answers for a session: its parts, that it is dead, or an error.\<close>

datatype parts = PartsTaken | PartsDead | PartsFailed

text \<open>
  A handoff asks the sessions of the sealed registry one by one: \<open>dm_todo\<close> are those still to be asked,
  \<open>dm_transfer\<close> the ones it will send, \<open>dm_dead_count\<close> counts those it skipped; \<open>dm_asked\<close> remembers every answer.
\<close>

record daemon =
  dm_manager :: manager
  dm_task :: "ustr \<Rightarrow> lifecycle_task option"
  dm_handoff :: handoff_phase
  dm_todo :: "(ustr \<times> nat) list"
  dm_transfer :: "(ustr \<times> nat) list"
  dm_dead_count :: nat
  dm_asked :: "((ustr \<times> nat) \<times> parts) list"
  dm_shutdown :: bool
  dm_known :: "(ustr \<times> nat) list"
  dm_log :: "incident list"

text \<open>A daemon starts with the sessions it adopts, which its predecessor announced.\<close>

definition adopt_all :: "(ustr \<times> nat) list \<Rightarrow> manager" where
  "adopt_all adopted = fold (\<lambda>(sid, h). manager_insert sid h) adopted manager_new"

definition daemon_new :: "(ustr \<times> nat) list \<Rightarrow> daemon" where
  "daemon_new adopted = \<lparr>dm_manager = adopt_all adopted, dm_task = (\<lambda>_. None), dm_handoff = NoHandoff,
     dm_todo = [], dm_transfer = [], dm_dead_count = 0, dm_asked = [], dm_shutdown = False, dm_known = adopted,
     dm_log = map (\<lambda>(sid, h). Announced sid h) adopted\<rparr>"

definition set_task :: "ustr \<Rightarrow> lifecycle_task option \<Rightarrow> daemon \<Rightarrow> daemon" where
  "set_task sid t d = d\<lparr>dm_task := (dm_task d)(sid := t)\<rparr>"

definition idle :: "ustr \<Rightarrow> daemon \<Rightarrow> bool" where
  "idle sid d \<longleftrightarrow> dm_task d sid = None \<and> dm_handoff d = NoHandoff"

text \<open>The event \<^verbatim>\<open>Kill\<close> publishes: only for an incarnation it took, and only when that one is dead.\<close>

definition kill_event :: "ustr \<Rightarrow> nat option \<Rightarrow> bool \<Rightarrow> incident list" where
  "kill_event sid taken ok = (case taken of Some h \<Rightarrow> if ok then [Exited sid h True] else [] | None \<Rightarrow> [])"

definition kill_result :: "nat option \<Rightarrow> bool \<Rightarrow> manager \<Rightarrow> bool \<times> manager" where
  "kill_result taken swept m = (case taken of Some h \<Rightarrow> session_kill h swept m | None \<Rightarrow> (False, m))"

definition handoff_handles :: "daemon \<Rightarrow> daemon" where
  "handoff_handles d =
     d\<lparr>dm_handoff := HandoffCollecting, dm_todo := manager_handles (dm_manager d), dm_transfer := [],
       dm_dead_count := 0, dm_asked := []\<rparr>"

definition handoff_ask :: "parts \<Rightarrow> ustr \<times> nat \<Rightarrow> (ustr \<times> nat) list \<Rightarrow> daemon \<Rightarrow> daemon" where
  "handoff_ask p e rest d =
     (let d' = d\<lparr>dm_todo := rest, dm_asked := dm_asked d @ [(e, p)]\<rparr>
      in case p of
           PartsTaken \<Rightarrow> d'\<lparr>dm_transfer := dm_transfer d @ [e]\<rparr>
         | PartsDead \<Rightarrow> d'\<lparr>dm_dead_count := dm_dead_count d + 1\<rparr>
         | PartsFailed \<Rightarrow> d'\<lparr>dm_dead_count := dm_dead_count d + 1\<rparr>)"

inductive daemon_step :: "daemon \<Rightarrow> daemon \<Rightarrow> bool" where
  kill_begin: "idle sid d \<Longrightarrow> daemon_step d (set_task sid (Some Killing) d)"
| kill_agent: "dm_task d sid = Some Killing \<Longrightarrow> manager_get sid (dm_manager d) = None \<Longrightarrow>
    daemon_step d (set_task sid None d)"
| kill_refuse: "dm_task d sid = Some Killing \<Longrightarrow> kill_claim sid (dm_manager d) = (Inl e, m) \<Longrightarrow>
    daemon_step d (set_task sid None (d\<lparr>dm_manager := m\<rparr>))"
| kill_take: "dm_task d sid = Some Killing \<Longrightarrow> kill_claim sid (dm_manager d) = (Inr taken, m) \<Longrightarrow>
    daemon_step d (set_task sid (Some (KillClaimed taken)) (d\<lparr>dm_manager := m\<rparr>))"
| kill_publish: "dm_task d sid = Some (KillClaimed taken) \<Longrightarrow>
    kill_result taken swept (dm_manager d) = (ok, m) \<Longrightarrow>
    daemon_step d (set_task sid (Some KillCleaning)
      (d\<lparr>dm_manager := m, dm_log := dm_log d @ kill_event sid taken ok\<rparr>))"
| kill_clean: "dm_task d sid = Some KillCleaning \<Longrightarrow>
    daemon_step d (set_task sid None (d\<lparr>dm_manager := end_teardown sid (dm_manager d)\<rparr>))"
| spawn_begin: "idle sid d \<Longrightarrow> daemon_step d (set_task sid (Some Spawning) d)"
| spawn_refuse: "dm_task d sid = Some Spawning \<Longrightarrow> daemon_step d (set_task sid None d)"
| spawn_insert: "dm_task d sid = Some Spawning \<Longrightarrow> h \<notin> snd ` set (dm_known d) \<Longrightarrow>
    spawn_install sid h (dm_manager d) = (Inr u, m) \<Longrightarrow>
    daemon_step d (set_task sid (Some (SpawnInserted h)) (d\<lparr>dm_manager := m, dm_known := (sid, h) # dm_known d\<rparr>))"
| spawn_announce: "dm_task d sid = Some (SpawnInserted h) \<Longrightarrow>
    daemon_step d (set_task sid None (d\<lparr>dm_log := dm_log d @ [Announced sid h]\<rparr>))"
| exit_begin: "idle sid d \<Longrightarrow> (sid, h) \<in> set (dm_known d) \<Longrightarrow>
    daemon_step d (set_task sid (Some (Exiting h)) d)"
| exit_skip: "dm_task d sid = Some (Exiting h) \<Longrightarrow> daemon_step d (set_task sid None d)"
| exit_check: "dm_task d sid = Some (Exiting h) \<Longrightarrow> \<not> is_retired h (dm_manager d) \<Longrightarrow>
    daemon_step d (set_task sid (Some (ExitChecked h)) d)"
| exit_unsealed: "dm_task d sid = Some (ExitChecked h) \<Longrightarrow> \<not> sealed_for_handoff (dm_manager d) \<Longrightarrow>
    daemon_step d (set_task sid (Some (ExitUnsealed h)) d)"
| exit_changed: "dm_task d sid = Some (ExitUnsealed h) \<Longrightarrow> exit_remove sid h (dm_manager d) = (False, m) \<Longrightarrow>
    daemon_step d (set_task sid None (d\<lparr>dm_manager := m\<rparr>))"
| exit_take: "dm_task d sid = Some (ExitUnsealed h) \<Longrightarrow> exit_remove sid h (dm_manager d) = (True, m) \<Longrightarrow>
    daemon_step d (set_task sid (Some (ExitRemoved h)) (d\<lparr>dm_manager := m\<rparr>))"
| exit_publish: "dm_task d sid = Some (ExitRemoved h) \<Longrightarrow>
    daemon_step d (set_task sid (Some (ExitCleaning h)) (d\<lparr>dm_log := dm_log d @ [Exited sid h False]\<rparr>))"
| exit_clean: "dm_task d sid = Some (ExitCleaning h) \<Longrightarrow> daemon_step d (set_task sid None d)"
| handoff_guard: "dm_handoff d = NoHandoff \<Longrightarrow> \<forall>sid. dm_task d sid = None \<Longrightarrow>
    daemon_step d (d\<lparr>dm_handoff := HandoffGuarded\<rparr>)"
| handoff_refuse: "dm_handoff d = HandoffGuarded \<Longrightarrow> daemon_step d (d\<lparr>dm_handoff := NoHandoff\<rparr>)"
| handoff_seal: "dm_handoff d = HandoffGuarded \<Longrightarrow>
    daemon_step d (d\<lparr>dm_handoff := HandoffSealed, dm_manager := snd (seal_for_handoff (dm_manager d))\<rparr>)"
| handoff_collect: "dm_handoff d = HandoffSealed \<Longrightarrow> daemon_step d (handoff_handles d)"
| handoff_part: "dm_handoff d = HandoffCollecting \<Longrightarrow> dm_todo d = e # rest \<Longrightarrow>
    daemon_step d (handoff_ask p e rest d)"
| handoff_snapshot: "dm_handoff d = HandoffCollecting \<Longrightarrow> dm_todo d = [] \<Longrightarrow>
    daemon_step d (d\<lparr>dm_handoff := HandoffSnapshot\<rparr>)"
| handoff_abort: "dm_handoff d = HandoffSealed \<or> dm_handoff d = HandoffSnapshot \<Longrightarrow>
    daemon_step d (d\<lparr>dm_handoff := NoHandoff, dm_manager := unseal_for_handoff (dm_manager d)\<rparr>)"
| handoff_commit: "dm_handoff d = HandoffSnapshot \<Longrightarrow> daemon_step d (d\<lparr>dm_handoff := HandoffCommitted\<rparr>)"
| shutdown: "daemon_step d (d\<lparr>dm_manager := snd (kill_all_handles (dm_manager d)), dm_shutdown := True\<rparr>)"

inductive daemon_reachable :: "daemon \<Rightarrow> bool" where
  start: "distinct (map fst adopted) \<Longrightarrow> distinct (map snd adopted) \<Longrightarrow> daemon_reachable (daemon_new adopted)"
| step: "daemon_reachable d \<Longrightarrow> daemon_step d e \<Longrightarrow> daemon_reachable e"

section \<open>What clients see\<close>

text \<open>The incarnation a client believes to be live under each id.\<close>

fun see :: "(ustr \<Rightarrow> nat option) \<Rightarrow> incident \<Rightarrow> ustr \<Rightarrow> nat option" where
  "see v (Announced sid h) = v(sid := Some h)"
| "see v (Exited sid h killed) = v(sid := None)"

definition client_view :: "incident list \<Rightarrow> ustr \<Rightarrow> nat option" where
  "client_view es = foldl see (\<lambda>_. None) es"

fun expected :: "(ustr \<Rightarrow> nat option) \<Rightarrow> incident \<Rightarrow> bool" where
  "expected v (Announced sid h) \<longleftrightarrow> True"
| "expected v (Exited sid h killed) \<longleftrightarrow> v sid = Some h"

fun coherent :: "(ustr \<Rightarrow> nat option) \<Rightarrow> incident list \<Rightarrow> bool" where
  "coherent v [] \<longleftrightarrow> True"
| "coherent v (e # es) \<longleftrightarrow> expected v e \<and> coherent (see v e) es"

fun announced_by :: "incident \<Rightarrow> nat list" where
  "announced_by (Announced sid h) = [h]"
| "announced_by (Exited sid h killed) = []"

fun exited_by :: "incident \<Rightarrow> nat list" where
  "exited_by (Announced sid h) = []"
| "exited_by (Exited sid h killed) = [h]"

abbreviation announced :: "incident list \<Rightarrow> nat list" where
  "announced es \<equiv> concat (map announced_by es)"

abbreviation exited :: "incident list \<Rightarrow> nat list" where
  "exited es \<equiv> concat (map exited_by es)"

lemma coherent_append: "coherent v (xs @ ys) \<longleftrightarrow> coherent v xs \<and> coherent (foldl see v xs) ys"
  by (induction xs arbitrary: v) auto

lemma client_view_snoc [simp]: "client_view (es @ [e]) = see (client_view es) e"
  by (simp add: client_view_def)

lemma coherent_snoc: "coherent (\<lambda>_. None) (es @ [e]) \<longleftrightarrow> coherent (\<lambda>_. None) es \<and> expected (client_view es) e"
  by (simp add: coherent_append client_view_def)

text \<open>A coherent log whose announcements are distinct tells every exit once.\<close>

lemma coherent_exits:
  assumes "coherent v es" and "distinct (announced es)" and "ran v \<inter> set (announced es) = {}"
    and "\<And>s t h. v s = Some h \<Longrightarrow> v t = Some h \<Longrightarrow> s = t"
  shows "distinct (exited es) \<and> set (exited es) \<subseteq> ran v \<union> set (announced es)"
  using assms
proof (induction es arbitrary: v)
  case (Cons e es)
  show ?case
  proof (cases e)
    case (Announced sid h)
    have "distinct (exited es) \<and> set (exited es) \<subseteq> ran (v(sid := Some h)) \<union> set (announced es)"
    proof (rule Cons.IH [of "v(sid := Some h)"])
      show "coherent (v(sid := Some h)) es"
        using Cons.prems(1) Announced by simp
      show "ran (v(sid := Some h)) \<inter> set (announced es) = {}"
        using Cons.prems(2,3) Announced by (auto simp: ran_def)
      show "s = t" if "(v(sid := Some h)) s = Some k" "(v(sid := Some h)) t = Some k" for s t k
        using that Cons.prems(3,4) Announced by (auto simp: ran_def split: if_splits)
    qed (use Cons.prems Announced in simp_all)
    then show ?thesis
      using Announced by (auto simp: ran_def split: if_splits)
  next
    case (Exited sid h killed)
    have "distinct (exited es) \<and> set (exited es) \<subseteq> ran (v(sid := None)) \<union> set (announced es)"
    proof (rule Cons.IH [of "v(sid := None)"])
      show "coherent (v(sid := None)) es"
        using Cons.prems(1) Exited by simp
      show "ran (v(sid := None)) \<inter> set (announced es) = {}"
        using Cons.prems(3) Exited by (auto simp: ran_def)
      show "s = t" if "(v(sid := None)) s = Some k" "(v(sid := None)) t = Some k" for s t k
        using that Cons.prems(4) by (auto split: if_splits)
    qed (use Cons.prems Exited in simp_all)
    moreover have "h \<in> ran v" "h \<notin> set (announced es)" "h \<notin> ran (v(sid := None))"
      using Cons.prems Exited by (auto simp: ran_def)
    ultimately show ?thesis
      using Exited by (auto simp: ran_def split: if_splits)
  qed
qed simp

section \<open>The registry laws\<close>

lemma retire_simps [simp]:
  "mg_sessions (retire h m) = mg_sessions m" "teardown_tombstones (retire h m) = teardown_tombstones m"
  "sealed_for_handoff (retire h m) = sealed_for_handoff m" "manager_get sid (retire h m) = manager_get sid m"
  "is_retired k (retire h m) \<longleftrightarrow> k = h \<or> is_retired k m"
  "set (retired_handles (retire h m)) = insert h (set (retired_handles m))"
  by (auto simp: retire_def manager_get_def is_retired_def)

lemma manager_insert_simps [simp]:
  "manager_get s (manager_insert sid h m) = (if s = sid then Some h else manager_get s m)"
  "mg_sessions (manager_insert sid h m) = AList.update sid h (mg_sessions m)"
  "teardown_tombstones (manager_insert sid h m) = teardown_tombstones m"
  "sealed_for_handoff (manager_insert sid h m) = sealed_for_handoff m"
  "is_retired k (manager_insert sid h m) \<longleftrightarrow> manager_get sid m = Some k \<or> is_retired k m"
  by (auto simp: manager_insert_def Let_def manager_get_def update_conv' is_retired_def split: option.split)

lemma manager_remove_simps [simp]:
  "fst (manager_remove sid m) = manager_get sid m"
  "manager_get s (snd (manager_remove sid m)) = (if s = sid then None else manager_get s m)"
  "mg_sessions (snd (manager_remove sid m)) = AList.delete sid (mg_sessions m)"
  "teardown_tombstones (snd (manager_remove sid m)) = teardown_tombstones m"
  "sealed_for_handoff (snd (manager_remove sid m)) = sealed_for_handoff m"
  "is_retired k (snd (manager_remove sid m)) \<longleftrightarrow> manager_get sid m = Some k \<or> is_retired k m"
  by (auto simp: manager_remove_def Let_def manager_get_def delete_conv' is_retired_def split: option.split)

lemma fold_retire [simp]:
  "mg_sessions (fold (\<lambda>(_, h). retire h) hs m) = mg_sessions m"
  "teardown_tombstones (fold (\<lambda>(_, h). retire h) hs m) = teardown_tombstones m"
  "sealed_for_handoff (fold (\<lambda>(_, h). retire h) hs m) = sealed_for_handoff m"
  "is_retired k (fold (\<lambda>(_, h). retire h) hs m) \<longleftrightarrow> k \<in> snd ` set hs \<or> is_retired k m"
  "set (retired_handles (fold (\<lambda>(_, h). retire h) hs m)) = snd ` set hs \<union> set (retired_handles m)"
  by (induction hs arbitrary: m) (auto simp: case_prod_unfold)

lemma kill_all_simps [simp]:
  "manager_get s (snd (kill_all_handles m)) = None" "mg_sessions (snd (kill_all_handles m)) = []"
  "teardown_tombstones (snd (kill_all_handles m)) = teardown_tombstones m"
  "sealed_for_handoff (snd (kill_all_handles m)) = sealed_for_handoff m"
  "is_retired k (snd (kill_all_handles m)) \<longleftrightarrow> k \<in> snd ` set (mg_sessions m) \<or> is_retired k m"
  by (simp_all add: kill_all_handles_def manager_get_def manager_handles_def is_retired_def)

lemma flag_simps [simp]:
  "manager_get s (end_teardown sid m) = manager_get s m" "mg_sessions (end_teardown sid m) = mg_sessions m"
  "sealed_for_handoff (end_teardown sid m) = sealed_for_handoff m" "is_retired k (end_teardown sid m) = is_retired k m"
  "teardown_tombstones (end_teardown sid m) = removeAll sid (teardown_tombstones m)"
  "manager_get s (snd (begin_teardown sid m)) = manager_get s m" "mg_sessions (snd (begin_teardown sid m)) = mg_sessions m"
  "sealed_for_handoff (snd (begin_teardown sid m)) = sealed_for_handoff m"
  "is_retired k (snd (begin_teardown sid m)) = is_retired k m"
  "teardown_tombstones (snd (begin_teardown sid m)) = List.insert sid (teardown_tombstones m)"
  "manager_get s (snd (seal_for_handoff m)) = manager_get s m" "mg_sessions (snd (seal_for_handoff m)) = mg_sessions m"
  "sealed_for_handoff (snd (seal_for_handoff m))" "is_retired k (snd (seal_for_handoff m)) = is_retired k m"
  "teardown_tombstones (snd (seal_for_handoff m)) = teardown_tombstones m"
  "manager_get s (unseal_for_handoff m) = manager_get s m" "mg_sessions (unseal_for_handoff m) = mg_sessions m"
  "\<not> sealed_for_handoff (unseal_for_handoff m)" "is_retired k (unseal_for_handoff m) = is_retired k m"
  "teardown_tombstones (unseal_for_handoff m) = teardown_tombstones m"
  by (simp_all add: end_teardown_def begin_teardown_def seal_for_handoff_def unseal_for_handoff_def manager_get_def
      is_retired_def Let_def)

text \<open>What the critical sections amount to.\<close>

lemma kill_claim_taken:
  "kill_claim sid m = (Inr taken, m') \<Longrightarrow> \<not> sealed_for_handoff m \<and> taken = manager_get sid m \<and>
     m' = (case taken of None \<Rightarrow> m | Some h \<Rightarrow> snd (begin_teardown sid (snd (manager_remove sid m))))"
  by (auto simp: kill_claim_def remove_if_same_def manager_remove_def Let_def split: if_splits option.splits prod.splits)

lemma kill_claim_refused: "kill_claim sid m = (Inl e, m') \<Longrightarrow> m' = m"
  by (auto simp: kill_claim_def split: if_splits option.splits prod.splits)

lemma spawn_installed:
  "spawn_install sid h m = (Inr u, m') \<Longrightarrow>
     manager_get sid m = None \<and> \<not> sealed_for_handoff m \<and> sid \<notin> set (teardown_tombstones m) \<and> m' = manager_insert sid h m"
  by (auto simp: spawn_install_def manager_contains_def is_tearing_down_def insert_unless_sealed_def split: if_splits)

lemma exit_removed: "exit_remove sid h m = (True, m') \<Longrightarrow> manager_get sid m = Some h \<and> m' = snd (manager_remove sid m)"
  by (auto simp: exit_remove_def is_current_def split: if_splits)

lemma exit_kept: "exit_remove sid h m = (False, m') \<Longrightarrow> m' = m"
  by (auto simp: exit_remove_def split: if_splits)

lemma kill_result_claims: "kill_result taken swept m = (ok, m') \<Longrightarrow> \<exists>claims. m' = m\<lparr>teardown_claimed := claims\<rparr>"
  by (auto simp: kill_result_def session_kill_def claim_teardown_def split: option.splits
      intro: exI [of _ "teardown_claimed m"])

lemma claimed_simps [simp]:
  "manager_get sid (m\<lparr>teardown_claimed := claims\<rparr>) = manager_get sid m"
  "is_retired k (m\<lparr>teardown_claimed := claims\<rparr>) = is_retired k m"
  by (simp_all add: manager_get_def is_retired_def)

lemmas critical_section_dests = kill_claim_refused exit_removed exit_kept spawn_installed kill_result_claims

section \<open>The invariant\<close>

text \<open>What holds of one id, by what its task is doing.\<close>

definition slot_inv :: "daemon \<Rightarrow> ustr \<Rightarrow> bool" where
  "slot_inv d sid \<longleftrightarrow>
     (let current = manager_get sid (dm_manager d); seen = client_view (dm_log d) sid
      in case dm_task d sid of
           Some (KillClaimed taken) \<Rightarrow> current = None \<and> (\<forall>h. taken = Some h \<longrightarrow> seen = Some h)
         | Some KillCleaning \<Rightarrow> current = None
         | Some (SpawnInserted h) \<Rightarrow>
             (current = None \<or> current = Some h) \<and> (sid, h) \<in> set (dm_known d) \<and> h \<notin> set (announced (dm_log d))
         | Some (ExitRemoved h) \<Rightarrow> current = None \<and> seen = Some h
         | Some (ExitCleaning h) \<Rightarrow> current = None
         | _ \<Rightarrow> \<forall>h. current = Some h \<longrightarrow> seen = Some h)"

definition registry_inv :: "daemon \<Rightarrow> bool" where
  "registry_inv d \<longleftrightarrow>
     distinct (map fst (mg_sessions (dm_manager d))) \<and> set (mg_sessions (dm_manager d)) \<subseteq> set (dm_known d) \<and>
     distinct (map snd (dm_known d)) \<and> (\<forall>h. is_retired h (dm_manager d) \<longrightarrow> h \<in> snd ` set (dm_known d)) \<and>
     (\<forall>(sid, h) \<in> set (dm_known d). is_retired h (dm_manager d) \<longleftrightarrow> manager_get sid (dm_manager d) \<noteq> Some h)"

definition log_inv :: "daemon \<Rightarrow> bool" where
  "log_inv d \<longleftrightarrow>
     coherent (\<lambda>_. None) (dm_log d) \<and> distinct (announced (dm_log d)) \<and>
     set (announced (dm_log d)) \<subseteq> snd ` set (dm_known d)"

definition teardown_task :: "lifecycle_task option \<Rightarrow> bool" where
  "teardown_task t \<longleftrightarrow> (case t of Some (KillClaimed _) \<Rightarrow> True | Some KillCleaning \<Rightarrow> True | _ \<Rightarrow> False)"

definition tombstone_inv :: "daemon \<Rightarrow> bool" where
  "tombstone_inv d \<longleftrightarrow> (\<forall>sid \<in> set (teardown_tombstones (dm_manager d)). teardown_task (dm_task d sid))"

definition handoff_inv :: "daemon \<Rightarrow> bool" where
  "handoff_inv d \<longleftrightarrow>
     (dm_handoff d \<noteq> NoHandoff \<longrightarrow> (\<forall>sid. dm_task d sid = None)) \<and>
     (sealed_for_handoff (dm_manager d) \<longleftrightarrow>
        dm_handoff d \<in> {HandoffSealed, HandoffCollecting, HandoffSnapshot, HandoffCommitted}) \<and>
     (dm_handoff d \<in> {HandoffSnapshot, HandoffCommitted} \<longrightarrow> dm_todo d = []) \<and>
     (dm_handoff d \<in> {HandoffCollecting, HandoffSnapshot, HandoffCommitted} \<longrightarrow>
        dm_transfer d = map fst (filter (\<lambda>a. snd a = PartsTaken) (dm_asked d)) \<and>
        dm_dead_count d = length (filter (\<lambda>a. snd a \<noteq> PartsTaken) (dm_asked d))) \<and>
     (dm_handoff d \<in> {HandoffCollecting, HandoffSnapshot, HandoffCommitted} \<and> \<not> dm_shutdown d \<longrightarrow>
        map fst (dm_asked d) @ dm_todo d = mg_sessions (dm_manager d))"

lemma task_simps [simp]:
  "dm_task (set_task sid t d) s = (if s = sid then t else dm_task d s)" "dm_manager (set_task sid t d) = dm_manager d"
  "dm_handoff (set_task sid t d) = dm_handoff d" "dm_todo (set_task sid t d) = dm_todo d"
  "dm_transfer (set_task sid t d) = dm_transfer d" "dm_dead_count (set_task sid t d) = dm_dead_count d"
  "dm_asked (set_task sid t d) = dm_asked d"
  "dm_shutdown (set_task sid t d) = dm_shutdown d" "dm_known (set_task sid t d) = dm_known d"
  "dm_log (set_task sid t d) = dm_log d"
  by (simp_all add: set_task_def)

lemma handoff_simps [simp]:
  "dm_manager (handoff_handles d) = dm_manager d" "dm_task (handoff_handles d) = dm_task d"
  "dm_shutdown (handoff_handles d) = dm_shutdown d" "dm_known (handoff_handles d) = dm_known d"
  "dm_log (handoff_handles d) = dm_log d" "dm_handoff (handoff_handles d) = HandoffCollecting"
  "dm_manager (handoff_ask p e rest d) = dm_manager d" "dm_task (handoff_ask p e rest d) = dm_task d"
  "dm_shutdown (handoff_ask p e rest d) = dm_shutdown d" "dm_known (handoff_ask p e rest d) = dm_known d"
  "dm_log (handoff_ask p e rest d) = dm_log d" "dm_handoff (handoff_ask p e rest d) = dm_handoff d"
  by (simp_all add: handoff_handles_def handoff_ask_def Let_def split: parts.split)

lemma teardown_task_simps [simp]:
  "\<not> teardown_task None" "teardown_task (Some (KillClaimed taken))" "teardown_task (Some KillCleaning)"
  "\<not> teardown_task (Some Killing)" "\<not> teardown_task (Some Spawning)" "\<not> teardown_task (Some (SpawnInserted h))"
  "\<not> teardown_task (Some (Exiting h))" "\<not> teardown_task (Some (ExitChecked h))" "\<not> teardown_task (Some (ExitUnsealed h))"
  "\<not> teardown_task (Some (ExitRemoved h))" "\<not> teardown_task (Some (ExitCleaning h))"
  by (simp_all add: teardown_task_def)

lemma tombstone_set_task:
  assumes "tombstone_inv d" and "set (teardown_tombstones (dm_manager e)) \<subseteq> set (teardown_tombstones (dm_manager d))"
    and "dm_task e = dm_task d" and "teardown_task t \<or> \<not> teardown_task (dm_task d sid)"
  shows "tombstone_inv (set_task sid t e)"
  using assms by (fastforce simp: tombstone_inv_def)

lemma tombstone_step: "daemon_step d e \<Longrightarrow> tombstone_inv d \<Longrightarrow> tombstone_inv e"
proof (induction rule: daemon_step.induct)
  case (kill_take d sid taken m)
  then show ?case
    by (auto simp: tombstone_inv_def dest!: kill_claim_taken split: option.splits)
next
  case (kill_clean d sid)
  then show ?case
    by (auto simp: tombstone_inv_def)
qed ((rule tombstone_set_task, assumption; force simp: idle_def dest!: critical_section_dests) |
  simp add: tombstone_inv_def)+

lemma handoff_set_task:
  assumes "handoff_inv d" and "dm_task d sid \<noteq> None" and "dm_handoff e = dm_handoff d"
    and "sealed_for_handoff (dm_manager e) = sealed_for_handoff (dm_manager d)"
  shows "handoff_inv (set_task sid t e)"
proof -
  have "dm_handoff d = NoHandoff"
    using assms(1,2) by (auto simp: handoff_inv_def)
  with assms show ?thesis
    by (simp add: handoff_inv_def)
qed

lemma handoff_set_idle: "handoff_inv d \<Longrightarrow> idle sid d \<Longrightarrow> handoff_inv (set_task sid t d)"
  by (simp add: handoff_inv_def idle_def)

lemma handoff_step: "daemon_step d e \<Longrightarrow> handoff_inv d \<Longrightarrow> handoff_inv e"
proof (induction rule: daemon_step.induct)
  case (kill_take d sid taken m)
  then show ?case
    by (auto intro!: handoff_set_task dest!: kill_claim_taken split: option.splits)
next
  case (handoff_collect d)
  then show ?case
    by (simp add: handoff_inv_def) (simp add: handoff_handles_def manager_handles_def)
next
  case (handoff_part d e rest p)
  then show ?case
    by (cases p) (simp_all add: handoff_inv_def handoff_ask_def)
next
  case (handoff_abort d)
  then show ?case
    by (auto simp: handoff_inv_def)
next
  case (handoff_commit d)
  then have "dm_todo d = []" by (simp add: handoff_inv_def)
  with handoff_commit show ?case by (simp add: handoff_inv_def)
next
  case (shutdown d)
  have "sealed_for_handoff (snd (kill_all_handles (dm_manager d))) = sealed_for_handoff (dm_manager d)"
    by simp
  with shutdown show ?case by (simp add: handoff_inv_def)
qed ((rule handoff_set_idle; assumption) |
  (rule handoff_set_task, assumption; simp; fastforce dest!: critical_section_dests) |
  (simp add: handoff_inv_def))+

text \<open>The registry: handles are added once, and one that leaves is retired for good.\<close>

lemma registry_same:
  assumes "registry_inv d" and "mg_sessions (dm_manager e) = mg_sessions (dm_manager d)"
    and "dm_known e = dm_known d" and "\<And>k. is_retired k (dm_manager e) = is_retired k (dm_manager d)"
  shows "registry_inv e"
  using assms(1) unfolding registry_inv_def manager_get_def assms(2-4) .

lemma snd_unique: "distinct (map snd xs) \<Longrightarrow> (s, h) \<in> set xs \<Longrightarrow> (t, h) \<in> set xs \<Longrightarrow> s = t"
  by (induction xs) force+

lemma registry_known:
  "registry_inv d \<Longrightarrow> manager_get sid (dm_manager d) = Some h \<Longrightarrow> (sid, h) \<in> set (dm_known d)"
  by (auto simp: registry_inv_def manager_get_def dest: map_of_SomeD)

lemma registry_retired:
  "registry_inv d \<Longrightarrow> (sid, h) \<in> set (dm_known d) \<Longrightarrow> is_retired h (dm_manager d) \<longleftrightarrow> manager_get sid (dm_manager d) \<noteq> Some h"
  unfolding registry_inv_def by blast

lemma registry_unique:
  "registry_inv d \<Longrightarrow> (s, h) \<in> set (dm_known d) \<Longrightarrow> (t, h) \<in> set (dm_known d) \<Longrightarrow> s = t"
  unfolding registry_inv_def by (blast intro: snd_unique)

lemma registry_remove:
  assumes inv: "registry_inv d" and "mg_sessions m = AList.delete sid (mg_sessions (dm_manager d))"
    and retired: "\<And>k. is_retired k m \<longleftrightarrow> manager_get sid (dm_manager d) = Some k \<or> is_retired k (dm_manager d)"
    and "dm_manager e = m" and "dm_known e = dm_known d"
  shows "registry_inv e"
proof -
  have get: "manager_get s m = (if s = sid then None else manager_get s (dm_manager d))" for s
    by (simp add: manager_get_def assms(2) delete_conv')
  have "is_retired h m \<longleftrightarrow> manager_get s m \<noteq> Some h" if "(s, h) \<in> set (dm_known d)" for s h
    using registry_retired [OF inv that] registry_unique [OF inv that] registry_known [OF inv]
    by (auto simp: get retired)
  moreover have "set (mg_sessions m) \<subseteq> set (mg_sessions (dm_manager d))"
    using assms(2) by (auto simp: AList.delete_eq)
  moreover have "h \<in> snd ` set (dm_known d)" if "is_retired h m" for h
    using that registry_known [OF inv] inv by (force simp: retired registry_inv_def)
  ultimately show ?thesis
    using inv assms(2,4,5) unfolding registry_inv_def by (auto simp: distinct_delete)
qed

lemma update_new_key: "k \<notin> fst ` set xs \<Longrightarrow> AList.update k v xs = xs @ [(k, v)]"
  by (induction xs) auto

lemma registry_insert:
  assumes "registry_inv d" and "manager_get sid (dm_manager d) = None" and "h \<notin> snd ` set (dm_known d)"
    and "dm_manager e = manager_insert sid h (dm_manager d)" and "dm_known e = (sid, h) # dm_known d"
  shows "registry_inv e"
proof -
  have "mg_sessions (dm_manager e) = mg_sessions (dm_manager d) @ [(sid, h)]" and "\<not> is_retired h (dm_manager d)"
    using assms by (auto simp: registry_inv_def manager_get_def map_of_eq_None_iff update_new_key)
  moreover have "is_retired k (dm_manager e) \<longleftrightarrow> manager_get s (dm_manager e) \<noteq> Some k" if "(s, k) \<in> set (dm_known e)" for s k
    using that assms \<open>\<not> is_retired h (dm_manager d)\<close> by (force simp: registry_inv_def)
  moreover have "sid \<notin> fst ` set (mg_sessions (dm_manager d))"
    using assms(2) by (simp add: manager_get_def map_of_eq_None_iff)
  ultimately show ?thesis
    using assms by (auto simp: registry_inv_def)
qed

lemma registry_clear:
  assumes "registry_inv d" and "dm_manager e = snd (kill_all_handles (dm_manager d))" and "dm_known e = dm_known d"
  shows "registry_inv e"
proof -
  have "is_retired h (dm_manager e)" if "(sid, h) \<in> set (dm_known d)" for sid h
    using assms(1,2) that by (cases "manager_get sid (dm_manager d) = Some h")
      (force simp: registry_inv_def manager_get_def dest: map_of_SomeD)+
  then show ?thesis
    using assms by (auto simp: registry_inv_def)
qed

lemma registry_step: "daemon_step d e \<Longrightarrow> registry_inv d \<Longrightarrow> registry_inv e"
proof (induction rule: daemon_step.induct)
  case (kill_take d sid taken m)
  from kill_claim_taken [OF this(2)] consider "m = dm_manager d"
    | "m = snd (begin_teardown sid (snd (manager_remove sid (dm_manager d))))"
    by (cases "manager_get sid (dm_manager d)") auto
  then show ?case
  proof cases
    case 1
    with kill_take.prems show ?thesis
      by - (rule registry_same [where d = d], simp_all)
  next
    case 2
    with kill_take.prems show ?thesis
      by - (rule registry_remove [where d = d and m = m and sid = sid], simp_all)
  qed
next
  case (spawn_insert d sid h u m)
  then show ?case
    by - (rule registry_insert [where d = d and sid = sid and h = h], (auto dest: spawn_installed)+)
next
  case (exit_take d sid h m)
  then show ?case
    by - (rule registry_remove [where d = d and m = m and sid = sid], (auto dest!: exit_removed)+)
next
  case (shutdown d)
  then show ?case
    by - (rule registry_clear [where d = d], simp_all)
next
  case (kill_publish d sid taken swept ok m)
  then show ?case
    by - (rule registry_same [where d = d], (auto dest!: kill_result_claims)+)
next
  case (kill_refuse d sid e m)
  then show ?case
    by - (rule registry_same [where d = d], (auto dest!: kill_claim_refused)+)
next
  case (exit_changed d sid h m)
  then show ?case
    by - (rule registry_same [where d = d], (auto dest!: exit_kept)+)
qed (erule registry_same; simp)+

text \<open>The slots: a step on one id leaves the others alone.\<close>

lemma slot_frame:
  assumes "slot_inv d s" and "dm_task e s = dm_task d s"
    and "manager_get s (dm_manager e) = manager_get s (dm_manager d) \<or> manager_get s (dm_manager e) = None"
    and "client_view (dm_log e) s = client_view (dm_log d) s" and "set (dm_known d) \<subseteq> set (dm_known e)"
    and "\<And>h. dm_task d s = Some (SpawnInserted h) \<Longrightarrow> h \<notin> set (announced (dm_log e))"
  shows "slot_inv e s"
proof (cases "dm_task d s")
  case (Some t)
  with assms show ?thesis
    by (cases t) (auto simp: slot_inv_def Let_def)
qed (use assms in \<open>auto simp: slot_inv_def\<close>)

lemma slot_set_task:
  assumes "\<forall>s. slot_inv d s" and "dm_task e = dm_task d"
    and "\<And>s. s \<noteq> sid \<Longrightarrow> manager_get s (dm_manager e) = manager_get s (dm_manager d)"
    and "\<And>s. s \<noteq> sid \<Longrightarrow> client_view (dm_log e) s = client_view (dm_log d) s"
    and "set (dm_known d) \<subseteq> set (dm_known e)"
    and "\<And>s h. s \<noteq> sid \<Longrightarrow> (s, h) \<in> set (dm_known d) \<Longrightarrow> h \<notin> set (announced (dm_log d)) \<Longrightarrow> h \<notin> set (announced (dm_log e))"
    and "slot_inv (set_task sid t e) sid"
  shows "\<forall>s. slot_inv (set_task sid t e) s"
proof
  fix s
  show "slot_inv (set_task sid t e) s"
  proof (cases "s = sid")
    case False
    have "h \<notin> set (announced (dm_log e))" if "dm_task d s = Some (SpawnInserted h)" for h
    proof -
      have "(s, h) \<in> set (dm_known d)" "h \<notin> set (announced (dm_log d))"
        using spec [OF assms(1), of s] that by (auto simp: slot_inv_def Let_def)
      with assms(6) False show ?thesis by blast
    qed
    with False assms(1-5) show ?thesis
      by - (rule slot_frame [of d], simp_all)
  qed (use assms(7) in simp)
qed

text \<open>Steps that change neither registry nor log.\<close>

lemma slot_quiet:
  assumes "\<forall>s. slot_inv d s" and "slot_inv d sid \<Longrightarrow> slot_inv (set_task sid t d) sid"
  shows "\<forall>s. slot_inv (set_task sid t d) s"
  using assms by - (rule slot_set_task [where d = d], simp_all)

lemma slot_same:
  assumes "\<forall>s. slot_inv d s" and "dm_task e = dm_task d" and "dm_log e = dm_log d" and "dm_known e = dm_known d"
    and "\<And>s. manager_get s (dm_manager e) = manager_get s (dm_manager d)"
  shows "\<forall>s. slot_inv e s"
  using assms(1) unfolding slot_inv_def assms(2-) .

lemma announced_snoc [simp]: "announced (es @ [e]) = announced es @ announced_by e"
  by simp

lemma slot_step:
  "daemon_step d e \<Longrightarrow> registry_inv d \<Longrightarrow> log_inv d \<Longrightarrow> \<forall>s. slot_inv d s \<Longrightarrow> \<forall>s. slot_inv e s"
proof (induction rule: daemon_step.induct)
  case (kill_refuse d sid e m)
  with spec [OF kill_refuse.prems(3), of sid] show ?case
    by - (drule kill_claim_refused, rule slot_set_task [where d = d], auto simp: slot_inv_def)
next
  case (kill_take d sid taken m)
  then have m: "taken = manager_get sid (dm_manager d)"
    "m = (case taken of None \<Rightarrow> dm_manager d | Some h \<Rightarrow> snd (begin_teardown sid (snd (manager_remove sid (dm_manager d)))))"
    by (auto dest!: kill_claim_taken)
  have "manager_get s m = (if s = sid then None else manager_get s (dm_manager d))" for s
    using m by (auto split: option.splits)
  with spec [OF kill_take.prems(3), of sid] kill_take.prems(3) kill_take.hyps(1) m(1) show ?case
    by - (rule slot_set_task [where d = d], auto simp: slot_inv_def Let_def)
next
  case (kill_publish d sid taken swept ok m)
  then obtain claims where m: "m = (dm_manager d)\<lparr>teardown_claimed := claims\<rparr>"
    by (auto dest!: kill_result_claims)
  have "manager_get sid (dm_manager d) = None"
    using spec [OF kill_publish.prems(3), of sid] kill_publish.hyps(1) by (simp add: slot_inv_def Let_def)
  with kill_publish.prems(3) m show ?case
    by - (rule slot_set_task [where d = d], auto simp: slot_inv_def kill_event_def split: option.splits)
next
  case (spawn_insert d sid h u m)
  then have "m = manager_insert sid h (dm_manager d)" and "h \<notin> set (announced (dm_log d))"
    by (auto simp: log_inv_def dest!: spawn_installed)
  with spawn_insert.prems(3) show ?case
    by - (rule slot_set_task [where d = d], auto simp: slot_inv_def)
next
  case (spawn_announce d sid h)
  with spec [OF spawn_announce.prems(3), of sid]
  have "manager_get sid (dm_manager d) = None \<or> manager_get sid (dm_manager d) = Some h" "(sid, h) \<in> set (dm_known d)"
    by (simp_all add: slot_inv_def Let_def)
  with spawn_announce.prems show ?case
    by - (rule slot_set_task [where d = d], auto simp: slot_inv_def Let_def dest: registry_unique)
next
  case (exit_changed d sid h m)
  with spec [OF exit_changed.prems(3), of sid] show ?case
    by - (drule exit_kept, rule slot_set_task [where d = d], auto simp: slot_inv_def)
next
  case (exit_take d sid h m)
  then have "m = snd (manager_remove sid (dm_manager d))" "client_view (dm_log d) sid = Some h"
    using spec [OF exit_take.prems(3), of sid] by (auto simp: slot_inv_def Let_def dest!: exit_removed)
  with exit_take.prems(3) show ?case
    by - (rule slot_set_task [where d = d], auto simp: slot_inv_def)
next
  case (exit_publish d sid h)
  with spec [OF exit_publish.prems(3), of sid] show ?case
    by - (rule slot_set_task [where d = d], auto simp: slot_inv_def Let_def)
next
  case (shutdown d)
  show ?case
  proof
    fix s
    have "slot_inv d s"
      using shutdown.prems(3) by simp
    then show "slot_inv (d\<lparr>dm_manager := snd (kill_all_handles (dm_manager d)), dm_shutdown := True\<rparr>) s"
      by - (rule slot_frame [where d = d], auto simp: slot_inv_def Let_def)
  qed
next
  case (kill_clean d sid)
  with spec [OF kill_clean.prems(3), of sid] show ?case
    by - (rule slot_set_task [where d = d], auto simp: slot_inv_def Let_def)
qed ((rule slot_quiet, assumption, simp add: slot_inv_def idle_def) | (rule slot_same, assumption; simp))+

text \<open>The log.\<close>

lemma log_same:
  assumes "log_inv d" and "dm_log e = dm_log d" and "set (dm_known d) \<subseteq> set (dm_known e)"
  shows "log_inv e"
  using assms(1) image_mono [OF assms(3), of snd] unfolding log_inv_def assms(2) by blast

lemma log_exit:
  assumes "log_inv d" and "client_view (dm_log d) sid = Some h" and "dm_log e = dm_log d @ [Exited sid h killed]"
    and "dm_known e = dm_known d"
  shows "log_inv e"
  using assms(1,2) unfolding log_inv_def assms(3,4) coherent_snoc announced_snoc by simp

lemma log_step:
  "daemon_step d e \<Longrightarrow> registry_inv d \<Longrightarrow> \<forall>s. slot_inv d s \<Longrightarrow> log_inv d \<Longrightarrow> log_inv e"
proof (induction rule: daemon_step.induct)
  case (kill_publish d sid taken swept ok m)
  have seen: "taken = Some h \<Longrightarrow> client_view (dm_log d) sid = Some h" for h
    using spec [OF kill_publish.prems(2), of sid] kill_publish.hyps(1) by (simp add: slot_inv_def Let_def)
  show ?case
  proof (cases "kill_event sid taken ok")
    case Nil
    with kill_publish.prems(3) show ?thesis
      by - (erule log_same, simp_all)
  next
    case (Cons e es)
    then obtain h where "taken = Some h" "kill_event sid taken ok = [Exited sid h True]"
      by (auto simp: kill_event_def split: option.splits if_splits)
    with seen kill_publish.prems(3) show ?thesis
      by - (rule log_exit [of d], simp_all)
  qed
next
  case (spawn_announce d sid h)
  have "(sid, h) \<in> set (dm_known d)" and "h \<notin> set (announced (dm_log d))"
    using spec [OF spawn_announce.prems(2), of sid] spawn_announce.hyps(1) by (simp_all add: slot_inv_def Let_def)
  then have "h \<in> snd ` set (dm_known d)"
    by force
  with spawn_announce.prems(3) \<open>h \<notin> set (announced (dm_log d))\<close> show ?case
    by (simp add: log_inv_def coherent_snoc del: set_concat)
next
  case (exit_publish d sid h)
  have "client_view (dm_log d) sid = Some h"
    using spec [OF exit_publish.prems(2), of sid] exit_publish.hyps(1) by (simp add: slot_inv_def Let_def)
  with exit_publish.prems(3) show ?case
    by - (rule log_exit [of d sid h _ False], simp_all)
qed (erule log_same; simp add: subset_insertI)+

section \<open>Reachable daemons\<close>

lemma adopt_all_sessions:
  assumes "distinct (map fst adopted)"
  shows "mg_sessions (adopt_all adopted) = adopted" "retired_handles (adopt_all adopted) = []"
    "teardown_tombstones (adopt_all adopted) = []" "\<not> sealed_for_handoff (adopt_all adopted)"
proof -
  have "mg_sessions (adopt_all adopted) = adopted \<and> retired_handles (adopt_all adopted) = [] \<and>
    teardown_tombstones (adopt_all adopted) = [] \<and> \<not> sealed_for_handoff (adopt_all adopted)"
    using assms
  proof (induction adopted rule: rev_induct)
    case (snoc x xs)
    then have "manager_get (fst x) (adopt_all xs) = None"
      by (simp add: manager_get_def map_of_eq_None_iff)
    with snoc show ?case
      by (auto simp: adopt_all_def manager_insert_def update_new_key case_prod_unfold)
  qed (simp add: adopt_all_def manager_new_def)
  then show "mg_sessions (adopt_all adopted) = adopted" "retired_handles (adopt_all adopted) = []"
    "teardown_tombstones (adopt_all adopted) = []" "\<not> sealed_for_handoff (adopt_all adopted)"
    by simp_all
qed

lemma adopted_view:
  "distinct (map fst adopted) \<Longrightarrow> client_view (map (\<lambda>(sid, h). Announced sid h) adopted) = map_of adopted"
proof (induction adopted rule: rev_induct)
  case (snoc x xs)
  moreover from snoc.prems have "map_of xs (fst x) = None"
    by (simp add: map_of_eq_None_iff)
  ultimately show ?case
    by (cases x) (auto simp: fun_eq_iff map_add_def split: option.split)
qed (simp add: client_view_def)

lemma adopted_log [simp]:
  "coherent v (map (\<lambda>(sid, h). Announced sid h) adopted)"
  "concat (map (announced_by \<circ> (\<lambda>(sid, h). Announced sid h)) adopted) = map snd adopted"
  by (induction adopted arbitrary: v) auto

definition daemon_inv :: "daemon \<Rightarrow> bool" where
  "daemon_inv d \<longleftrightarrow> registry_inv d \<and> (\<forall>s. slot_inv d s) \<and> log_inv d \<and> tombstone_inv d \<and> handoff_inv d"

lemma daemon_new_inv:
  assumes "distinct (map fst adopted)" and "distinct (map snd adopted)"
  shows "daemon_inv (daemon_new adopted)"
proof -
  note init = daemon_new_def adopt_all_sessions [OF assms(1)] adopted_view [OF assms(1)] manager_get_def is_retired_def
  have "registry_inv (daemon_new adopted)"
    using assms by (auto simp: registry_inv_def init)
  moreover have "log_inv (daemon_new adopted)"
    using assms(2) unfolding log_inv_def init by (simp del: set_concat)
  moreover have "\<forall>s. slot_inv (daemon_new adopted) s" "tombstone_inv (daemon_new adopted)" "handoff_inv (daemon_new adopted)"
    by (auto simp: slot_inv_def tombstone_inv_def handoff_inv_def init)
  ultimately show ?thesis
    by (simp add: daemon_inv_def)
qed

lemma daemon_inv_reachable: "daemon_reachable d \<Longrightarrow> daemon_inv d"
proof (induction rule: daemon_reachable.induct)
  case (step d e)
  note steps = registry_step slot_step log_step tombstone_step handoff_step
  from step.IH show ?case
    unfolding daemon_inv_def by (elim conjE) (intro conjI steps [OF step.hyps(2)]; assumption)
qed (rule daemon_new_inv)

section \<open>The lifecycle locks\<close>

text \<open>While a task holds the lock of an id, every task that asks for it gets the same lock, whatever
  other ids are locked in between; this is what makes a task exclusive.\<close>

lemma lifecycle_lock_registered: "map_of (lifecycle_locks (snd (lifecycle_lock alive fresh sid m))) sid = Some (fst (lifecycle_lock alive fresh sid m))"
  by (auto simp: lifecycle_lock_def Let_def update_conv' split: option.split)

lemma map_of_filter_alive: "map_of xs s = Some l \<Longrightarrow> alive l \<Longrightarrow> map_of (filter (\<lambda>(_, l). alive l) xs) s = Some l"
  by (induction xs) (auto split: if_splits)

lemma lifecycle_lock_shared:
  assumes "map_of (lifecycle_locks m) sid = Some l" and "alive l"
  shows "fst (lifecycle_lock alive fresh sid m) = l"
    and "map_of (lifecycle_locks (snd (lifecycle_lock alive fresh s m))) sid = Some l"
  using map_of_filter_alive [of _ _ _ alive, OF assms]
  by (auto simp: lifecycle_lock_def Let_def update_conv' split: option.split)

section \<open>Properties\<close>

text \<open>A handle that has left the registry is fenced for good, one in it is live, and while an id is being
  cleaned no session is current under it, so the cleanup cannot touch a replacement.\<close>

lemma retired_iff_replaced:
  assumes "daemon_reachable d" and "(sid, h) \<in> set (dm_known d)"
  shows "is_retired h (dm_manager d) \<longleftrightarrow> \<not> is_current sid h (dm_manager d)"
  using registry_retired [OF _ assms(2)] daemon_inv_reachable [OF assms(1)] by (simp add: daemon_inv_def is_current_def)

lemma cleaning_slot_empty:
  assumes "daemon_reachable d"
    and "dm_task d sid \<in> {Some (KillClaimed taken), Some KillCleaning, Some (ExitRemoved h), Some (ExitCleaning h)}"
  shows "manager_get sid (dm_manager d) = None"
proof -
  have "slot_inv d sid"
    using daemon_inv_reachable [OF assms(1)] by (simp add: daemon_inv_def)
  with assms(2) show ?thesis
    by (auto simp: slot_inv_def Let_def)
qed

text \<open>One adopted session, killed; and one handed off.\<close>

lemma killed_once: "\<exists>d. daemon_reachable d \<and> dm_log d = [Announced [115] 1, Exited [115] 1 True]"
proof -
  define d0 where "d0 = daemon_new [([115], 1)]"
  define d1 where "d1 = set_task [115] (Some Killing) d0"
  define d2 where "d2 = set_task [115] (Some (KillClaimed (Some 1))) (d1\<lparr>dm_manager := snd (kill_claim [115] (dm_manager d1))\<rparr>)"
  define d3 where "d3 = set_task [115] (Some KillCleaning)
    (d2\<lparr>dm_manager := snd (kill_result (Some 1) True (dm_manager d2)), dm_log := dm_log d2 @ kill_event [115] (Some 1) True\<rparr>)"
  note defs = d0_def d1_def d2_def d3_def
  have "daemon_reachable d0"
    unfolding d0_def by (rule daemon_reachable.start) simp_all
  moreover have "daemon_step d0 d1"
    unfolding d1_def by (rule daemon_step.kill_begin) (unfold defs, code_simp)
  moreover have "daemon_step d1 d2"
    unfolding d2_def by (rule daemon_step.kill_take) (unfold defs, code_simp+)
  moreover have "daemon_step d2 d3"
    unfolding d3_def by (rule daemon_step.kill_publish [where swept = True]) (unfold defs, code_simp+)
  moreover have "dm_log d3 = [Announced [115] 1, Exited [115] 1 True]"
    unfolding defs by code_simp
  ultimately show ?thesis
    using daemon_reachable.step by blast
qed

lemma handed_off:
  "\<exists>d. daemon_reachable d \<and> dm_handoff d = HandoffSnapshot \<and> \<not> dm_shutdown d \<and>
     manager_handles (dm_manager d) = [([115], 1), ([116], 2)] \<and>
     dm_asked d = [(([115], 1), PartsTaken), (([116], 2), PartsFailed)]"
proof -
  define d0 where "d0 = daemon_new [([115], 1), ([116], 2)]"
  define d1 where "d1 = d0\<lparr>dm_handoff := HandoffGuarded\<rparr>"
  define d2 where "d2 = d1\<lparr>dm_handoff := HandoffSealed, dm_manager := snd (seal_for_handoff (dm_manager d1))\<rparr>"
  define d3 where "d3 = handoff_handles d2"
  define d4 where "d4 = handoff_ask PartsTaken ([115], 1) [([116], 2)] d3"
  define d5 where "d5 = handoff_ask PartsFailed ([116], 2) [] d4"
  define d6 where "d6 = d5\<lparr>dm_handoff := HandoffSnapshot\<rparr>"
  note defs = d6_def d5_def d4_def d3_def d2_def d1_def d0_def
  have "daemon_reachable d0"
    unfolding d0_def by (rule daemon_reachable.start) simp_all
  moreover have "daemon_step d0 d1"
    unfolding d1_def by (rule daemon_step.handoff_guard) (simp_all add: d0_def daemon_new_def)
  moreover have "daemon_step d1 d2"
    unfolding d2_def by (rule daemon_step.handoff_seal) (simp add: d1_def)
  moreover have "daemon_step d2 d3"
    unfolding d3_def by (rule daemon_step.handoff_collect) (simp add: d2_def)
  moreover have "dm_todo d3 = [([115], 1), ([116], 2)]"
    unfolding defs by code_simp
  then have "daemon_step d3 d4"
    unfolding d4_def by (intro daemon_step.handoff_part) (simp_all add: d3_def)
  moreover have "daemon_step d4 d5"
    unfolding d5_def
    by (rule daemon_step.handoff_part) (simp_all add: d4_def d3_def handoff_ask_def)
  moreover have "daemon_step d5 d6"
    unfolding d6_def
    by (rule daemon_step.handoff_snapshot) (simp_all add: d5_def d4_def d3_def, simp add: handoff_ask_def)
  moreover have "dm_handoff d6 = HandoffSnapshot \<and> \<not> dm_shutdown d6 \<and>
      manager_handles (dm_manager d6) = [([115], 1), ([116], 2)] \<and>
      dm_asked d6 = [(([115], 1), PartsTaken), (([116], 2), PartsFailed)]"
    unfolding defs by code_simp
  ultimately show ?thesis
    using daemon_reachable.step by blast
qed

text \<open>C3: Clients hear of every death once, and never of the wrong session's. Over every interleaving of Spawn,
  Kill, natural exits, handoffs and shutdown, an Exit is published only for the incarnation the log
  announced last under that id, no handle is announced twice, and no handle exits twice.\<close>

theorem session_log_coherent:
  assumes "daemon_reachable d"
  shows "coherent (\<lambda>_. None) (dm_log d) \<and> distinct (announced (dm_log d)) \<and> distinct (exited (dm_log d))"
proof -
  have "coherent (\<lambda>_. None) (dm_log d)" and "distinct (announced (dm_log d))"
    using daemon_inv_reachable [OF assms] by (simp_all add: daemon_inv_def log_inv_def)
  then show ?thesis
    using coherent_exits [of "\<lambda>_. None" "dm_log d"] by (simp add: ran_def)
qed

theorem session_log_coherent_witness:
  "\<exists>d :: daemon. dm_log d = [Announced [115] 1, Exited [115] 1 True] \<and> coherent (\<lambda>_. None) (dm_log d) \<and> distinct (exited (dm_log d))"
  using killed_once session_log_coherent by blast

text \<open>C21: What a handoff sends and what it leaves behind. From the end of the collection to the commit or the
  abort the registry is sealed, no command or exit is under way and no id is being torn down. Unless the
  daemon is shut down, every session the registry holds was asked for its parts exactly once, in the
  registry's order, and no other was; the sessions sent are exactly those that gave their parts, and the
  number reported as dead counts all others, those that are dead and those whose parts could not be
  taken.\<close>

theorem handoff_snapshot_exact:
  assumes "daemon_reachable d" and "dm_handoff d = HandoffSnapshot \<or> dm_handoff d = HandoffCommitted"
  shows "sealed_for_handoff (dm_manager d) \<and> (\<forall>sid. dm_task d sid = None) \<and> teardown_tombstones (dm_manager d) = [] \<and>
    (\<forall>sid h. fst (kill_claim sid (dm_manager d)) = Inl () \<and> fst (spawn_install sid h (dm_manager d)) \<noteq> Inr ()) \<and>
    (dm_shutdown d \<or> map fst (dm_asked d) = manager_handles (dm_manager d)) \<and>
    dm_transfer d = map fst (filter (\<lambda>(_, p). p = PartsTaken) (dm_asked d)) \<and>
    dm_dead_count d = length (filter (\<lambda>(_, p). p = PartsDead \<or> p = PartsFailed) (dm_asked d))"
proof -
  have h: "handoff_inv d" and t: "tombstone_inv d"
    using daemon_inv_reachable [OF assms(1)] by (simp_all add: daemon_inv_def)
  have skipped: "p \<noteq> PartsTaken \<longleftrightarrow> p = PartsDead \<or> p = PartsFailed" for p
    by (cases p) simp_all
  from h assms(2) have sealed: "sealed_for_handoff (dm_manager d)" and free: "\<forall>sid. dm_task d sid = None"
    and "dm_shutdown d \<or> map fst (dm_asked d) = mg_sessions (dm_manager d)"
    and "dm_transfer d = map fst (filter (\<lambda>a. snd a = PartsTaken) (dm_asked d))"
    and "dm_dead_count d = length (filter (\<lambda>a. snd a \<noteq> PartsTaken) (dm_asked d))"
    by (auto simp: handoff_inv_def)
  moreover have "set (teardown_tombstones (dm_manager d)) = {}"
    using t free by (auto simp: tombstone_inv_def)
  ultimately show ?thesis
    by (auto simp: kill_claim_def spawn_install_def manager_handles_def skipped case_prod_unfold)
qed

theorem handoff_snapshot_exact_witness:
  "\<exists>d :: daemon. dm_transfer d = [([115], 1)] \<and> dm_dead_count d = 1 \<and>
     manager_handles (dm_manager d) = [([115], 1), ([116], 2)] \<and> sealed_for_handoff (dm_manager d)"
proof -
  obtain d where d: "daemon_reachable d" "dm_handoff d = HandoffSnapshot"
    "manager_handles (dm_manager d) = [([115], 1), ([116], 2)]"
    "dm_asked d = [(([115], 1), PartsTaken), (([116], 2), PartsFailed)]"
    using handed_off by blast
  with handoff_snapshot_exact [of d] show ?thesis
    by (intro exI [of _ d]) simp
qed

end
