(* ===== verification/Fanout.thy ===== *)
theory Fanout
  imports Prelude
begin

text \<open>
  Lag-aware terminal fanout (\<^verbatim>\<open>daemon/src/fanout.rs\<close>): the per-session registry of subscribers, their
  byte-budgeted mailboxes, the lag and resync protocol, and the writer task that drains one mailbox.
  A subscriber holds its mailbox (the channel's undelivered lines), the shared pending-byte counter and
  the flags it shares with its writer task; a registration that was replaced or removed keeps a running
  writer task, so the state keeps it in \<open>retired\<close>. Time is a number passed in. The shared counter and
  flag are also modelled one atomic access at a time, to show that draining a lagged mailbox always
  wakes the recovery path.
\<close>

section \<open>Lines and subscribers\<close>

definition SUBSCRIBER_MAILBOX_MAX_BYTES :: nat where
  "SUBSCRIBER_MAILBOX_MAX_BYTES = 8 * 1024 * 1024"

datatype subscriber_kind = Attached | Observer

primrec write_stage :: "subscriber_kind \<Rightarrow> ustr" where
  "write_stage Attached = lit ''attached_writer''"
| "write_stage Observer = lit ''observer_write''"

record event_line =
  el_line :: ustr
  el_chunk :: nat
  el_bytes :: nat

abbreviation line_len :: "event_line \<Rightarrow> nat" where
  "line_len l \<equiv> str_len (el_line l)"

text \<open>\<open>json\<close> is \<^verbatim>\<open>serde_json::to_string\<close>, which may fail.\<close>

definition serialize :: "('e \<Rightarrow> ustr option) \<Rightarrow> 'e \<Rightarrow> nat \<Rightarrow> nat \<Rightarrow> event_line option" where
  "serialize json event chunk bytes =
     map_option (\<lambda>text. \<lparr>el_line = text @ [10], el_chunk = chunk, el_bytes = bytes\<rparr>) (json event)"

record subscriber =
  sb_writer_id :: nat
  sb_kind :: subscriber_kind
  sb_session_id :: ustr
  sb_queue :: "event_line list"
  sb_pending :: nat
  sb_lagged :: bool
  sb_cancelled :: bool
  sb_lagged_since :: "nat option"
  sb_open :: bool

definition cancel :: "subscriber \<Rightarrow> subscriber" where
  "cancel s = s\<lparr>sb_cancelled := True\<rparr>"

datatype perf_kind = Lag | Recovered

record perf_event =
  pe_session :: ustr
  pe_stage :: ustr
  pe_chunk :: nat
  pe_bytes :: nat
  pe_queue_available :: "nat option"
  pe_queue_capacity :: "nat option"
  pe_kind :: perf_kind
  pe_duration :: nat

definition perf_context :: "subscriber \<Rightarrow> event_line \<Rightarrow> nat \<Rightarrow> perf_kind \<Rightarrow> nat \<Rightarrow> perf_event" where
  "perf_context s line budget kind duration =
     \<lparr>pe_session = sb_session_id s, pe_stage = write_stage (sb_kind s), pe_chunk = el_chunk line,
      pe_bytes = el_bytes line, pe_queue_available = Some (budget - sb_pending s),
      pe_queue_capacity = Some budget, pe_kind = kind, pe_duration = duration\<rparr>"

text \<open>\<^verbatim>\<open>Subscriber::enqueue\<close>: the counter is raised, and lowered again when the receiver is gone.\<close>

definition sub_enqueue :: "event_line \<Rightarrow> subscriber \<Rightarrow> bool \<times> subscriber" where
  "sub_enqueue item s =
     (if sb_open s
      then (True, s\<lparr>sb_queue := sb_queue s @ [item], sb_pending := sb_pending s + line_len item\<rparr>)
      else (False, s))"

text \<open>\<^verbatim>\<open>try_for_each\<close> of the above.\<close>

fun try_enqueue :: "event_line list \<Rightarrow> subscriber \<Rightarrow> bool \<times> subscriber" where
  "try_enqueue [] s = (True, s)"
| "try_enqueue (l # ls) s =
     (case sub_enqueue l s of (True, s') \<Rightarrow> try_enqueue ls s' | (False, s') \<Rightarrow> (False, s'))"

text \<open>\<^verbatim>\<open>disconnect\<close> aborts the writer task; nothing queued is written any more.\<close>

definition disconnect :: "subscriber \<Rightarrow> subscriber" where
  "disconnect s = s\<lparr>sb_queue := [], sb_open := False\<rparr>"

section \<open>The registry\<close>

record fanout_state =
  budget :: nat
  streaming :: bool
  attached :: "subscriber list"
  observers :: "subscriber list"
  retired :: "subscriber list"

definition fanout_default :: "nat \<Rightarrow> fanout_state" where
  "fanout_default max_bytes =
     \<lparr>budget = max_bytes, streaming = False, attached = [], observers = [], retired = []\<rparr>"

definition mark_streaming :: "fanout_state \<Rightarrow> fanout_state" where
  "mark_streaming st = st\<lparr>streaming := True\<rparr>"

definition list_of :: "subscriber_kind \<Rightarrow> fanout_state \<Rightarrow> subscriber list" where
  "list_of kind st = (case kind of Attached \<Rightarrow> attached st | Observer \<Rightarrow> observers st)"

definition set_list :: "subscriber_kind \<Rightarrow> subscriber list \<Rightarrow> fanout_state \<Rightarrow> fanout_state" where
  "set_list kind l st =
     (case kind of Attached \<Rightarrow> st\<lparr>attached := l\<rparr> | Observer \<Rightarrow> st\<lparr>observers := l\<rparr>)"

definition cancel_and_remove :: "subscriber_kind \<Rightarrow> nat \<Rightarrow> fanout_state \<Rightarrow> fanout_state" where
  "cancel_and_remove kind writer_id st =
     (let l = list_of kind st
      in (set_list kind (filter (\<lambda>s. sb_writer_id s \<noteq> writer_id) l) st)
           \<lparr>retired := retired st @ map cancel (filter (\<lambda>s. sb_writer_id s = writer_id) l)\<rparr>)"

definition new_subscriber :: "ustr \<Rightarrow> subscriber_kind \<Rightarrow> nat \<Rightarrow> subscriber" where
  "new_subscriber session_id kind writer_id =
     \<lparr>sb_writer_id = writer_id, sb_kind = kind, sb_session_id = session_id, sb_queue = [], sb_pending = 0,
      sb_lagged = False, sb_cancelled = False, sb_lagged_since = None, sb_open = True\<rparr>"

definition register ::
  "('e \<Rightarrow> ustr option) \<Rightarrow> ustr \<Rightarrow> subscriber_kind \<Rightarrow> nat \<Rightarrow> 'e list \<Rightarrow> fanout_state \<Rightarrow> fanout_state" where
  "register json session_id kind writer_id initial_events st =
     (let st' = cancel_and_remove kind writer_id st;
          s = foldl (\<lambda>s event. case serialize json event 0 0 of
                                 None \<Rightarrow> s | Some line \<Rightarrow> snd (sub_enqueue line s))
                (new_subscriber session_id kind writer_id) initial_events
      in set_list kind (list_of kind st' @ [s]) st')"

record enqueue_report =
  newly_lagged :: "perf_event list"
  resync_ready :: bool

definition empty_report :: enqueue_report where
  "empty_report = \<lparr>newly_lagged = [], resync_ready = False\<rparr>"

text \<open>One subscriber's turn in \<^verbatim>\<open>enqueue_to_list\<close>; \<open>None\<close> when it is dropped from the list.\<close>

definition offer ::
  "nat \<Rightarrow> event_line \<Rightarrow> nat \<Rightarrow> subscriber \<Rightarrow> enqueue_report \<Rightarrow> subscriber option \<times> enqueue_report" where
  "offer now line bud s report =
     (if \<not> sb_open s then (None, report)
      else if sb_lagged_since s \<noteq> None then
        (Some s, if sb_pending s = 0 then report\<lparr>resync_ready := True\<rparr> else report)
      else if sb_pending s + line_len line > bud then
        (let s' = s\<lparr>sb_lagged_since := Some now, sb_lagged := True\<rparr>;
             report' = (if sb_pending s = 0 then report\<lparr>resync_ready := True\<rparr> else report)
         in (Some s', report'\<lparr>newly_lagged := newly_lagged report' @ [perf_context s' line bud Lag 0]\<rparr>))
      else
        (case sub_enqueue line s of (True, s') \<Rightarrow> (Some s', report) | (False, _) \<Rightarrow> (None, report)))"

fun enqueue_to_list ::
  "nat \<Rightarrow> event_line \<Rightarrow> nat \<Rightarrow> subscriber list \<Rightarrow> enqueue_report \<Rightarrow> subscriber list \<times> enqueue_report" where
  "enqueue_to_list now line bud [] report = ([], report)"
| "enqueue_to_list now line bud (s # ss) report =
     (let (kept, report') = offer now line bud s report;
          (ss', report'') = enqueue_to_list now line bud ss report'
      in (case kept of None \<Rightarrow> ss' | Some s' \<Rightarrow> s' # ss', report''))"

definition enqueue :: "nat \<Rightarrow> event_line \<Rightarrow> fanout_state \<Rightarrow> enqueue_report \<times> fanout_state" where
  "enqueue now line st =
     (let (a, report) = enqueue_to_list now line (budget st) (attached st) empty_report;
          (obs, report') = enqueue_to_list now line (budget st) (observers st) report
      in (report', st\<lparr>attached := a, observers := obs\<rparr>))"

definition has_drained_lagged :: "fanout_state \<Rightarrow> bool" where
  "has_drained_lagged st =
     list_ex (\<lambda>s. sb_lagged_since s \<noteq> None \<and> sb_pending s = 0) (attached st @ observers st)"

definition resync_one ::
  "nat \<Rightarrow> nat \<Rightarrow> event_line list \<Rightarrow> subscriber \<Rightarrow> subscriber \<times> perf_event list" where
  "resync_one now bud lines s =
     (case sb_lagged_since s of
        None \<Rightarrow> (s, [])
      | Some since \<Rightarrow>
          if sb_pending s \<noteq> 0 then (s, [])
          else
            (case try_enqueue lines s of
               (False, s') \<Rightarrow> (s', [])
             | (True, s') \<Rightarrow>
                 (let s'' = s'\<lparr>sb_lagged_since := None, sb_lagged := False\<rparr>
                  in (s'', [perf_context s'' (hd lines) bud Recovered (now - since)]))))"

definition resync_drained ::
  "('e \<Rightarrow> ustr option) \<Rightarrow> nat \<Rightarrow> 'e list \<Rightarrow> fanout_state \<Rightarrow> perf_event list \<times> fanout_state" where
  "resync_drained json now events st =
     (case those (map (\<lambda>event. serialize json event 0 0) events) of
        None \<Rightarrow> ([], st)
      | Some lines \<Rightarrow>
          if lines = [] then ([], st)
          else
            (let a = map (resync_one now (budget st) lines) (attached st);
                 obs = map (resync_one now (budget st) lines) (observers st)
             in (concat (map snd a) @ concat (map snd obs),
                 st\<lparr>attached := map fst a, observers := map fst obs\<rparr>)))"

definition final_one :: "event_line \<Rightarrow> subscriber \<Rightarrow> subscriber" where
  "final_one line s =
     (if sb_lagged_since s \<noteq> None then disconnect s
      else (case sub_enqueue line s of (True, s') \<Rightarrow> s' | (False, s') \<Rightarrow> disconnect s'))"

definition deliver_final :: "('e \<Rightarrow> ustr option) \<Rightarrow> 'e \<Rightarrow> fanout_state \<Rightarrow> fanout_state" where
  "deliver_final json event st =
     (case serialize json event 0 0 of
        None \<Rightarrow> st
      | Some line \<Rightarrow>
          st\<lparr>attached := [], observers := [],
             retired := retired st @ map (final_one line) (attached st @ observers st)\<rparr>)"

definition remove :: "subscriber_kind \<Rightarrow> nat \<Rightarrow> fanout_state \<Rightarrow> fanout_state" where
  "remove kind writer_id st = cancel_and_remove kind writer_id st"

definition remove_writer_everywhere :: "nat \<Rightarrow> fanout_state \<Rightarrow> fanout_state" where
  "remove_writer_everywhere writer_id st =
     cancel_and_remove Observer writer_id (cancel_and_remove Attached writer_id st)"

section \<open>The writer task\<close>

text \<open>
  One turn of the writer's loop: take the next line, give up when cancelled, write it (\<open>ok\<close> is what the
  socket answers), lower the counter, and report whether recovery was notified. The second component
  is the line put on the socket. A task that gave up or failed has returned and takes no further turn.
\<close>

definition writer_step :: "bool \<Rightarrow> subscriber \<Rightarrow> subscriber \<times> event_line option \<times> bool" where
  "writer_step ok s =
     (case (if sb_open s then sb_queue s else []) of
        [] \<Rightarrow> (s, None, False)
      | item # rest \<Rightarrow>
          if sb_cancelled s
          then (s\<lparr>sb_queue := [], sb_pending := sb_pending s - line_len item, sb_open := False\<rparr>, None, False)
          else
            (s\<lparr>sb_queue := (if ok then rest else []), sb_pending := sb_pending s - line_len item, sb_open := ok\<rparr>,
             if ok then Some item else None,
             sb_pending s = line_len item \<and> sb_lagged s))"

section \<open>Fanouts by session\<close>

definition session_fanout ::
  "nat \<Rightarrow> ustr \<Rightarrow> (ustr \<rightharpoonup> fanout_state) \<Rightarrow> fanout_state \<times> (ustr \<rightharpoonup> fanout_state)" where
  "session_fanout max_bytes session_id fanouts =
     (case fanouts session_id of
        Some st \<Rightarrow> (st, fanouts)
      | None \<Rightarrow> (fanout_default max_bytes, fanouts(session_id \<mapsto> fanout_default max_bytes)))"

definition existing_session_fanout :: "ustr \<Rightarrow> (ustr \<rightharpoonup> fanout_state) \<Rightarrow> fanout_state option" where
  "existing_session_fanout session_id fanouts = fanouts session_id"

section \<open>Mailbox invariant\<close>

definition queue_bytes :: "event_line list \<Rightarrow> nat" where
  "queue_bytes q = sum_list (map line_len q)"

lemma queue_bytes_simps [simp]:
  "queue_bytes [] = 0" "queue_bytes (l # q) = line_len l + queue_bytes q"
  "queue_bytes (p @ q) = queue_bytes p + queue_bytes q"
  by (simp_all add: queue_bytes_def)

definition sub_inv :: "nat \<Rightarrow> nat \<Rightarrow> subscriber \<Rightarrow> bool" where
  "sub_inv B M s \<longleftrightarrow>
     sb_pending s \<le> max B M \<and> (sb_open s \<longrightarrow> sb_pending s = queue_bytes (sb_queue s)) \<and>
     sb_lagged s = (sb_lagged_since s \<noteq> None) \<and> \<not> sb_cancelled s"

definition batch_lines :: "('e \<Rightarrow> ustr option) \<Rightarrow> 'e list \<Rightarrow> event_line list" where
  "batch_lines json events = List.map_filter (\<lambda>event. serialize json event 0 0) events"

lemma batch_lines_simps [simp]:
  "batch_lines json [] = []"
  "batch_lines json (e # es) =
     (case serialize json e 0 0 of None \<Rightarrow> batch_lines json es | Some l \<Rightarrow> l # batch_lines json es)"
  by (simp_all add: batch_lines_def List.map_filter_def split: option.split)

lemma those_batch: "those (map (\<lambda>event. serialize json event 0 0) events) = Some ls \<Longrightarrow> ls = batch_lines json events"
  by (induction events arbitrary: ls) (auto split: option.splits)

lemma register_queue:
  "sb_open s \<Longrightarrow>
   foldl (\<lambda>s event. case serialize json event 0 0 of None \<Rightarrow> s | Some line \<Rightarrow> snd (sub_enqueue line s)) s es =
     s\<lparr>sb_queue := sb_queue s @ batch_lines json es,
       sb_pending := sb_pending s + queue_bytes (batch_lines json es)\<rparr>"
  by (induction es arbitrary: s) (simp_all add: sub_enqueue_def add.assoc split: option.split)

lemma try_enqueue_open:
  "sb_open s \<Longrightarrow>
   try_enqueue ls s = (True, s\<lparr>sb_queue := sb_queue s @ ls, sb_pending := sb_pending s + queue_bytes ls\<rparr>)"
  by (induction ls arbitrary: s) (simp_all add: sub_enqueue_def add.assoc)

lemma try_enqueue_closed: "\<not> sb_open s \<Longrightarrow> ls \<noteq> [] \<Longrightarrow> try_enqueue ls s = (False, s)"
  by (cases ls) (simp_all add: sub_enqueue_def)

lemma offer_inv:
  "sub_inv B M s \<Longrightarrow> offer now line B s report = (Some s', report') \<Longrightarrow> sub_inv B M s'"
  by (auto simp: offer_def sub_inv_def sub_enqueue_def Let_def split: if_splits)

lemma resync_one_inv:
  assumes "sub_inv B M s" and "queue_bytes ls \<le> M" and "ls \<noteq> []"
  shows "sub_inv B M (fst (resync_one now B ls s))"
proof (cases "sb_open s")
  case True
  with assms show ?thesis
    by (auto simp: resync_one_def sub_inv_def try_enqueue_open Let_def split: option.split)
next
  case False
  with assms show ?thesis
    by (auto simp: resync_one_def try_enqueue_closed split: option.split)
qed

lemma writer_step_inv: "sub_inv B M s \<Longrightarrow> sub_inv B M (fst (writer_step ok s))"
  by (auto simp: writer_step_def sub_inv_def split: list.split)

lemma enqueue_to_list_all:
  assumes step: "\<And>s r s' r'. P s \<Longrightarrow> offer now line B s r = (Some s', r') \<Longrightarrow> Q s'"
  shows "list_all P ss \<Longrightarrow> list_all Q (fst (enqueue_to_list now line B ss report))"
proof (induction ss arbitrary: report)
  case (Cons s ss)
  obtain kept r1 where o: "offer now line B s report = (kept, r1)"
    by (rule prod.exhaust)
  with Cons step [of s report _ r1] show ?case
    by (auto simp: Let_def prod.case_eq_if split: option.splits)
qed simp

section \<open>Reachable registries\<close>

text \<open>
  Every operation of the registry and every turn of a writer task, in any order. \<open>B\<close> is the budget and
  \<open>M\<close> bounds the serialised size of a snapshot batch.
\<close>

inductive fan_reachable :: "('e \<Rightarrow> ustr option) \<Rightarrow> nat \<Rightarrow> nat \<Rightarrow> fanout_state \<Rightarrow> bool" for json B M where
  init: "fan_reachable json B M (fanout_default B)"
| stream: "fan_reachable json B M st \<Longrightarrow> fan_reachable json B M (mark_streaming st)"
| register: "fan_reachable json B M st \<Longrightarrow> queue_bytes (batch_lines json events) \<le> M \<Longrightarrow>
    fan_reachable json B M (register json sid kind w events st)"
| enqueue: "fan_reachable json B M st \<Longrightarrow> fan_reachable json B M (snd (enqueue now line st))"
| resync: "fan_reachable json B M st \<Longrightarrow> queue_bytes (batch_lines json events) \<le> M \<Longrightarrow>
    fan_reachable json B M (snd (resync_drained json now events st))"
| deliver_final: "fan_reachable json B M st \<Longrightarrow> fan_reachable json B M (deliver_final json event st)"
| remove: "fan_reachable json B M st \<Longrightarrow> fan_reachable json B M (remove kind w st)"
| remove_everywhere: "fan_reachable json B M st \<Longrightarrow> fan_reachable json B M (remove_writer_everywhere w st)"
| writer: "fan_reachable json B M st \<Longrightarrow> i < length (list_of kind st) \<Longrightarrow>
    fan_reachable json B M (set_list kind ((list_of kind st)[i := fst (writer_step ok (list_of kind st ! i))]) st)"
| retired_writer: "fan_reachable json B M st \<Longrightarrow> i < length (retired st) \<Longrightarrow>
    fan_reachable json B M (st\<lparr>retired := (retired st)[i := fst (writer_step ok (retired st ! i))]\<rparr>)"

definition fan_inv :: "nat \<Rightarrow> nat \<Rightarrow> fanout_state \<Rightarrow> bool" where
  "fan_inv B M st \<longleftrightarrow>
     budget st = B \<and> list_all (sub_inv B M) (attached st) \<and> list_all (sub_inv B M) (observers st)"

lemma fan_inv_list_of: "fan_inv B M st \<Longrightarrow> list_all (sub_inv B M) (list_of kind st)"
  by (cases kind) (simp_all add: fan_inv_def list_of_def)

lemma fan_inv_set_list:
  "fan_inv B M st \<Longrightarrow> list_all (sub_inv B M) l \<Longrightarrow> fan_inv B M (set_list kind l st)"
  by (cases kind) (simp_all add: fan_inv_def set_list_def)

lemma fan_inv_retired [simp]: "fan_inv B M (st\<lparr>retired := x\<rparr>) = fan_inv B M st"
  by (simp add: fan_inv_def)

lemma cancel_and_remove_inv: "fan_inv B M st \<Longrightarrow> fan_inv B M (cancel_and_remove kind w st)"
  using fan_inv_list_of [of B M st kind]
  by (auto simp: cancel_and_remove_def Let_def list_all_iff intro!: fan_inv_set_list)

lemma fan_inv_reachable: "fan_reachable json B M st \<Longrightarrow> fan_inv B M st"
proof (induction rule: fan_reachable.induct)
  case (register st events sid kind w)
  let ?st = "cancel_and_remove kind w st"
  have inv: "fan_inv B M ?st"
    by (rule cancel_and_remove_inv [OF register.IH])
  have "sub_inv B M (new_subscriber sid kind w
      \<lparr>sb_queue := batch_lines json events, sb_pending := queue_bytes (batch_lines json events)\<rparr>)"
    using register.hyps(2) by (simp add: sub_inv_def new_subscriber_def)
  with inv fan_inv_list_of [OF inv, of kind] show ?case
    by (simp add: register_def Let_def register_queue fan_inv_set_list new_subscriber_def)
next
  case (enqueue st now line)
  then show ?case
    using enqueue_to_list_all [where P = "sub_inv B M" and Q = "sub_inv B M", OF offer_inv]
    by (simp add: enqueue_def Let_def fan_inv_def prod.case_eq_if)
next
  case (resync st events now)
  then show ?case
    using those_batch [of json events] resync_one_inv [of B M _ _ now]
    by (fastforce simp: resync_drained_def Let_def fan_inv_def list_all_iff split: option.split)
next
  case (remove st kind w)
  then show ?case
    by (simp add: remove_def cancel_and_remove_inv)
next
  case (remove_everywhere st w)
  then show ?case
    by (simp add: remove_writer_everywhere_def cancel_and_remove_inv)
next
  case (writer st i kind ok)
  then show ?case
    using fan_inv_list_of [OF writer.IH, of kind]
    by (intro fan_inv_set_list) (auto simp: list_all_length nth_list_update writer_step_inv)
qed (simp_all add: fan_inv_def fanout_default_def mark_streaming_def deliver_final_def split: option.split)

section \<open>One subscriber's stream\<close>

datatype sub_op = Live nat event_line | Write bool

fun sub_run ::
  "nat \<Rightarrow> sub_op list \<Rightarrow> subscriber \<Rightarrow> event_line list \<Rightarrow> subscriber option \<times> event_line list" where
  "sub_run B [] s sent = (Some s, sent)"
| "sub_run B (Live now line # ops) s sent =
     (case fst (offer now line B s empty_report) of
        None \<Rightarrow> (None, sent) | Some s' \<Rightarrow> sub_run B ops s' sent)"
| "sub_run B (Write ok # ops) s sent =
     (case writer_step ok s of
        (s', written, _) \<Rightarrow> sub_run B ops s' (sent @ (case written of None \<Rightarrow> [] | Some l \<Rightarrow> [l])))"

fun live_lines :: "sub_op list \<Rightarrow> event_line list" where
  "live_lines [] = []"
| "live_lines (Live now line # ops) = line # live_lines ops"
| "live_lines (Write ok # ops) = live_lines ops"

lemma sub_run_closed:
  "\<not> sb_open s \<Longrightarrow> sub_run B ops s sent = (Some s', sent') \<Longrightarrow> \<not> sb_open s'"
  by (induction B ops s sent rule: sub_run.induct)
     (auto simp: offer_def writer_step_def split: option.splits)

lemma writer_step_open:
  "sb_open s \<Longrightarrow> \<not> sb_cancelled s \<Longrightarrow> writer_step ok s = (s', w, n) \<Longrightarrow> sb_open s' \<Longrightarrow>
   (case w of None \<Rightarrow> [] | Some l \<Rightarrow> [l]) @ sb_queue s' = sb_queue s \<and>
   sb_lagged_since s' = sb_lagged_since s \<and> \<not> sb_cancelled s'"
  by (auto simp: writer_step_def split: list.splits if_splits)

lemma sub_run_WriteE:
  assumes "sub_run B (Write ok # ops) s sent = (Some s', sent')" and "sb_open s'"
  obtains t w n where "writer_step ok s = (t, w, n)" "sb_open t"
    "sub_run B ops t (sent @ (case w of None \<Rightarrow> [] | Some l \<Rightarrow> [l])) = (Some s', sent')"
proof -
  obtain t w n where w: "writer_step ok s = (t, w, n)"
    by (rule prod_cases3)
  with assms(1) have run: "sub_run B ops t (sent @ (case w of None \<Rightarrow> [] | Some l \<Rightarrow> [l])) = (Some s', sent')"
    by simp
  with assms(2) sub_run_closed [OF _ run] have "sb_open t"
    by blast
  from that [OF w this run] show ?thesis .
qed

lemma sub_run_lagged:
  assumes "sub_run B ops s sent = (Some s', sent')" and "sb_open s" and "\<not> sb_cancelled s" and "sb_open s'"
    and "sb_lagged_since s \<noteq> None"
  shows "sent' @ sb_queue s' = sent @ sb_queue s \<and> sb_lagged_since s' \<noteq> None"
  using assms
proof (induction B ops s sent rule: sub_run.induct)
  case (2 B now line ops s sent)
  then show ?case
    by (auto simp: offer_def split: option.splits if_splits)
next
  case (3 B ok ops s sent)
  obtain t w n where w: "writer_step ok s = (t, w, n)" and t: "sb_open t"
    and run: "sub_run B ops t (sent @ (case w of None \<Rightarrow> [] | Some l \<Rightarrow> [l])) = (Some s', sent')"
    by (rule sub_run_WriteE [OF "3.prems"(1,4)])
  note step = writer_step_open [OF "3.prems"(2,3) w t]
  from "3.IH" [OF w [symmetric] refl run t] step "3.prems"(4,5) show ?case
    by (metis append.assoc)
qed simp

lemma sub_run_gap_free:
  assumes "sub_run B ops s sent = (Some s', sent')" and "sb_open s" and "\<not> sb_cancelled s" and "sb_open s'"
    and "sb_lagged_since s = None"
  shows "\<exists>n. sent' @ sb_queue s' = sent @ sb_queue s @ take n (live_lines ops) \<and>
     (sb_lagged_since s' = None \<longrightarrow> length (live_lines ops) \<le> n)"
  using assms
proof (induction B ops s sent rule: sub_run.induct)
  case (2 B now line ops s sent)
  show ?case
  proof (cases "sb_pending s + line_len line > B")
    case True
    let ?t = "s\<lparr>sb_lagged_since := Some now, sb_lagged := True\<rparr>"
    have "sub_run B ops ?t sent = (Some s', sent')"
      using 2 True by (simp add: offer_def Let_def split: if_splits)
    from sub_run_lagged [OF this] 2 show ?thesis
      by (intro exI [of _ 0]) auto
  next
    case False
    let ?t = "s\<lparr>sb_queue := sb_queue s @ [line], sb_pending := sb_pending s + line_len line\<rparr>"
    have t: "fst (offer now line B s empty_report) = Some ?t"
      using 2 False by (simp add: offer_def sub_enqueue_def)
    then obtain n where "sent' @ sb_queue s' = sent @ sb_queue ?t @ take n (live_lines ops)"
      "sb_lagged_since s' = None \<longrightarrow> length (live_lines ops) \<le> n"
      using "2.IH" [OF t] "2.prems" by auto
    then show ?thesis
      by (intro exI [of _ "Suc n"]) simp
  qed
next
  case (3 B ok ops s sent)
  obtain t w n where w: "writer_step ok s = (t, w, n)" and t: "sb_open t"
    and run: "sub_run B ops t (sent @ (case w of None \<Rightarrow> [] | Some l \<Rightarrow> [l])) = (Some s', sent')"
    by (rule sub_run_WriteE [OF "3.prems"(1,4)])
  note step = writer_step_open [OF "3.prems"(2,3) w t]
  then obtain n where n: "sent' @ sb_queue s' =
      (sent @ (case w of None \<Rightarrow> [] | Some l \<Rightarrow> [l])) @ sb_queue t @ take n (live_lines ops)"
    "sb_lagged_since s' = None \<longrightarrow> length (live_lines ops) \<le> n"
    using "3.IH" [OF w [symmetric] refl run t] "3.prems"(4,5) by auto
  moreover from step have "(case w of None \<Rightarrow> [] | Some l \<Rightarrow> [l]) @ sb_queue t = sb_queue s"
    by blast
  ultimately have "sent' @ sb_queue s' = sent @ sb_queue s @ take n (live_lines ops)"
    by (simp only: append.assoc) (simp only: append.assoc [symmetric])
  with n(2) show ?case
    by auto
qed auto

section \<open>Properties\<close>

text \<open>C15: Memory is bounded whatever the sockets do. In every reachable registry, a subscriber's undelivered
  bytes are at most the budget or one snapshot batch, whichever is larger, and the counter the budget
  is checked against is exactly the size of its mailbox.\<close>

theorem mailbox_bounded:
  assumes "fan_reachable json B M st" and "s \<in> set (attached st @ observers st)"
  shows "sb_pending s \<le> max B M \<and> (sb_open s \<longrightarrow> sb_pending s = sum_list (map line_len (sb_queue s)))"
  using fan_inv_reachable [OF assms(1)] assms(2)
  by (auto simp: fan_inv_def list_all_iff sub_inv_def queue_bytes_def)

theorem mailbox_bounded_witness:
  "\<exists>s. s \<in> set (attached (register Some (lit ''t'') Attached 1 [lit ''snap''] (fanout_default 3))) \<and>
     sb_pending s \<le> max 3 9"
proof -
  let ?st = "register Some (lit ''t'') Attached 1 [lit ''snap''] (fanout_default 3)"
  have "queue_bytes (batch_lines Some [lit ''snap'']) \<le> 9"
    by (simp add: serialize_def queue_bytes_def str_len_def as_bytes_def utf8_char_def)
  then have "fan_reachable Some 3 9 ?st"
    by (intro fan_reachable.register fan_reachable.init)
  moreover have "attached ?st \<noteq> []"
    by (simp add: register_def set_list_def Let_def)
  then have "hd (attached ?st) \<in> set (attached ?st @ observers ?st)"
    by simp
  ultimately show ?thesis
    using mailbox_bounded [of Some 3 9 ?st "hd (attached ?st)"] \<open>attached ?st \<noteq> []\<close> hd_in_set by blast
qed

text \<open>C1: A subscriber's stream has no silent gap. From a registration or resync on, what was written and
  what is still queued is the snapshot batch followed by every live line in order while it keeps up; a
  subscriber that falls behind keeps a prefix of that stream and stays marked as lagged until a
  snapshot restarts it.\<close>

theorem stream_gap_free:
  assumes "s = new_subscriber sid kind w\<lparr>sb_queue := batch, sb_pending := p\<rparr>"
    and "sub_run B ops s [] = (Some s', sent)" and "sb_open s'"
  shows "\<exists>n. sent @ sb_queue s' = batch @ take n (live_lines ops) \<and>
     (sb_lagged_since s' = None \<longrightarrow> take n (live_lines ops) = live_lines ops)"
proof -
  have "sb_open s" "\<not> sb_cancelled s" "sb_lagged_since s = None" "sb_queue s = batch"
    by (simp_all add: assms(1) new_subscriber_def)
  with sub_run_gap_free [OF assms(2) _ _ assms(3)] show ?thesis
    by auto
qed

theorem stream_gap_free_witness:
  "\<exists>n. [\<lparr>el_line = lit ''s'', el_chunk = 0, el_bytes = 0\<rparr>] @ [\<lparr>el_line = lit ''a'', el_chunk = 1, el_bytes = 1\<rparr>] =
     [\<lparr>el_line = lit ''s'', el_chunk = 0, el_bytes = 0\<rparr>] @
     take n [\<lparr>el_line = lit ''a'', el_chunk = 1, el_bytes = 1\<rparr>, \<lparr>el_line = lit ''bb'', el_chunk = 2, el_bytes = 2\<rparr>]"
proof -
  let ?a = "\<lparr>el_line = lit ''a'', el_chunk = 1, el_bytes = 1\<rparr>" and ?b = "\<lparr>el_line = lit ''bb'', el_chunk = 2, el_bytes = 2\<rparr>"
  let ?s = "new_subscriber [] Attached 1\<lparr>sb_queue := [\<lparr>el_line = lit ''s'', el_chunk = 0, el_bytes = 0\<rparr>], sb_pending := 1\<rparr>"
  have run: "sub_run 2 [Live 0 ?a, Write True, Live 0 ?b] ?s [] =
      (Some (?s\<lparr>sb_queue := [?a], sb_lagged_since := Some 0, sb_lagged := True\<rparr>),
       [\<lparr>el_line = lit ''s'', el_chunk = 0, el_bytes = 0\<rparr>])"
    by code_simp
  from stream_gap_free [OF refl run] show ?thesis
    by (auto simp: new_subscriber_def simp del: lit_simps)
qed

text \<open>A re-registration is a clean cutover: the connection's old registration is cancelled and can put no
  line on the socket any more, and the new one starts with exactly the serialised initial events, so
  nothing stale can follow the fresh snapshot.\<close>

theorem register_cutover:
  "list_of kind (register json sid kind w events st) =
     filter (\<lambda>s. sb_writer_id s \<noteq> w) (list_of kind st) @
     [(new_subscriber sid kind w)\<lparr>sb_queue := batch_lines json events,
        sb_pending := queue_bytes (batch_lines json events)\<rparr>] \<and>
   (\<exists>old. retired (register json sid kind w events st) = retired st @ old \<and>
      length old = length (filter (\<lambda>s. sb_writer_id s = w) (list_of kind st)) \<and>
      list_all (\<lambda>s. \<forall>ok. fst (snd (writer_step ok s)) = None) old)"
proof -
  have "fst (snd (writer_step ok (cancel s))) = None" for ok s
    by (simp add: writer_step_def cancel_def split: list.split)
  then show ?thesis
    by (cases kind)
       (auto simp: register_def cancel_and_remove_def Let_def list_of_def set_list_def register_queue
         new_subscriber_def list_all_iff)
qed

end
