(* ===== verification/Fanout_Wakeup.thy ===== *)
theory Fanout_Wakeup
  imports Fanout
begin

text \<open>
  The lag handshake between \<^verbatim>\<open>enqueue_to_list\<close> and the writer task of one subscriber, one atomic access
  at a time. The enqueuer loads the pending counter, stores the lag flag and loads the counter again;
  the writer lowers the counter and then loads the flag. The store is a release and the load after it an
  acquire, so the store may become visible to the writer after that load: it waits in \<open>rc_buffer\<close> and is
  flushed at any later moment. The counter is only changed by read-modify-writes and is coherent.
\<close>

section \<open>Atomic steps\<close>

datatype enqueuer = Settled | Fitting nat | Sending nat | Overflowing | Marked

record race =
  rc_pending :: nat
  rc_since :: bool
  rc_buffer :: bool
  rc_lagged :: bool
  rc_mailbox :: "nat list"
  rc_ready :: bool
  rc_notified :: bool
  rc_overtaken :: bool
  rc_enqueuer :: enqueuer
  rc_writer :: "bool option"

text \<open>
  \<open>rc_since\<close> is \<^verbatim>\<open>lagged_since.is_some()\<close>, which only the holder of the fanout lock reads, \<open>rc_lagged\<close> the
  flag as the writer sees it. \<open>rc_mailbox\<close> holds the sizes of the lines sent and not yet subtracted;
  \<open>rc_writer\<close> is \<open>Some b\<close> between the writer's two accesses, with \<open>b\<close> whether the subtraction emptied the
  counter. \<open>rc_ready\<close> and \<open>rc_notified\<close> remember that a report or a notification was made;
  \<open>rc_overtaken\<close> that a writer which drained the mailbox missed a flag already stored but not yet visible.
\<close>

definition load_pending :: "nat \<Rightarrow> nat \<Rightarrow> race \<Rightarrow> race" where
  "load_pending bud len r =
     r\<lparr>rc_enqueuer := (if rc_pending r + len > bud then Overflowing else Fitting len)\<rparr>"

definition load_lagged_pending :: "race \<Rightarrow> race" where
  "load_lagged_pending r = r\<lparr>rc_ready := rc_ready r \<or> rc_pending r = 0\<rparr>"

definition fetch_add :: "nat \<Rightarrow> race \<Rightarrow> race" where
  "fetch_add len r = r\<lparr>rc_pending := rc_pending r + len, rc_enqueuer := Sending len\<rparr>"

definition send_line :: "nat \<Rightarrow> race \<Rightarrow> race" where
  "send_line len r = r\<lparr>rc_mailbox := rc_mailbox r @ [len], rc_enqueuer := Settled\<rparr>"

definition store_lagged :: "race \<Rightarrow> race" where
  "store_lagged r = r\<lparr>rc_since := True, rc_buffer := True, rc_enqueuer := Marked\<rparr>"

definition flush_lagged :: "race \<Rightarrow> race" where
  "flush_lagged r = r\<lparr>rc_buffer := False, rc_lagged := True\<rparr>"

definition recheck_pending :: "race \<Rightarrow> race" where
  "recheck_pending r = r\<lparr>rc_ready := rc_ready r \<or> rc_pending r = 0, rc_enqueuer := Settled\<rparr>"

definition fetch_sub :: "nat \<Rightarrow> nat list \<Rightarrow> race \<Rightarrow> race" where
  "fetch_sub len rest r =
     r\<lparr>rc_pending := rc_pending r - len, rc_mailbox := rest, rc_writer := Some (rc_pending r = len)\<rparr>"

definition check_lagged :: "bool \<Rightarrow> race \<Rightarrow> race" where
  "check_lagged drained r =
     r\<lparr>rc_notified := rc_notified r \<or> (drained \<and> rc_lagged r),
       rc_overtaken := rc_overtaken r \<or> (drained \<and> \<not> rc_lagged r \<and> rc_buffer r),
       rc_writer := None\<rparr>"

text \<open>\<open>has_drained\<close> is the clause of \<^verbatim>\<open>has_drained_lagged\<close> for this subscriber, polled under the fanout lock.\<close>

definition has_drained :: "race \<Rightarrow> bool" where
  "has_drained r \<longleftrightarrow> rc_since r \<and> rc_pending r = 0"

inductive race_step :: "nat \<Rightarrow> race \<Rightarrow> race \<Rightarrow> bool" for bud where
  load: "rc_enqueuer r = Settled \<Longrightarrow> \<not> rc_since r \<Longrightarrow> 0 < len \<Longrightarrow> race_step bud r (load_pending bud len r)"
| load_lagged: "rc_enqueuer r = Settled \<Longrightarrow> rc_since r \<Longrightarrow> race_step bud r (load_lagged_pending r)"
| add: "rc_enqueuer r = Fitting len \<Longrightarrow> race_step bud r (fetch_add len r)"
| send: "rc_enqueuer r = Sending len \<Longrightarrow> race_step bud r (send_line len r)"
| store: "rc_enqueuer r = Overflowing \<Longrightarrow> race_step bud r (store_lagged r)"
| flush: "rc_buffer r \<Longrightarrow> race_step bud r (flush_lagged r)"
| recheck: "rc_enqueuer r = Marked \<Longrightarrow> race_step bud r (recheck_pending r)"
| subtract: "rc_writer r = None \<Longrightarrow> rc_mailbox r = x # rest \<Longrightarrow> race_step bud r (fetch_sub x rest r)"
| check: "rc_writer r = Some drained \<Longrightarrow> race_step bud r (check_lagged drained r)"

definition race_init :: race where
  "race_init =
     \<lparr>rc_pending = 0, rc_since = False, rc_buffer = False, rc_lagged = False, rc_mailbox = [],
      rc_ready = False, rc_notified = False, rc_overtaken = False, rc_enqueuer = Settled,
      rc_writer = None\<rparr>"

inductive race_reachable :: "nat \<Rightarrow> race \<Rightarrow> bool" for bud where
  start: "race_reachable bud race_init"
| advance: "race_reachable bud r \<Longrightarrow> race_step bud r r' \<Longrightarrow> race_reachable bud r'"

lemmas race_defs = race_init_def load_pending_def load_lagged_pending_def fetch_add_def send_line_def
  store_lagged_def flush_lagged_def recheck_pending_def fetch_sub_def check_lagged_def

section \<open>Invariant\<close>

definition in_flight :: "enqueuer \<Rightarrow> nat" where
  "in_flight e = (case e of Sending len \<Rightarrow> len | _ \<Rightarrow> 0)"

text \<open>The counter is the bytes sent and not subtracted, plus those added and not yet sent; and a lagged
  mailbox is reported, or still has a line whose subtraction will look at the flag, or was overtaken.\<close>

definition race_inv :: "race \<Rightarrow> bool" where
  "race_inv r \<longleftrightarrow>
     rc_pending r = sum_list (rc_mailbox r) + in_flight (rc_enqueuer r) \<and>
     list_all (\<lambda>x. 0 < x) (rc_mailbox r) \<and>
     (\<forall>len. rc_enqueuer r = Fitting len \<or> rc_enqueuer r = Sending len \<longrightarrow> 0 < len) \<and>
     (rc_since r \<longleftrightarrow> rc_lagged r \<or> rc_buffer r) \<and>
     (rc_since r \<longrightarrow> rc_enqueuer r = Marked \<or> rc_enqueuer r = Settled) \<and>
     (rc_enqueuer r = Marked \<longrightarrow> rc_since r) \<and>
     (rc_enqueuer r = Settled \<longrightarrow> rc_since r \<longrightarrow>
        rc_ready r \<or> rc_notified r \<or> rc_overtaken r \<or> rc_mailbox r \<noteq> [] \<or> rc_writer r = Some True)"

lemma race_inv_step: "race_step bud r r' \<Longrightarrow> race_inv r \<Longrightarrow> race_inv r'"
  by (induction rule: race_step.induct) (auto simp: race_inv_def race_defs in_flight_def)

lemma race_inv_reachable: "race_reachable bud r \<Longrightarrow> race_inv r"
proof (induction rule: race_reachable.induct)
  case start
  then show ?case by (simp add: race_inv_def race_init_def in_flight_def)
qed (blast intro: race_inv_step)

text \<open>Running a given list of steps, for the examples: every listed state follows from the one before.\<close>

lemma race_reachable_store:
  "race_reachable 8 (store_lagged (load_pending 8 9 (send_line 4 (fetch_add 4 (load_pending 8 4 race_init)))))"
  (is "race_reachable _ (store_lagged ?r4)")
proof -
  have "race_reachable 8 (load_pending 8 4 race_init)"
    by (rule race_reachable.advance [OF race_reachable.start race_step.load]) (simp_all add: race_defs)
  then have "race_reachable 8 (fetch_add 4 (load_pending 8 4 race_init))"
    by (rule race_reachable.advance [OF _ race_step.add]) (simp add: race_defs)
  then have "race_reachable 8 (send_line 4 (fetch_add 4 (load_pending 8 4 race_init)))"
    by (rule race_reachable.advance [OF _ race_step.send]) (simp add: race_defs)
  then have "race_reachable 8 ?r4"
    by (rule race_reachable.advance [OF _ race_step.load]) (simp_all add: race_defs)
  then show ?thesis
    by (rule race_reachable.advance [OF _ race_step.store]) (simp add: race_defs)
qed

section \<open>Properties\<close>

text \<open>C25: A mailbox that lagged is not forgotten, however the accesses of the enqueuer and of the writer
  interleave and however late the flag's store becomes visible. Once both are at rest and the mailbox is
  empty, it was reported ready for a resync, or the writer notified the recovery path, or the writer's
  check overtook the flag's store; and in every one of these cases the next line offered reports it
  ready, and so does the poll of the stream task.\<close>

theorem no_lost_wakeup:
  assumes "race_reachable bud r" and "rc_since r"
    and "rc_enqueuer r = Settled" and "rc_writer r = None" and "rc_mailbox r = []"
  shows "(rc_ready r \<or> rc_notified r \<or> rc_overtaken r) \<and>
     race_step bud r (load_lagged_pending r) \<and> rc_ready (load_lagged_pending r) \<and> has_drained r"
  using race_inv_reachable [OF assms(1)] race_step.load_lagged [OF assms(3,2), of bud] assms(2-)
  by (auto simp: race_inv_def load_lagged_pending_def has_drained_def in_flight_def)

theorem no_lost_wakeup_witness:
  "let r0 = store_lagged (load_pending 8 9 (send_line 4 (fetch_add 4 (load_pending 8 4 race_init))));
       r = check_lagged True (flush_lagged (fetch_sub 4 [] (recheck_pending r0)))
   in rc_notified r \<and> \<not> rc_overtaken r \<and> rc_ready (load_lagged_pending r) \<and> has_drained r"
proof -
  let ?r0 = "store_lagged (load_pending 8 9 (send_line 4 (fetch_add 4 (load_pending 8 4 race_init))))"
  have "race_reachable 8 (recheck_pending ?r0)"
    by (rule race_reachable.advance [OF race_reachable_store race_step.recheck]) (simp add: race_defs)
  then have "race_reachable 8 (fetch_sub 4 [] (recheck_pending ?r0))"
    by (rule race_reachable.advance [OF _ race_step.subtract]) (simp_all add: race_defs)
  then have "race_reachable 8 (flush_lagged (fetch_sub 4 [] (recheck_pending ?r0)))"
    by (rule race_reachable.advance [OF _ race_step.flush]) (simp add: race_defs)
  then have "race_reachable 8 (check_lagged True (flush_lagged (fetch_sub 4 [] (recheck_pending ?r0))))"
    by (rule race_reachable.advance [OF _ race_step.check]) (simp add: race_defs)
  from no_lost_wakeup [OF this] show ?thesis
    by (simp add: race_defs)
qed

text \<open>The third case is real: with the store visible only after the second load and the writer's check,
  the mailbox drains with nobody told, and recovery waits for the next line or poll.\<close>

lemma lost_wakeup_with_delayed_store:
  "\<exists>r. race_reachable 8 r \<and> rc_enqueuer r = Settled \<and> rc_writer r = None \<and> rc_lagged r \<and>
     rc_mailbox r = [] \<and> \<not> rc_ready r \<and> \<not> rc_notified r"
proof -
  let ?r0 = "store_lagged (load_pending 8 9 (send_line 4 (fetch_add 4 (load_pending 8 4 race_init))))"
  let ?r2 = "fetch_sub 4 [] (recheck_pending ?r0)"
  have "race_reachable 8 (recheck_pending ?r0)"
    by (rule race_reachable.advance [OF race_reachable_store race_step.recheck]) (simp add: race_defs)
  then have "race_reachable 8 ?r2"
    by (rule race_reachable.advance [OF _ race_step.subtract]) (simp_all add: race_defs)
  then have "race_reachable 8 (check_lagged True ?r2)"
    by (rule race_reachable.advance [OF _ race_step.check]) (simp add: race_defs)
  then have "race_reachable 8 (flush_lagged (check_lagged True ?r2))"
    by (rule race_reachable.advance [OF _ race_step.flush]) (simp add: race_defs)
  then show ?thesis
    by (intro exI [of _ "flush_lagged (check_lagged True ?r2)"]) (simp add: race_defs)
qed

text \<open>A store that is visible at once is never overtaken: with the flag flushed before any other access
  follows, one of the two always tells.\<close>

inductive prompt_reachable :: "nat \<Rightarrow> race \<Rightarrow> bool" for bud where
  prompt_start: "prompt_reachable bud race_init"
| prompt_other: "prompt_reachable bud r \<Longrightarrow> \<not> rc_buffer r \<Longrightarrow> race_step bud r r' \<Longrightarrow> prompt_reachable bud r'"
| prompt_flush: "prompt_reachable bud r \<Longrightarrow> rc_buffer r \<Longrightarrow> prompt_reachable bud (flush_lagged r)"

lemma prompt_not_overtaken: "prompt_reachable bud r \<Longrightarrow> \<not> rc_overtaken r"
proof (induction rule: prompt_reachable.induct)
  case (prompt_other r r')
  from prompt_other.hyps(3,2) prompt_other.IH show ?case
    by (cases rule: race_step.cases) (auto simp: race_defs)
qed (simp_all add: race_defs)

end
