(* ===== verification/Viewer_Size.thy ===== *)
theory Viewer_Size
  imports Fanout "HOL-Library.AList" "HOL-Library.Product_Lexorder" "HOL-Library.List_Lexorder"
begin

text \<open>
  Which viewer's grid a session's PTY has (\<^verbatim>\<open>daemon/src/client.rs\<close> and the resize commands of
  \<^verbatim>\<open>connection.rs\<close>): the registered viewers of a session, the election of the one that controls the
  size, the fallback for clients that never register, and the cleanup of a dropped connection. A
  \<^verbatim>\<open>HashMap\<close> is an association list with distinct keys, whose order nothing depends on. The PTY is its
  size as columns and rows; \<open>ok\<close> is whether the kernel and the emulator took a resize. A command asks for
  a size under the lock of the size records and applies it later under the session's lifecycle lock, so
  the commands are steps of a machine that interleaves them.
\<close>

section \<open>Viewers and their election\<close>

datatype viewer_role = Local | Remote

record viewer =
  viewer_id :: ustr
  role :: viewer_role
  vw_cols :: nat
  vw_rows :: nat
  visible :: bool
  vw_generation :: nat

definition eligible :: "viewer \<Rightarrow> bool" where
  "eligible w \<longleftrightarrow> visible w \<and> 0 < vw_cols w \<and> 0 < vw_rows w"

record size_state =
  last_applied :: "nat \<times> nat"
  viewers :: "(nat \<times> viewer) list"
  legacy_sizes :: "(nat \<times> nat \<times> nat) list"
  controller :: "nat option"
  explicit_controller :: "nat option"

definition size_new :: "nat \<times> nat \<Rightarrow> size_state" where
  "size_new spawn_size =
     \<lparr>last_applied = spawn_size, viewers = [], legacy_sizes = [], controller = None, explicit_controller = None\<rparr>"

definition candidate_key :: "nat \<times> viewer \<Rightarrow> nat \<times> byte list \<times> nat" where
  "candidate_key e =
     (case e of (writer, w) \<Rightarrow> (case role w of Local \<Rightarrow> 0 | Remote \<Rightarrow> 1, as_bytes (viewer_id w), writer))"

definition elected_candidate :: "size_state \<Rightarrow> nat option" where
  "elected_candidate st =
     (case sort_key candidate_key (filter (\<lambda>e. eligible (snd e)) (viewers st)) of
        [] \<Rightarrow> None | (writer, _) # _ \<Rightarrow> Some writer)"

definition has_eligible_local :: "size_state \<Rightarrow> bool" where
  "has_eligible_local st = list_ex (\<lambda>e. eligible (snd e) \<and> role (snd e) = Local) (viewers st)"

definition viewer_is :: "(viewer \<Rightarrow> bool) \<Rightarrow> nat option \<Rightarrow> size_state \<Rightarrow> bool" where
  "viewer_is p writer st =
     (case writer of None \<Rightarrow> False | Some i \<Rightarrow> (case map_of (viewers st) i of None \<Rightarrow> False | Some w \<Rightarrow> p w))"

definition elect :: "size_state \<Rightarrow> bool \<times> size_state" where
  "elect st =
     (if viewer_is eligible (explicit_controller st) st
      then (controller st \<noteq> explicit_controller st, st\<lparr>controller := explicit_controller st\<rparr>)
      else
        (let st1 = st\<lparr>explicit_controller := None\<rparr>
         in if viewer_is eligible (controller st1) st1 \<and>
               \<not> (viewer_is (\<lambda>w. role w = Remote) (controller st1) st1 \<and> has_eligible_local st1)
            then (False, st1)
            else (controller st \<noteq> elected_candidate st1, st1\<lparr>controller := elected_candidate st1\<rparr>)))"

definition min_of :: "nat \<Rightarrow> nat list \<Rightarrow> nat" where
  "min_of fallback xs = (case xs of [] \<Rightarrow> fallback | y # ys \<Rightarrow> fold min ys y)"

definition effective_terminal_size :: "(nat \<times> nat \<times> nat) list \<Rightarrow> nat \<times> nat \<Rightarrow> nat \<times> nat" where
  "effective_terminal_size client_sizes fallback =
     (min_of (fst fallback) (map (\<lambda>e. fst (snd e)) client_sizes),
      min_of (snd fallback) (map (\<lambda>e. snd (snd e)) client_sizes))"

definition proposed_size :: "size_state \<Rightarrow> nat \<times> nat" where
  "proposed_size st =
     (case Option.bind (controller st) (map_of (viewers st)) of
        Some w \<Rightarrow> (vw_cols w, vw_rows w)
      | None \<Rightarrow>
          if viewers st = [] then effective_terminal_size (legacy_sizes st) (last_applied st)
          else last_applied st)"

definition pending_resize :: "size_state \<Rightarrow> (nat \<times> nat) option" where
  "pending_resize st = (if proposed_size st \<noteq> last_applied st then Some (proposed_size st) else None)"

definition viewer_register :: "nat \<Rightarrow> viewer \<Rightarrow> size_state \<Rightarrow> (nat \<times> nat) option \<times> size_state" where
  "viewer_register writer w st =
     (if (case map_of (viewers st) writer of None \<Rightarrow> False | Some old \<Rightarrow> vw_generation old > vw_generation w)
      then (None, st)
      else
        (let st1 = snd (elect (st\<lparr>viewers := AList.update writer w (viewers st)\<rparr>))
         in (pending_resize st1, st1)))"

definition viewer_resize :: "nat \<Rightarrow> nat \<Rightarrow> nat \<Rightarrow> size_state \<Rightarrow> (nat \<times> nat) option \<times> size_state" where
  "viewer_resize writer cols rows st =
     (case map_of (viewers st) writer of
        Some w \<Rightarrow>
          (let w' = (if visible w \<and> 0 < cols \<and> 0 < rows then w\<lparr>vw_cols := cols, vw_rows := rows\<rparr> else w);
               st1 = snd (elect (st\<lparr>viewers := AList.update writer w' (viewers st)\<rparr>))
           in (if controller st1 = Some writer then pending_resize st1 else None, st1))
      | None \<Rightarrow>
          (let st1 = st\<lparr>legacy_sizes := AList.update writer (cols, rows) (legacy_sizes st)\<rparr>
           in (pending_resize st1, st1)))"

definition takeover :: "nat \<Rightarrow> size_state \<Rightarrow> (nat \<times> nat) option \<times> size_state" where
  "takeover writer st =
     (if viewer_is eligible (Some writer) st
      then (let st1 = st\<lparr>explicit_controller := Some writer, controller := Some writer\<rparr> in (pending_resize st1, st1))
      else (None, st))"

definition release :: "nat \<Rightarrow> size_state \<Rightarrow> (nat \<times> nat) option \<times> size_state" where
  "release writer st =
     (if explicit_controller st = Some writer
      then (let st1 = snd (elect (st\<lparr>explicit_controller := None, controller := None\<rparr>)) in (pending_resize st1, st1))
      else (None, st))"

definition viewer_remove :: "nat \<Rightarrow> size_state \<Rightarrow> (nat \<times> nat) option \<times> size_state" where
  "viewer_remove writer st =
     (let st1 = st\<lparr>viewers := AList.delete writer (viewers st), legacy_sizes := AList.delete writer (legacy_sizes st)\<rparr>;
          removed_legacy = (map_of (legacy_sizes st) writer \<noteq> None)
      in if controller st1 = Some writer \<or> explicit_controller st1 = Some writer then
           (let st2 = snd (elect (st1\<lparr>controller := None, explicit_controller := None\<rparr>)) in (pending_resize st2, st2))
         else if removed_legacy \<and> viewers st1 = [] then (pending_resize st1, st1)
         else (None, st1))"

definition mark_applied :: "nat \<times> nat \<Rightarrow> size_state \<Rightarrow> size_state" where
  "mark_applied grid st = st\<lparr>last_applied := grid\<rparr>"

section \<open>A dropped connection\<close>

definition cleanup_one :: "nat \<Rightarrow> size_state \<Rightarrow> (nat \<times> nat) option \<times> size_state" where
  "cleanup_one writer st =
     (if map_of (viewers st) writer \<noteq> None \<or> map_of (legacy_sizes st) writer \<noteq> None
      then viewer_remove writer st else (None, st))"

definition retained :: "size_state \<Rightarrow> bool" where
  "retained st \<longleftrightarrow> viewers st \<noteq> [] \<or> legacy_sizes st \<noteq> []"

definition cleanup_sizes ::
  "nat \<Rightarrow> (ustr \<times> size_state) list \<Rightarrow> (ustr \<times> nat \<times> nat) list \<times> (ustr \<times> size_state) list" where
  "cleanup_sizes writer sizes =
     (let removed = map (\<lambda>(sid, st). (sid, cleanup_one writer st)) sizes
      in (List.map_filter (\<lambda>(sid, r, st). map_option (\<lambda>grid. (sid, grid)) r) removed,
          filter (\<lambda>(sid, st). retained st) (map (\<lambda>(sid, r, st). (sid, st)) removed)))"

definition cleanup_terminal_clients :: "nat \<Rightarrow> (ustr \<times> nat list) list \<Rightarrow> (ustr \<times> nat list) list" where
  "cleanup_terminal_clients writer clients =
     filter (\<lambda>(sid, ids). ids \<noteq> []) (map (\<lambda>(sid, ids). (sid, removeAll writer ids)) clients)"

definition cleanup_client_writer_registries ::
  "nat \<Rightarrow> (ustr \<times> size_state) list \<Rightarrow> (ustr \<times> nat list) list \<Rightarrow> (ustr \<times> fanout_state) list
     \<Rightarrow> (ustr \<times> nat \<times> nat) list \<times> (ustr \<times> size_state) list \<times> (ustr \<times> nat list) list \<times> (ustr \<times> fanout_state) list" where
  "cleanup_client_writer_registries writer sizes clients fanouts =
     (case cleanup_sizes writer sizes of
        (remaining, sizes') \<Rightarrow>
          (remaining, sizes', cleanup_terminal_clients writer clients,
           map (\<lambda>(sid, st). (sid, remove_writer_everywhere writer st)) fanouts))"

definition register_terminal_emulator_client :: "ustr \<Rightarrow> nat \<Rightarrow> (ustr \<times> nat list) list \<Rightarrow> (ustr \<times> nat list) list" where
  "register_terminal_emulator_client sid writer clients =
     AList.update sid (List.insert writer (case map_of clients sid of None \<Rightarrow> [] | Some ids \<Rightarrow> ids)) clients"

definition unregister_terminal_emulator_client :: "ustr \<Rightarrow> nat \<Rightarrow> (ustr \<times> nat list) list \<Rightarrow> (ustr \<times> nat list) list" where
  "unregister_terminal_emulator_client sid writer clients =
     (case map_of clients sid of
        None \<Rightarrow> clients
      | Some ids \<Rightarrow>
          (let ids' = removeAll writer ids
           in if ids' = [] then AList.delete sid clients else AList.update sid ids' clients))"

section \<open>The commands of one session\<close>

text \<open>
  The life of one session's size: its record in \<^verbatim>\<open>session_sizes\<close>, its PTY (\<open>None\<close> while the manager has no
  such session), what the holder of the lifecycle lock is doing with the size it computed, and the sizes
  computed by removals that still wait for that lock. Three ghosts speak of the time since the record was
  made: \<open>sz_known\<close>, that it was made with the PTY's own grid; \<open>sz_taken\<close>, that every resize tried was
  taken; \<open>sz_raced\<close>, that the controlling viewer or its grid changed while an earlier size was still to
  be applied.
\<close>

datatype lock_phase = Free | Wanting "nat \<times> nat" | Took "nat \<times> nat"

record size_run =
  sz_entry :: "size_state option"
  sz_pty :: "(nat \<times> nat) option"
  sz_phase :: lock_phase
  sz_waiting :: "(nat \<times> nat) list"
  sz_known :: bool
  sz_taken :: bool
  sz_raced :: bool

definition outstanding :: "size_run \<Rightarrow> (nat \<times> nat) list" where
  "outstanding r = (case sz_phase r of Free \<Rightarrow> [] | Wanting g \<Rightarrow> [g] | Took g \<Rightarrow> [g]) @ sz_waiting r"

definition controlling :: "size_state \<Rightarrow> viewer option" where
  "controlling st = Option.bind (controller st) (map_of (viewers st))"

text \<open>\<^verbatim>\<open>entry(..).or_insert_with(|| SessionSizeState::new(seed))\<close>.\<close>

definition or_insert :: "nat \<times> nat \<Rightarrow> size_run \<Rightarrow> size_run" where
  "or_insert seed r =
     (case sz_entry r of
        Some _ \<Rightarrow> r
      | None \<Rightarrow> r\<lparr>sz_entry := Some (size_new seed), sz_known := (sz_pty r = Some seed), sz_taken := True,
                  sz_raced := (sz_waiting r \<noteq> [])\<rparr>)"

definition store_entry :: "size_state \<Rightarrow> size_state \<Rightarrow> size_run \<Rightarrow> size_run" where
  "store_entry st st' r =
     r\<lparr>sz_entry := Some st',
       sz_raced := sz_raced r \<or> (outstanding r \<noteq> [] \<and> controlling st' \<noteq> controlling st)\<rparr>"

text \<open>An operation on the record by the holder of the lifecycle lock, and one without that lock.\<close>

definition locked :: "(size_state \<Rightarrow> (nat \<times> nat) option \<times> size_state) \<Rightarrow> size_run \<Rightarrow> size_run" where
  "locked f r =
     (case sz_entry r of
        None \<Rightarrow> r
      | Some st \<Rightarrow>
          (case f st of (resize, st') \<Rightarrow>
             (store_entry st st' r)\<lparr>sz_phase := (case resize of None \<Rightarrow> Free | Some g \<Rightarrow> Wanting g)\<rparr>))"

definition unlocked :: "(size_state \<Rightarrow> (nat \<times> nat) option \<times> size_state) \<Rightarrow> size_run \<Rightarrow> size_run" where
  "unlocked f r =
     (case sz_entry r of
        None \<Rightarrow> r
      | Some st \<Rightarrow>
          (case f st of (resize, st') \<Rightarrow>
             (store_entry st st' r)\<lparr>sz_waiting := sz_waiting r @ (case resize of None \<Rightarrow> [] | Some g \<Rightarrow> [g])\<rparr>))"

text \<open>\<^verbatim>\<open>Resize\<close> and \<^verbatim>\<open>ResizeNoReply\<close> up to the wanted size; the record is made before the session is looked up.\<close>

definition cmd_resize :: "nat \<Rightarrow> nat \<Rightarrow> nat \<Rightarrow> size_run \<Rightarrow> size_run" where
  "cmd_resize writer cols rows r = locked (viewer_resize writer cols rows) (or_insert (cols, rows) r)"

text \<open>\<^verbatim>\<open>rows_cols\<close> answers the PTY's rows first.\<close>

definition rows_cols :: "nat \<times> nat \<Rightarrow> nat \<times> nat" where
  "rows_cols pty = (snd pty, fst pty)"

definition cmd_register_viewer :: "nat \<Rightarrow> viewer \<Rightarrow> size_run \<Rightarrow> size_run" where
  "cmd_register_viewer writer w r =
     (case sz_pty r of
        None \<Rightarrow> r
      | Some pty \<Rightarrow> locked (viewer_register writer w) (or_insert (rows_cols pty) r))"

definition cmd_takeover :: "nat \<Rightarrow> size_run \<Rightarrow> size_run" where
  "cmd_takeover writer r = locked (takeover writer) r"

definition cmd_release :: "nat \<Rightarrow> size_run \<Rightarrow> size_run" where
  "cmd_release writer r = locked (release writer) r"

text \<open>A detach removes its viewer before it waits for the lifecycle lock, and so does a dropped connection,
  which also drops the record when nobody is left in it.\<close>

definition cmd_detach :: "nat \<Rightarrow> size_run \<Rightarrow> size_run" where
  "cmd_detach writer r = (if sz_pty r = None then r else unlocked (viewer_remove writer) r)"

definition drop_connection :: "nat \<Rightarrow> size_run \<Rightarrow> size_run" where
  "drop_connection writer r =
     (let r' = unlocked (cleanup_one writer) r
      in r'\<lparr>sz_entry := (case sz_entry r' of
             None \<Rightarrow> None | Some st \<Rightarrow> if retained st then Some st else None)\<rparr>)"

text \<open>A removal gets the lifecycle lock; the holder resizes the PTY; and it records the size it applied.\<close>

definition acquire :: "nat \<times> nat \<Rightarrow> size_run \<Rightarrow> size_run" where
  "acquire g r = r\<lparr>sz_phase := Wanting g, sz_waiting := remove1 g (sz_waiting r)\<rparr>"

definition apply_resize :: "bool \<Rightarrow> nat \<times> nat \<Rightarrow> size_run \<Rightarrow> size_run" where
  "apply_resize ok g r =
     (if ok \<and> sz_pty r \<noteq> None then r\<lparr>sz_pty := Some g, sz_phase := Took g\<rparr>
      else r\<lparr>sz_phase := Free, sz_taken := False\<rparr>)"

definition record_applied :: "nat \<times> nat \<Rightarrow> size_run \<Rightarrow> size_run" where
  "record_applied g r = r\<lparr>sz_entry := map_option (mark_applied g) (sz_entry r), sz_phase := Free\<rparr>"

text \<open>The session's spawn, which keeps a record that is already there, its end, and the removal of its
  record by a kill, an exit or a handoff.\<close>

definition spawn_sized :: "nat \<times> nat \<Rightarrow> size_run \<Rightarrow> size_run" where
  "spawn_sized g r =
     (let r' = r\<lparr>sz_pty := Some g\<rparr>
      in if sz_entry r = None then or_insert g r' else r'\<lparr>sz_known := False\<rparr>)"

definition end_session :: "size_run \<Rightarrow> size_run" where
  "end_session r = r\<lparr>sz_pty := None\<rparr>"

definition forget_sizes :: "size_run \<Rightarrow> size_run" where
  "forget_sizes r = r\<lparr>sz_entry := None\<rparr>"

definition size_start :: size_run where
  "size_start =
     \<lparr>sz_entry = None, sz_pty = None, sz_phase = Free, sz_waiting = [], sz_known = False, sz_taken = True,
      sz_raced = False\<rparr>"

inductive size_step :: "size_run \<Rightarrow> size_run \<Rightarrow> bool" where
  do_spawn: "sz_phase r = Free \<Longrightarrow> sz_pty r = None \<Longrightarrow> size_step r (spawn_sized g r)"
| do_resize: "sz_phase r = Free \<Longrightarrow> size_step r (cmd_resize writer cols rows r)"
| do_register: "sz_phase r = Free \<Longrightarrow> size_step r (cmd_register_viewer writer w r)"
| do_takeover: "sz_phase r = Free \<Longrightarrow> size_step r (cmd_takeover writer r)"
| do_release: "sz_phase r = Free \<Longrightarrow> size_step r (cmd_release writer r)"
| do_detach: "size_step r (cmd_detach writer r)"
| do_drop: "size_step r (drop_connection writer r)"
| do_acquire: "sz_phase r = Free \<Longrightarrow> g \<in> set (sz_waiting r) \<Longrightarrow> size_step r (acquire g r)"
| do_apply: "sz_phase r = Wanting g \<Longrightarrow> size_step r (apply_resize ok g r)"
| do_record: "sz_phase r = Took g \<Longrightarrow> size_step r (record_applied g r)"
| do_end: "size_step r (end_session r)"
| do_forget: "size_step r (forget_sizes r)"

inductive size_reachable :: "size_run \<Rightarrow> bool" where
  size_begin: "size_reachable size_start"
| size_advance: "size_reachable r \<Longrightarrow> size_step r r' \<Longrightarrow> size_reachable r'"

section \<open>The election\<close>

lemma sort_key_hd: "sort_key k xs = y # ys \<Longrightarrow> y \<in> set xs \<and> (\<forall>x \<in> set xs. k y \<le> k x)"
proof -
  assume s: "sort_key k xs = y # ys"
  have "set (y # ys) = set xs"
    using set_sort [of k xs] by (simp add: s)
  moreover have "sorted (map k (y # ys))"
    using sorted_sort_key [of k xs] by (simp add: s)
  ultimately show ?thesis
    by auto
qed

lemma elected_Some:
  assumes "elected_candidate st = Some i" and "distinct (map fst (viewers st))"
  obtains w where "map_of (viewers st) i = Some w" and "eligible w"
    and "role w = Remote \<Longrightarrow> \<not> has_eligible_local st"
proof -
  let ?es = "filter (\<lambda>e. eligible (snd e)) (viewers st)"
  obtain w rest where hd: "sort_key candidate_key ?es = (i, w) # rest"
    using assms(1) by (auto simp: elected_candidate_def split: list.splits prod.splits)
  note least = sort_key_hd [OF hd]
  then have "(i, w) \<in> set (viewers st)" "eligible w"
    by auto
  moreover have "\<not> has_eligible_local st" if "role w = Remote"
  proof
    assume "has_eligible_local st"
    then obtain j u where "(j, u) \<in> set ?es" "role u = Local"
      by (auto simp: has_eligible_local_def list_ex_iff)
    with least that show False
      by (force simp: candidate_key_def)
  qed
  ultimately show thesis
    using assms(2) that by (simp add: map_of_eq_Some_iff)
qed

lemma elected_None: "elected_candidate st = None \<longleftrightarrow> \<not> list_ex (\<lambda>e. eligible (snd e)) (viewers st)"
proof -
  let ?es = "filter (\<lambda>e. eligible (snd e)) (viewers st)"
  have "sort_key candidate_key ?es = [] \<longleftrightarrow> ?es = []"
    by (metis length_0_conv length_sort)
  then show ?thesis
    by (cases "sort_key candidate_key ?es") (auto simp: elected_candidate_def filter_empty_conv list_ex_iff)
qed

definition size_inv :: "size_state \<Rightarrow> bool" where
  "size_inv st \<longleftrightarrow>
     distinct (map fst (viewers st)) \<and>
     (explicit_controller st \<noteq> None \<longrightarrow> controller st = explicit_controller st) \<and>
     (controller st = None \<longrightarrow> \<not> list_ex (\<lambda>e. eligible (snd e)) (viewers st)) \<and>
     (controller st \<noteq> None \<longrightarrow> viewer_is eligible (controller st) st) \<and>
     (explicit_controller st = None \<longrightarrow> viewer_is (\<lambda>w. role w = Remote) (controller st) st \<longrightarrow>
        \<not> has_eligible_local st)"

lemma elect_fields [simp]:
  "viewers (snd (elect st)) = viewers st" "last_applied (snd (elect st)) = last_applied st"
  "legacy_sizes (snd (elect st)) = legacy_sizes st"
  by (simp_all add: elect_def Let_def)

lemma viewer_is_fields [simp]:
  "viewer_is p i (st\<lparr>controller := c\<rparr>) = viewer_is p i st" "viewer_is p i (st\<lparr>explicit_controller := c\<rparr>) = viewer_is p i st"
  "viewer_is p i (st\<lparr>last_applied := g\<rparr>) = viewer_is p i st" "viewer_is p i (st\<lparr>legacy_sizes := l\<rparr>) = viewer_is p i st"
  "viewer_is p None st = False"
  by (simp_all add: viewer_is_def split: option.split)

lemma has_eligible_local_fields [simp]:
  "has_eligible_local (st\<lparr>controller := c\<rparr>) = has_eligible_local st"
  "has_eligible_local (st\<lparr>explicit_controller := c\<rparr>) = has_eligible_local st"
  "has_eligible_local (st\<lparr>last_applied := g\<rparr>) = has_eligible_local st"
  "has_eligible_local (st\<lparr>legacy_sizes := l\<rparr>) = has_eligible_local st"
  by (simp_all add: has_eligible_local_def)

lemma elected_fields [simp]:
  "elected_candidate (st\<lparr>controller := c\<rparr>) = elected_candidate st"
  "elected_candidate (st\<lparr>explicit_controller := c\<rparr>) = elected_candidate st"
  by (simp_all add: elected_candidate_def)

lemma size_inv_last_applied [simp]: "size_inv (st\<lparr>last_applied := g\<rparr>) = size_inv st"
  and size_inv_legacy [simp]: "size_inv (st\<lparr>legacy_sizes := l\<rparr>) = size_inv st"
  by (simp_all add: size_inv_def)

lemma elect_inv:
  assumes "distinct (map fst (viewers st))"
  shows "size_inv (snd (elect st))"
proof (cases "elected_candidate st")
  case None
  then have "\<not> viewer_is eligible i st" for i
    by (auto simp: elected_None list_ex_iff viewer_is_def dest!: map_of_SomeD split: option.split)
  with assms None None [unfolded elected_None] show ?thesis
    by (simp add: size_inv_def elect_def Let_def)
next
  case (Some i)
  obtain w where "map_of (viewers st) i = Some w" "eligible w" "role w = Remote \<Longrightarrow> \<not> has_eligible_local st"
    using Some assms by (rule elected_Some) blast
  then have "viewer_is eligible (Some i) st"
    "viewer_is (\<lambda>w. role w = Remote) (Some i) st \<Longrightarrow> \<not> has_eligible_local st"
    by (simp_all add: viewer_is_def)
  with assms Some show ?thesis
    by (auto simp: size_inv_def elect_def Let_def)
qed

lemma viewer_is_delete: "i \<noteq> Some writer \<Longrightarrow> viewer_is p i (st\<lparr>viewers := AList.delete writer (viewers st)\<rparr>) = viewer_is p i st"
  by (auto simp: viewer_is_def delete_conv' restrict_map_def split: option.split)

lemma size_inv_delete:
  assumes "size_inv st" and "controller st \<noteq> Some writer"
  shows "size_inv (st\<lparr>viewers := AList.delete writer (viewers st)\<rparr>)"
proof -
  have "set (AList.delete writer (viewers st)) \<subseteq> set (viewers st)"
    by (simp add: AList.delete_eq)
  moreover have "distinct (map fst (AList.delete writer (viewers st)))"
    using assms(1) by (simp add: size_inv_def distinct_delete)
  ultimately show ?thesis
    using assms by (auto simp: size_inv_def viewer_is_delete list_ex_iff has_eligible_local_def)
qed

lemma viewer_ops_inv:
  assumes "size_inv st"
  shows "size_inv (snd (viewer_register writer w st))"
    and "size_inv (snd (viewer_resize writer cols rows st))"
    and "size_inv (snd (takeover writer st))"
    and "size_inv (snd (release writer st))"
    and "size_inv (snd (viewer_remove writer st))"
proof -
  have d: "distinct (map fst (viewers st))"
    using assms by (simp add: size_inv_def)
  then show "size_inv (snd (viewer_register writer w st))"
    using assms by (auto simp: viewer_register_def Let_def distinct_update intro!: elect_inv)
  show "size_inv (snd (viewer_resize writer cols rows st))"
    using assms d by (auto simp: viewer_resize_def Let_def distinct_update intro!: elect_inv split: option.split)
  show "size_inv (snd (takeover writer st))"
    using assms by (auto simp: takeover_def Let_def size_inv_def)
  show "size_inv (snd (release writer st))"
    using assms d by (auto simp: release_def Let_def intro!: elect_inv)
  have "size_inv (snd (elect (st\<lparr>viewers := AList.delete writer (viewers st),
      legacy_sizes := AList.delete writer (legacy_sizes st), controller := None, explicit_controller := None\<rparr>)))"
    using d by (intro elect_inv) (simp add: distinct_delete)
  moreover have "size_inv (st\<lparr>viewers := AList.delete writer (viewers st),
      legacy_sizes := AList.delete writer (legacy_sizes st)\<rparr>)" if "controller st \<noteq> Some writer"
    using size_inv_delete [OF assms that] by simp
  ultimately show "size_inv (snd (viewer_remove writer st))"
    by (auto simp: viewer_remove_def Let_def)
qed

section \<open>The PTY's grid\<close>

text \<open>A grid is the controlling viewer's when there is one.\<close>

definition controller_grid :: "size_state \<Rightarrow> nat \<times> nat \<Rightarrow> bool" where
  "controller_grid st g \<longleftrightarrow> (\<forall>w. controlling st = Some w \<longrightarrow> g = (vw_cols w, vw_rows w))"

lemma controlling_fields [simp]:
  "controlling (st\<lparr>last_applied := g\<rparr>) = controlling st"
  "controlling (st\<lparr>legacy_sizes := l\<rparr>) = controlling st"
  "controlling (size_new seed) = None"
  by (simp_all add: controlling_def size_new_def)

lemma controller_grid_mark [simp]: "controller_grid (mark_applied g st) p = controller_grid st p"
  by (simp add: controller_grid_def mark_applied_def)

lemma controller_grid_same: "controlling st' = controlling st \<Longrightarrow> controller_grid st' p = controller_grid st p"
  by (simp add: controller_grid_def)

lemma pending_grid:
  "pending_resize st = Some g \<Longrightarrow> controller_grid st g"
  "pending_resize st = None \<Longrightarrow> controller_grid st (last_applied st)"
  by (auto simp: pending_resize_def proposed_size_def controller_grid_def controlling_def split: if_splits option.splits)

lemma size_new_inv [simp]: "size_inv (size_new seed)" "last_applied (size_new seed) = seed"
  by (simp_all add: size_inv_def size_new_def)

lemma sole_local_elected:
  assumes "distinct (map fst (viewers st))" and "has_eligible_local st"
    and "\<And>i u. map_of (viewers st) i = Some u \<Longrightarrow> eligible u \<Longrightarrow> role u = Local \<Longrightarrow> i = writer"
  shows "elected_candidate st = Some writer"
proof -
  obtain i where i: "elected_candidate st = Some i"
    using assms(2) by (cases "elected_candidate st") (auto simp: elected_None has_eligible_local_def list_ex_iff)
  then obtain u where "map_of (viewers st) i = Some u" "eligible u" "role u = Remote \<Longrightarrow> \<not> has_eligible_local st"
    using assms(1) by (rule elected_Some) blast
  with assms(2,3) i show ?thesis
    by (cases "role u") auto
qed

text \<open>A follower's resize leaves the controller and its grid alone.\<close>

lemma follower_resize:
  assumes inv: "size_inv st" and writer: "map_of (viewers st) writer = Some w"
    and w': "w' = (if visible w \<and> 0 < cols \<and> 0 < rows then w\<lparr>vw_cols := cols, vw_rows := rows\<rparr> else w)"
    and st1: "st1 = snd (elect (st\<lparr>viewers := AList.update writer w' (viewers st)\<rparr>))"
    and follower: "controller st1 \<noteq> Some writer"
  shows "controlling st1 = controlling st"
proof -
  let ?st = "st\<lparr>viewers := AList.update writer w' (viewers st)\<rparr>"
  have keep: "viewer_is eligible i ?st" if "viewer_is eligible i st" for i
    using that writer by (auto simp: viewer_is_def update_conv' w' eligible_def split: option.splits)
  show ?thesis
  proof (cases "controller st")
    case None
    have "\<not> list_ex (\<lambda>e. eligible (snd e)) (viewers st)"
      using inv None by (simp add: size_inv_def)
    then have other: "i = writer" if "map_of (viewers ?st) i = Some u" "eligible u" for i u
      using that by (auto simp: update_conv' list_ex_iff dest!: map_of_SomeD split: if_splits)
    have "controller st1 = None"
    proof (rule ccontr)
      assume "controller st1 \<noteq> None"
      moreover have "size_inv st1"
        unfolding st1 using inv by (intro elect_inv) (simp add: size_inv_def distinct_update)
      ultimately obtain i u where "controller st1 = Some i" "map_of (viewers st1) i = Some u" "eligible u"
        by (auto simp: size_inv_def viewer_is_def split: option.splits)
      with other [of i u] follower show False
        by (simp add: st1)
    qed
    with None show ?thesis by (simp add: controlling_def)
  next
    case (Some c)
    then have c: "viewer_is eligible (Some c) ?st"
      using inv by (intro keep) (simp add: size_inv_def)
    have "controller st1 = Some c"
    proof (cases "explicit_controller st")
      case None
      show ?thesis
      proof (cases "viewer_is (\<lambda>w. role w = Remote) (Some c) ?st \<and> has_eligible_local ?st")
        case True
        then have "viewer_is (\<lambda>w. role w = Remote) (Some c) st"
          using writer by (auto simp: viewer_is_def update_conv' w' split: option.splits if_splits)
        with inv Some None have "\<not> has_eligible_local st"
          by (simp add: size_inv_def)
        then have other: "i = writer" if "map_of (viewers ?st) i = Some u" "eligible u" "role u = Local" for i u
          using that by (auto simp: update_conv' has_eligible_local_def list_ex_iff dest!: map_of_SomeD split: if_splits)
        have "controller st1 = elected_candidate ?st"
          using True None Some by (simp add: st1 elect_def Let_def)
        moreover have "elected_candidate ?st = Some writer"
          using inv True other by (intro sole_local_elected) (auto simp: size_inv_def distinct_update)
        ultimately show ?thesis
          using follower by simp
      next
        case False
        with None Some c show ?thesis
          by (simp add: st1 elect_def Let_def)
      qed
    next
      case (Some e)
      with inv \<open>controller st = Some c\<close> have "explicit_controller st = Some c"
        by (simp add: size_inv_def)
      with c show ?thesis
        by (simp add: st1 elect_def)
    qed
    with follower Some show ?thesis
      by (auto simp: st1 controlling_def update_conv')
  qed
qed

lemma viewer_resize_effect:
  assumes "size_inv st" and "viewer_resize writer cols rows st = r"
  shows "fst r = pending_resize (snd r) \<or>
      fst r = None \<and> controlling (snd r) = controlling st"
    and "last_applied (snd r) = last_applied st"
proof -
  show "last_applied (snd r) = last_applied st"
    using assms(2) by (auto simp: viewer_resize_def Let_def split: option.splits)
  show "fst r = pending_resize (snd r) \<or>
      fst r = None \<and> controlling (snd r) = controlling st"
  proof (cases "map_of (viewers st) writer")
    case None
    with assms(2) show ?thesis
      by (auto simp: viewer_resize_def Let_def)
  next
    case (Some w)
    define w' where "w' = (if visible w \<and> 0 < cols \<and> 0 < rows then w\<lparr>vw_cols := cols, vw_rows := rows\<rparr> else w)"
    define st1 where "st1 = snd (elect (st\<lparr>viewers := AList.update writer w' (viewers st)\<rparr>))"
    have "r = (if controller st1 = Some writer then pending_resize st1 else None, st1)"
      using assms(2) unfolding viewer_resize_def Some option.case Let_def st1_def w'_def by (rule sym)
    with follower_resize [OF assms(1) Some w'_def st1_def] show ?thesis
      by simp
  qed
qed

lemma viewer_remove_effect:
  assumes "size_inv st" and "viewer_remove writer st = r"
  shows "fst r = pending_resize (snd r) \<or>
      fst r = None \<and> controlling (snd r) = controlling st"
    and "last_applied (snd r) = last_applied st"
  using assms(2)
  by (auto simp: viewer_remove_def Let_def controlling_def delete_conv' restrict_map_def split: option.splits if_splits Option.bind_splits)

section \<open>The contract of an operation on the record\<close>

text \<open>
  What a run keeps: the record's own invariant; that a record made with the PTY's grid knows the PTY's
  grid, except between a resize and its record; and, while every resize was taken and none raced, that
  every size still to be applied is the controlling viewer's, or the PTY has it.
\<close>

definition agreed :: "size_state \<Rightarrow> size_run \<Rightarrow> bool" where
  "agreed st r \<longleftrightarrow>
     (\<forall>g \<in> set (outstanding r). controller_grid st g) \<and>
     (outstanding r = [] \<longrightarrow> (\<forall>p. sz_pty r = Some p \<longrightarrow> controller_grid st p))"

definition size_run_inv :: "size_run \<Rightarrow> bool" where
  "size_run_inv r \<longleftrightarrow>
     (\<forall>g. sz_phase r = Took g \<longrightarrow> sz_pty r \<in> {None, Some g}) \<and>
     (\<forall>st. sz_entry r = Some st \<longrightarrow>
        size_inv st \<and>
        (sz_known r \<longrightarrow> (\<forall>g. sz_phase r \<noteq> Took g) \<longrightarrow> sz_pty r \<in> {None, Some (last_applied st)}) \<and>
        (sz_known r \<longrightarrow> sz_taken r \<longrightarrow> \<not> sz_raced r \<longrightarrow> agreed st r))"

text \<open>An operation asks for the pending size, or for nothing while it leaves the controlling viewer alone.\<close>

locale size_operation =
  fixes f :: "size_state \<Rightarrow> (nat \<times> nat) option \<times> size_state"
  assumes keeps_inv: "size_inv st \<Longrightarrow> size_inv (snd (f st))"
    and keeps_applied: "size_inv st \<Longrightarrow> last_applied (snd (f st)) = last_applied st"
    and asks: "size_inv st \<Longrightarrow>
      fst (f st) = pending_resize (snd (f st)) \<or> fst (f st) = None \<and> controlling (snd (f st)) = controlling st"
begin

lemma asked_grid:
  assumes "size_inv st" and "fst (f st) = Some g"
  shows "controller_grid (snd (f st)) g"
  using asks [OF assms(1)] assms(2) by (auto intro: pending_grid(1))

lemma unasked_grid:
  assumes "size_inv st" and "fst (f st) = None" and "controller_grid st (last_applied st)"
  shows "controller_grid (snd (f st)) (last_applied st)"
  using asks [OF assms(1)]
proof
  assume "fst (f st) = pending_resize (snd (f st))"
  with assms(2) have "pending_resize (snd (f st)) = None" by simp
  from pending_grid(2) [OF this] keeps_applied [OF assms(1)] show ?thesis by simp
next
  assume "fst (f st) = None \<and> controlling (snd (f st)) = controlling st"
  with assms(3) show ?thesis by (simp add: controller_grid_def)
qed

lemma agreed_after:
  assumes st: "size_inv st" and f: "f st = (resize, st')" and old: "agreed st r"
    and calm: "outstanding r = [] \<and> (\<forall>p. sz_pty r = Some p \<longrightarrow> last_applied st = p) \<or>
      outstanding r \<noteq> [] \<and> controlling st' = controlling st"
    and r': "sz_pty r' = sz_pty r" "set (outstanding r') = set (outstanding r) \<union> set_option resize"
  shows "agreed st' r'"
proof -
  have ask: "controller_grid st' g" if "resize = Some g" for g
    using asked_grid [OF st, of g] f that by simp
  from calm show ?thesis
  proof
    assume empty: "outstanding r = [] \<and> (\<forall>p. sz_pty r = Some p \<longrightarrow> last_applied st = p)"
    then have "controller_grid st' p" if "resize = None" "sz_pty r = Some p" for p
      using unasked_grid [OF st] f old that by (simp add: agreed_def)
    moreover have "set (outstanding r') = set_option resize"
      using empty r' by simp
    ultimately show ?thesis
      using ask r'(1) by (cases resize) (auto simp: agreed_def)
  next
    assume same: "outstanding r \<noteq> [] \<and> controlling st' = controlling st"
    then have "\<forall>g \<in> set (outstanding r). controller_grid st' g"
      using old by (simp add: agreed_def controller_grid_same [of st' st])
    moreover have "outstanding r' \<noteq> []"
      using same r' by force
    ultimately show ?thesis
      using ask r' by (auto simp: agreed_def)
  qed
qed

lemma locked_inv:
  assumes inv: "size_run_inv r" and lock: "sz_phase r = Free"
  shows "size_run_inv (locked f r)"
proof (cases "sz_entry r")
  case None
  with inv show ?thesis by (simp add: locked_def)
next
  case (Some st)
  with inv have st: "size_inv st" by (simp add: size_run_inv_def)
  obtain resize st' where f: "f st = (resize, st')" by fastforce
  let ?r = "locked f r"
  have r': "sz_entry ?r = Some st'" "sz_pty ?r = sz_pty r" "sz_known ?r = sz_known r"
    "sz_taken ?r = sz_taken r" "sz_raced ?r = (sz_raced r \<or> outstanding r \<noteq> [] \<and> controlling st' \<noteq> controlling st)"
    "\<And>g. sz_phase ?r \<noteq> Took g" "set (outstanding ?r) = set (outstanding r) \<union> set_option resize"
    using Some f lock by (simp_all add: locked_def store_entry_def outstanding_def split: option.split)
  have "agreed st' ?r" if "sz_known r" "sz_taken r" "\<not> sz_raced ?r"
    using inv Some lock that r'(5)
    by (intro agreed_after [OF st f _ _ r'(2,7)]) (auto simp: size_run_inv_def)
  with inv Some f lock keeps_inv [OF st] keeps_applied [OF st] show ?thesis
    by (simp add: size_run_inv_def r')
qed

lemma unlocked_inv:
  assumes inv: "size_run_inv r"
  shows "size_run_inv (unlocked f r)"
proof (cases "sz_entry r")
  case None
  with inv show ?thesis by (simp add: unlocked_def)
next
  case (Some st)
  with inv have st: "size_inv st" by (simp add: size_run_inv_def)
  obtain resize st' where f: "f st = (resize, st')" by fastforce
  let ?r = "unlocked f r"
  have r': "sz_entry ?r = Some st'" "sz_pty ?r = sz_pty r" "sz_known ?r = sz_known r"
    "sz_taken ?r = sz_taken r" "sz_raced ?r = (sz_raced r \<or> outstanding r \<noteq> [] \<and> controlling st' \<noteq> controlling st)"
    "sz_phase ?r = sz_phase r" "set (outstanding ?r) = set (outstanding r) \<union> set_option resize"
    using Some f by (cases resize; simp add: unlocked_def store_entry_def outstanding_def)+
  have quiet: "sz_phase r \<noteq> Took g" if "outstanding r = []" for g
    using that by (auto simp: outstanding_def)
  have known: "last_applied st = p" if "outstanding r = []" "sz_known r" "sz_pty r = Some p" for p
    using inv Some quiet [OF that(1)] that by (simp add: size_run_inv_def)
  have "agreed st' ?r" if "sz_known r" "sz_taken r" "\<not> sz_raced ?r"
  proof (rule agreed_after [OF st f _ _ r'(2,7)])
    show "agreed st r"
      using inv Some that r'(5) by (simp add: size_run_inv_def)
    show "outstanding r = [] \<and> (\<forall>p. sz_pty r = Some p \<longrightarrow> last_applied st = p) \<or>
        outstanding r \<noteq> [] \<and> controlling st' = controlling st"
      using known that r'(5) by auto
  qed
  with inv Some f keeps_inv [OF st] keeps_applied [OF st] show ?thesis
    by (simp add: size_run_inv_def r')
qed

end

interpretation register_op: size_operation "viewer_register writer w" for writer w
  by unfold_locales (simp_all add: viewer_ops_inv, auto simp: viewer_register_def Let_def)

interpretation resize_op: size_operation "viewer_resize writer cols rows" for writer cols rows
  by unfold_locales (simp_all add: viewer_ops_inv viewer_resize_effect)

interpretation takeover_op: size_operation "takeover writer" for writer
  by unfold_locales (simp_all add: viewer_ops_inv, auto simp: takeover_def Let_def)

interpretation release_op: size_operation "release writer" for writer
  by unfold_locales (simp_all add: viewer_ops_inv, auto simp: release_def Let_def)

interpretation remove_op: size_operation "viewer_remove writer" for writer
  by unfold_locales (simp_all add: viewer_ops_inv viewer_remove_effect)

interpretation cleanup_op: size_operation "cleanup_one writer" for writer
  by unfold_locales (simp_all add: cleanup_one_def viewer_ops_inv viewer_remove_effect)

lemma or_insert_inv:
  "size_run_inv r \<Longrightarrow> sz_phase r = Free \<Longrightarrow> size_run_inv (or_insert seed r) \<and> sz_phase (or_insert seed r) = Free"
  by (auto simp: size_run_inv_def agreed_def or_insert_def outstanding_def controller_grid_def split: option.split)

lemma apply_inv: "size_run_inv r \<Longrightarrow> sz_phase r = Wanting g \<Longrightarrow> size_run_inv (apply_resize ok g r)"
  by (cases g) (auto simp: size_run_inv_def agreed_def apply_resize_def outstanding_def)

lemma record_inv: "size_run_inv r \<Longrightarrow> sz_phase r = Took g \<Longrightarrow> size_run_inv (record_applied g r)"
  by (auto simp: size_run_inv_def agreed_def record_applied_def outstanding_def) (auto simp: mark_applied_def)

lemma acquire_inv:
  "size_run_inv r \<Longrightarrow> sz_phase r = Free \<Longrightarrow> g \<in> set (sz_waiting r) \<Longrightarrow> size_run_inv (acquire g r)"
  using set_remove1_subset [of g "sz_waiting r"] by (auto simp: size_run_inv_def agreed_def acquire_def outstanding_def)

lemma size_step_inv: "size_step r r' \<Longrightarrow> size_run_inv r \<Longrightarrow> size_run_inv r'"
proof (induction rule: size_step.induct)
  case (do_spawn r g)
  then have "size_run_inv (r\<lparr>sz_pty := Some g, sz_known := False\<rparr>)" and
    "sz_entry r = None \<Longrightarrow> size_run_inv (r\<lparr>sz_pty := Some g\<rparr>)"
    by (auto simp: size_run_inv_def)
  with do_spawn show ?case
    by (auto simp: spawn_sized_def Let_def or_insert_inv)
next
  case (do_drop r writer)
  then have "size_run_inv (unlocked (cleanup_one writer) r)"
    by (simp add: cleanup_op.unlocked_inv)
  then show ?case
    by (auto simp: drop_connection_def Let_def size_run_inv_def agreed_def outstanding_def split: option.split if_splits)
next
  case (do_end r)
  then show ?case by (auto simp: end_session_def size_run_inv_def agreed_def outstanding_def)
next
  case (do_forget r)
  then show ?case by (auto simp: forget_sizes_def size_run_inv_def)
qed (auto simp: cmd_resize_def cmd_register_viewer_def cmd_takeover_def cmd_release_def cmd_detach_def
    or_insert_inv apply_inv record_inv acquire_inv resize_op.locked_inv register_op.locked_inv
    takeover_op.locked_inv release_op.locked_inv remove_op.unlocked_inv split: option.split)

lemma size_reachable_inv: "size_reachable r \<Longrightarrow> size_run_inv r"
proof (induction rule: size_reachable.induct)
  case size_begin
  then show ?case by (simp add: size_run_inv_def size_start_def)
qed (blast intro: size_step_inv)

section \<open>Where the PTY and the record part\<close>

text \<open>
  The cleanup forgets a session no client is left on, although its applied size was meant to survive.
  A client that never registers and comes back with another grid is then believed at once: its size
  becomes the recorded one and the PTY, which still has the old grid, is not resized.
\<close>

definition settle :: "nat \<times> nat \<Rightarrow> size_run \<Rightarrow> size_run" where
  "settle g r = record_applied g (apply_resize True g r)"

lemma reconnect_resize_ignored:
  "let r1 = settle (120, 40) (cmd_resize 1 120 40 (spawn_sized (80, 24) size_start));
       r2 = cmd_resize 2 100 30 (drop_connection 1 r1)
   in sz_pty r1 = Some (120, 40) \<and> sz_entry (drop_connection 1 r1) = None \<and> sz_phase r2 = Free \<and>
      map_option last_applied (sz_entry r2) = Some (100, 30) \<and> sz_pty r2 = Some (120, 40) \<and> \<not> sz_known r2"
  by code_simp

text \<open>
  A session without size record takes the PTY's rows and columns in the wrong order: a viewer whose
  grid is the transpose of the PTY's is not applied.
\<close>

lemma register_fallback_transposed:
  "let w = \<lparr>viewer_id = lit ''phone'', role = Remote, vw_cols = 24, vw_rows = 80, visible = True, vw_generation = 1\<rparr>;
       r = cmd_register_viewer 1 w (drop_connection 9 (spawn_sized (80, 24) size_start))
   in Option.bind (sz_entry r) controlling = Some w \<and> sz_phase r = Free \<and>
      map_option last_applied (sz_entry r) = Some (24, 80) \<and> sz_pty r = Some (80, 24)"
  by code_simp

text \<open>
  A detach applies the size it computed before it had the lifecycle lock. When the viewer it handed
  control to resizes in between, the older grid is applied last: the PTY is off the controller's grid
  with every resize taken and nothing left to apply.
\<close>

definition desk :: viewer where
  "desk = \<lparr>viewer_id = lit ''a'', role = Local, vw_cols = 120, vw_rows = 40, visible = True, vw_generation = 1\<rparr>"

definition phone :: viewer where
  "phone = \<lparr>viewer_id = lit ''b'', role = Remote, vw_cols = 50, vw_rows = 30, visible = True, vw_generation = 1\<rparr>"

definition two_viewers :: size_run where
  "two_viewers =
     cmd_register_viewer 2 phone
       (settle (120, 40) (cmd_register_viewer 1 desk (spawn_sized (80, 24) size_start)))"

lemma size_reachable_settle:
  assumes "size_reachable r" and "sz_phase r = Wanting g" and "sz_pty r \<noteq> None"
  shows "size_reachable (settle g r)"
proof -
  from assms(1,2) have "size_reachable (apply_resize True g r)"
    by (blast intro: size_advance do_apply)
  moreover have "sz_phase (apply_resize True g r) = Took g"
    using assms(3) by (simp add: apply_resize_def)
  ultimately show ?thesis
    unfolding settle_def by (blast intro: size_advance do_record)
qed

lemma size_reachable_two_viewers: "size_reachable two_viewers"
proof -
  let ?r1 = "spawn_sized (80, 24) size_start"
  let ?r2 = "cmd_register_viewer 1 desk ?r1"
  have "size_reachable ?r1"
    by (rule size_advance [OF size_begin do_spawn]) (simp_all add: size_start_def)
  moreover have "sz_phase ?r1 = Free" by code_simp
  ultimately have "size_reachable ?r2"
    by (blast intro: size_advance do_register)
  moreover have "sz_phase ?r2 = Wanting (120, 40)" by code_simp
  moreover have "sz_pty ?r2 \<noteq> None" by code_simp
  ultimately have "size_reachable (settle (120, 40) ?r2)"
    by (rule size_reachable_settle)
  moreover have "sz_phase (settle (120, 40) ?r2) = Free" by code_simp
  ultimately show ?thesis
    unfolding two_viewers_def by (blast intro: size_advance do_register)
qed

lemma stale_detach_size:
  "\<exists>r st w. size_reachable r \<and> sz_entry r = Some st \<and> controlling st = Some w \<and> sz_phase r = Free \<and>
     sz_waiting r = [] \<and> sz_known r \<and> sz_taken r \<and> sz_pty r = Some (50, 30) \<and>
     (vw_cols w, vw_rows w) = (60, 20)"
proof -
  let ?r1 = "cmd_detach 1 two_viewers"
  let ?r2 = "cmd_resize 2 60 20 ?r1"
  let ?r3 = "acquire (50, 30) (settle (60, 20) ?r2)"
  let ?r = "settle (50, 30) ?r3"
  have "size_reachable ?r1"
    using size_reachable_two_viewers by (blast intro: size_advance do_detach)
  moreover have "sz_phase ?r1 = Free" by code_simp
  ultimately have "size_reachable ?r2"
    by (blast intro: size_advance do_resize)
  moreover have "sz_phase ?r2 = Wanting (60, 20)" by code_simp
  moreover have "sz_pty ?r2 \<noteq> None" by code_simp
  ultimately have "size_reachable (settle (60, 20) ?r2)"
    by (rule size_reachable_settle)
  moreover have "sz_phase (settle (60, 20) ?r2) = Free" by code_simp
  moreover have "(50, 30) \<in> set (sz_waiting (settle (60, 20) ?r2))" by code_simp
  ultimately have "size_reachable ?r3"
    by (blast intro: size_advance do_acquire)
  moreover have "sz_phase ?r3 = Wanting (50, 30)" by code_simp
  moreover have "sz_pty ?r3 \<noteq> None" by code_simp
  ultimately have "size_reachable ?r"
    by (rule size_reachable_settle)
  moreover have "sz_phase ?r = Free \<and> sz_waiting ?r = [] \<and> sz_known ?r \<and> sz_taken ?r \<and> sz_pty ?r = Some (50, 30)"
    by code_simp
  moreover have "(case sz_entry ?r of None \<Rightarrow> False | Some st \<Rightarrow>
      (case controlling st of None \<Rightarrow> False | Some w \<Rightarrow> (vw_cols w, vw_rows w) = (60, 20)))"
    by code_simp
  ultimately show ?thesis
    by (auto split: option.splits)
qed

section \<open>Properties\<close>



end
