(* ===== verification/Workflow.thy ===== *)
theory Workflow
  imports Repo_Config
begin

text \<open>
  Workflow definitions (\<^verbatim>\<open>crates/kanna-server/src/task_creator/definitions.rs\<close>): the pinned linear workflow
  of a task, the raw document it is read from, the normalisation that folds retired \<^verbatim>\<open>continue\<close> stages into
  the post of the stage before them, and where a stored stage name sits in a workflow. JSON text and serde's
  derived readers are parameters; the hand-written readers are modelled.
\<close>

section \<open>Data\<close>

datatype definition_visibility = Public | Internal

definition is_public :: "definition_visibility \<Rightarrow> bool" where
  "is_public v \<longleftrightarrow> v = Public"

datatype stage_transition = Manual | AutoTransition

fun transition_str :: "stage_transition \<Rightarrow> ustr" where
  "transition_str Manual = lit ''manual''"
| "transition_str AutoTransition = lit ''auto''"

record workflow_post =
  po_name :: ustr
  po_description :: "ustr option"
  po_agent :: "ustr option"
  po_prompt :: "ustr option"
  po_agent_provider :: "ustr list option"

record stage_policy =
  pl_transition :: stage_transition
  pl_revision_transition :: "stage_transition option"

record workflow_stage =
  st_name :: ustr
  st_description :: "ustr option"
  st_agent :: "ustr option"
  st_prompt :: "ustr option"
  st_agent_provider :: "ustr list option"
  st_environment :: "ustr option"
  st_policy :: stage_policy
  st_post :: "workflow_post option"

record workflow_environment =
  en_setup :: "ustr list option"
  en_teardown :: "ustr list option"

record workflow_definition =
  wf_name :: "ustr option"
  wf_description :: "ustr option"
  wf_stages :: "workflow_stage list"
  wf_environments :: "(ustr \<times> workflow_environment) list option"
  wf_revision_limit :: "int option"
  wf_visibility :: definition_visibility

definition DEFAULT_REVISION_LIMIT :: int where
  "DEFAULT_REVISION_LIMIT = 5"

definition revision_limit :: "workflow_definition \<Rightarrow> int" where
  "revision_limit w = (case wf_revision_limit w of Some n \<Rightarrow> n | None \<Rightarrow> DEFAULT_REVISION_LIMIT)"

definition revision_transition :: "stage_policy \<Rightarrow> stage_transition" where
  "revision_transition p = (case pl_revision_transition p of Some t \<Rightarrow> t | None \<Rightarrow> pl_transition p)"

section \<open>Positions\<close>

datatype stage_position = AtStage nat | AtPost nat

definition post_named :: "ustr \<Rightarrow> workflow_stage \<Rightarrow> bool" where
  "post_named name stage = (case st_post stage of Some post \<Rightarrow> po_name post = name | None \<Rightarrow> False)"

definition resolve_stage_position :: "workflow_definition \<Rightarrow> ustr \<Rightarrow> stage_position option" where
  "resolve_stage_position w name =
     (case position (\<lambda>stage. st_name stage = name) (wf_stages w) of
        Some index \<Rightarrow> Some (AtStage index)
      | None \<Rightarrow> map_option AtPost (position (post_named name) (wf_stages w)))"

definition post_as_stage :: "workflow_stage \<Rightarrow> workflow_stage option" where
  "post_as_stage owner =
     map_option (\<lambda>post.
       \<lparr>st_name = po_name post, st_description = po_description post, st_agent = po_agent post,
        st_prompt = po_prompt post, st_agent_provider = po_agent_provider post,
        st_environment = st_environment owner,
        st_policy = \<lparr>pl_transition = AutoTransition, pl_revision_transition = None\<rparr>, st_post = None\<rparr>)
     (st_post owner)"

section \<open>The raw document\<close>

datatype stage_execution = NewTask | Continue

record raw_policy =
  rp_transition :: stage_transition
  rp_revision_transition :: "stage_transition option"
  rp_execution :: "stage_execution option"

record raw_stage =
  rs_name :: ustr
  rs_description :: "ustr option"
  rs_agent :: "ustr option"
  rs_prompt :: "ustr option"
  rs_agent_provider :: "ustr list option"
  rs_environment :: "ustr option"
  rs_policy :: "raw_policy option"
  rs_transition :: "stage_transition option"
  rs_mode :: "stage_execution option"
  rs_post :: "workflow_post option"
  rs_post_action :: "workflow_post option"

record raw_workflow =
  rw_name :: "ustr option"
  rw_description :: "ustr option"
  rw_stages :: "raw_stage list"
  rw_environments :: "(ustr \<times> workflow_environment) list option"
  rw_revision_limit :: "int option"
  rw_visibility :: definition_visibility

datatype workflow_error =
    MissingTransition ustr
  | NegativeRevisionLimit int
  | NotJsonWorkflow
  | NotWorkflow
  | NullProvider nat
  | NullPostProvider nat ustr

definition stage_routing :: "raw_stage \<Rightarrow> workflow_error + (stage_transition \<times> stage_transition option \<times> bool)" where
  "stage_routing raw =
     (case rs_policy raw of
        Some policy \<Rightarrow>
          Inr (rp_transition policy, rp_revision_transition policy, rp_execution policy = Some Continue)
      | None \<Rightarrow>
          (case rs_transition raw of
             Some t \<Rightarrow> Inr (t, None, rs_mode raw = Some Continue)
           | None \<Rightarrow> Inl (MissingTransition (rs_name raw))))"

definition folded_post :: "raw_stage \<Rightarrow> workflow_post" where
  "folded_post raw =
     \<lparr>po_name = rs_name raw, po_description = rs_description raw, po_agent = rs_agent raw,
      po_prompt = rs_prompt raw, po_agent_provider = rs_agent_provider raw\<rparr>"

definition own_post :: "raw_stage \<Rightarrow> workflow_post option" where
  "own_post raw = (case rs_post raw of Some post \<Rightarrow> Some post | None \<Rightarrow> rs_post_action raw)"

text \<open>\<^verbatim>\<open>stages.last_mut()\<close> with a free post slot.\<close>

definition folds_into :: "workflow_stage list \<Rightarrow> bool" where
  "folds_into stages \<longleftrightarrow> stages \<noteq> [] \<and> st_post (last stages) = None"

definition normalize_stage ::
  "workflow_stage list \<Rightarrow> raw_stage \<Rightarrow> workflow_error + workflow_stage list" where
  "normalize_stage stages raw =
     (case stage_routing raw of
        Inl e \<Rightarrow> Inl e
      | Inr (transition, revision, continues) \<Rightarrow>
          if continues \<and> folds_into stages
          then Inr (butlast stages @ [(last stages)\<lparr>st_post := Some (folded_post raw)\<rparr>])
          else
            Inr (stages @
              [\<lparr>st_name = rs_name raw, st_description = rs_description raw, st_agent = rs_agent raw,
                st_prompt = rs_prompt raw, st_agent_provider = rs_agent_provider raw,
                st_environment = rs_environment raw,
                st_policy = \<lparr>pl_transition = transition, pl_revision_transition = revision\<rparr>,
                st_post = own_post raw\<rparr>]))"

fun normalize_stages ::
  "workflow_stage list \<Rightarrow> raw_stage list \<Rightarrow> workflow_error + workflow_stage list" where
  "normalize_stages stages [] = Inr stages"
| "normalize_stages stages (raw # raws) =
     (case normalize_stage stages raw of
        Inl e \<Rightarrow> Inl e
      | Inr stages' \<Rightarrow> normalize_stages stages' raws)"

definition normalize_workflow_definition :: "raw_workflow \<Rightarrow> workflow_error + workflow_definition" where
  "normalize_workflow_definition raw =
     (case normalize_stages [] (rw_stages raw) of
        Inl e \<Rightarrow> Inl e
      | Inr stages \<Rightarrow>
          if (case rw_revision_limit raw of Some n \<Rightarrow> n < 0 | None \<Rightarrow> False)
          then Inl (NegativeRevisionLimit (the (rw_revision_limit raw)))
          else
            Inr \<lparr>wf_name = rw_name raw, wf_description = rw_description raw, wf_stages = stages,
              wf_environments = rw_environments raw, wf_revision_limit = rw_revision_limit raw,
              wf_visibility = rw_visibility raw\<rparr>)"

section \<open>Hand-written readers\<close>

datatype provider_list_error = NotProviderList | EmptyProvider | InvalidSelector selector_error

definition provider_entries :: "json \<Rightarrow> provider_list_error + ustr list option" where
  "provider_entries j =
     (case j of
        JNull \<Rightarrow> Inr None
      | JString s \<Rightarrow> Inr (Some [trim s])
      | JArray values \<Rightarrow>
          if values = [] \<or> \<not> list_all (\<lambda>v. is_Some (json_as_str v)) values then Inl NotProviderList
          else Inr (Some (filter_map (\<lambda>v. map_option trim (json_as_str v)) values))
      | _ \<Rightarrow> Inl NotProviderList)"

definition deserialize_optional_provider_list :: "json \<Rightarrow> provider_list_error + ustr list option" where
  "deserialize_optional_provider_list j =
     (case provider_entries j of
        Inl e \<Rightarrow> Inl e
      | Inr None \<Rightarrow> Inr None
      | Inr (Some providers) \<Rightarrow>
          if providers = [] \<or> list_ex (\<lambda>p. p = []) providers then Inl EmptyProvider
          else (case try_each parse_provider_selector providers of
                  Inl e \<Rightarrow> Inl (InvalidSelector e)
                | Inr _ \<Rightarrow> Inr (Some providers)))"

definition null_provider :: "json \<Rightarrow> bool" where
  "null_provider j \<longleftrightarrow> json_get j (lit ''agent_provider'') = Some JNull"

definition POST_KEYS :: "ustr list" where
  "POST_KEYS = [lit ''post'', lit ''post_action'']"

definition null_post_provider :: "json \<Rightarrow> ustr \<Rightarrow> bool" where
  "null_post_provider stage key \<longleftrightarrow>
     (case json_get stage key of Some post \<Rightarrow> null_provider post | None \<Rightarrow> False)"

fun reject_null_stages :: "nat \<Rightarrow> json list \<Rightarrow> workflow_error + unit" where
  "reject_null_stages index [] = Inr ()"
| "reject_null_stages index (stage # stages) =
     (if null_provider stage then Inl (NullProvider index)
      else case find (null_post_provider stage) POST_KEYS of
             Some key \<Rightarrow> Inl (NullPostProvider index key)
           | None \<Rightarrow> reject_null_stages (index + 1) stages)"

definition reject_explicit_null_workflow_providers :: "json \<Rightarrow> workflow_error + unit" where
  "reject_explicit_null_workflow_providers value =
     (case Option.bind (json_get value (lit ''stages'')) json_as_array of
        None \<Rightarrow> Inr ()
      | Some stages \<Rightarrow> reject_null_stages 0 stages)"

definition normalize_legacy_provider_csv :: "json \<Rightarrow> json" where
  "normalize_legacy_provider_csv j =
     (case j of
        JString csv \<Rightarrow>
          if 44 \<in> set csv then JArray (map JString (csv_entries csv)) else j
      | _ \<Rightarrow> j)"

text \<open>\<^verbatim>\<open>get_mut(key)\<close> followed by an update in place; anything but an object with the key is left alone.\<close>

definition json_update :: "ustr \<Rightarrow> (json \<Rightarrow> json) \<Rightarrow> json \<Rightarrow> json" where
  "json_update key f j =
     (case j of
        JObject m \<Rightarrow> JObject (map (\<lambda>(k, v). (k, if k = key then f v else v)) m)
      | _ \<Rightarrow> j)"

definition normalize_legacy_stage :: "json \<Rightarrow> json" where
  "normalize_legacy_stage stage =
     fold (\<lambda>key. json_update key (json_update (lit ''agent_provider'') normalize_legacy_provider_csv))
       POST_KEYS (json_update (lit ''agent_provider'') normalize_legacy_provider_csv stage)"

definition normalize_legacy_workflow_provider_csv :: "json \<Rightarrow> json" where
  "normalize_legacy_workflow_provider_csv value =
     json_update (lit ''stages'')
       (\<lambda>stages. case stages of JArray vs \<Rightarrow> JArray (map normalize_legacy_stage vs) | _ \<Rightarrow> stages) value"

definition parse_workflow_definition ::
  "(ustr \<Rightarrow> json option) \<Rightarrow> (json \<Rightarrow> raw_workflow option) \<Rightarrow> ustr \<Rightarrow> workflow_error + workflow_definition" where
  "parse_workflow_definition from_str from_value content =
     (case from_str content of
        None \<Rightarrow> Inl NotJsonWorkflow
      | Some value \<Rightarrow>
          (case reject_explicit_null_workflow_providers value of
             Inl e \<Rightarrow> Inl e
           | Inr _ \<Rightarrow>
               (case from_value value of
                  None \<Rightarrow> Inl NotWorkflow
                | Some raw \<Rightarrow> normalize_workflow_definition raw)))"

definition parse_stored_workflow_definition ::
  "(ustr \<Rightarrow> json option) \<Rightarrow> (json \<Rightarrow> raw_workflow option) \<Rightarrow> ustr \<Rightarrow> workflow_error + workflow_definition" where
  "parse_stored_workflow_definition from_str from_value content =
     (case from_str content of
        None \<Rightarrow> Inl NotJsonWorkflow
      | Some value \<Rightarrow>
          (case from_value (normalize_legacy_workflow_provider_csv value) of
             None \<Rightarrow> Inl NotWorkflow
           | Some raw \<Rightarrow> normalize_workflow_definition raw))"

section \<open>Built-in names\<close>

definition LEGACY_BUILTIN_WORKFLOWS :: "(ustr \<times> ustr) list" where
  "LEGACY_BUILTIN_WORKFLOWS =
     [(lit ''default'', lit ''no-review''), (lit ''qa'', lit ''single-reviewer''),
      (lit ''qa-dispatch'', lit ''specialized-reviewers'')]"

definition canonical_builtin_workflow_name :: "ustr \<Rightarrow> ustr" where
  "canonical_builtin_workflow_name name =
     (case find_map (\<lambda>(legacy, current). if legacy = name then Some current else None)
            LEGACY_BUILTIN_WORKFLOWS of
        Some current \<Rightarrow> current | None \<Rightarrow> name)"

lemma canonical_builtin_idem:
  "canonical_builtin_workflow_name (canonical_builtin_workflow_name name) =
     canonical_builtin_workflow_name name"
  by (simp add: canonical_builtin_workflow_name_def LEGACY_BUILTIN_WORKFLOWS_def)

section \<open>Nothing is lost in normalisation\<close>

text \<open>The names of the work a workflow does, in order: a stage, then its post.\<close>

definition stage_names :: "workflow_stage \<Rightarrow> ustr list" where
  "stage_names stage = st_name stage # (case st_post stage of Some post \<Rightarrow> [po_name post] | None \<Rightarrow> [])"

definition work_names :: "workflow_stage list \<Rightarrow> ustr list" where
  "work_names stages = concat (map stage_names stages)"

definition raw_names :: "raw_stage \<Rightarrow> ustr list" where
  "raw_names raw = rs_name raw # (case own_post raw of Some post \<Rightarrow> [po_name post] | None \<Rightarrow> [])"

definition raw_continues :: "raw_stage \<Rightarrow> bool" where
  "raw_continues raw \<longleftrightarrow> (case stage_routing raw of Inr (_, _, c) \<Rightarrow> c | Inl _ \<Rightarrow> False)"

lemma work_names_simps [simp]:
  "work_names [] = []" "work_names (s # ss) = stage_names s @ work_names ss"
  "work_names (ss @ ss') = work_names ss @ work_names ss'"
  by (simp_all add: work_names_def)

lemma work_names_fold:
  assumes "folds_into stages"
  shows "work_names (butlast stages) @ [st_name (last stages)] = work_names stages"
proof -
  have "work_names (butlast stages @ [last stages]) = work_names stages"
    using assms by (simp add: folds_into_def)
  then show ?thesis
    using assms by (simp add: folds_into_def stage_names_def del: append_butlast_last_id)
qed

lemma normalize_stage_names:
  assumes "normalize_stage stages raw = Inr stages'" and "raw_continues raw \<longrightarrow> own_post raw = None"
  shows "work_names stages' = work_names stages @ raw_names raw"
  using assms
  by (auto simp: normalize_stage_def raw_continues_def raw_names_def work_names_fold folded_post_def
      stage_names_def split: sum.splits if_splits)

lemma normalize_stages_names:
  assumes "normalize_stages stages raws = Inr stages'"
    and "\<forall>raw \<in> set raws. raw_continues raw \<longrightarrow> own_post raw = None"
  shows "work_names stages' = work_names stages @ concat (map raw_names raws)"
  using assms
  by (induction stages raws rule: normalize_stages.induct)
    (auto simp: normalize_stage_names split: sum.splits)


definition plain_raw :: "ustr \<Rightarrow> stage_execution option \<Rightarrow> workflow_post option \<Rightarrow> raw_stage" where
  "plain_raw name execution post =
     \<lparr>rs_name = name, rs_description = None, rs_agent = None, rs_prompt = None, rs_agent_provider = None,
      rs_environment = None,
      rs_policy = Some \<lparr>rp_transition = AutoTransition, rp_revision_transition = None, rp_execution = execution\<rparr>,
      rs_transition = None, rs_mode = None, rs_post = post, rs_post_action = None\<rparr>"

definition plain_post :: "ustr \<Rightarrow> workflow_post" where
  "plain_post name =
     \<lparr>po_name = name, po_description = None, po_agent = None, po_prompt = None, po_agent_provider = None\<rparr>"

definition plain_workflow :: "raw_stage list \<Rightarrow> raw_workflow" where
  "plain_workflow stages =
     \<lparr>rw_name = None, rw_description = None, rw_stages = stages, rw_environments = None,
      rw_revision_limit = None, rw_visibility = Public\<rparr>"


text \<open>A folded stage's own post is dropped: its work disappears without an error.\<close>

lemma folded_stage_loses_its_post:
  "\<exists>w. normalize_workflow_definition
      (plain_workflow [plain_raw (lit ''build'') None None,
         plain_raw (lit ''commit'') (Some Continue) (Some (plain_post (lit ''notify'')))]) = Inr w \<and>
    work_names (wf_stages w) = [lit ''build'', lit ''commit'']"
  by (auto simp: normalize_workflow_definition_def plain_workflow_def plain_raw_def plain_post_def
      normalize_stage_def stage_routing_def folds_into_def own_post_def folded_post_def stage_names_def)

section \<open>Pinned snapshots\<close>

text \<open>
  How a \<^verbatim>\<open>WorkflowDefinition\<close> reads back after serde wrote it: every field under its own name, the policy
  without an execution, the post inline.
\<close>

definition raw_of_stage :: "workflow_stage \<Rightarrow> raw_stage" where
  "raw_of_stage s =
     \<lparr>rs_name = st_name s, rs_description = st_description s, rs_agent = st_agent s, rs_prompt = st_prompt s,
      rs_agent_provider = st_agent_provider s, rs_environment = st_environment s,
      rs_policy = Some \<lparr>rp_transition = pl_transition (st_policy s),
        rp_revision_transition = pl_revision_transition (st_policy s), rp_execution = None\<rparr>,
      rs_transition = None, rs_mode = None, rs_post = st_post s, rs_post_action = None\<rparr>"

definition raw_of_workflow :: "workflow_definition \<Rightarrow> raw_workflow" where
  "raw_of_workflow w =
     \<lparr>rw_name = wf_name w, rw_description = wf_description w, rw_stages = map raw_of_stage (wf_stages w),
      rw_environments = wf_environments w, rw_revision_limit = wf_revision_limit w,
      rw_visibility = wf_visibility w\<rparr>"

lemma normalize_raw_of_stages: "normalize_stages done (map raw_of_stage stages) = Inr (done @ stages)"
  by (induction stages arbitrary: "done")
    (simp_all add: normalize_stage_def stage_routing_def raw_of_stage_def own_post_def split: option.split)

definition limit_ok :: "workflow_definition \<Rightarrow> bool" where
  "limit_ok w \<longleftrightarrow> (case wf_revision_limit w of Some n \<Rightarrow> 0 \<le> n | None \<Rightarrow> True)"

lemma normalize_raw_of_workflow: "limit_ok w \<Longrightarrow> normalize_workflow_definition (raw_of_workflow w) = Inr w"
  by (simp add: normalize_workflow_definition_def raw_of_workflow_def normalize_raw_of_stages limit_ok_def
      split: option.splits)

lemma normalize_limit_ok: "normalize_workflow_definition raw = Inr w \<Longrightarrow> limit_ok w"
  by (auto simp: normalize_workflow_definition_def limit_ok_def split: sum.splits if_splits option.splits)

text \<open>A snapshot writes provider lists as arrays, never as a string.\<close>

fun list_provider :: "json \<Rightarrow> bool" where
  "list_provider (JString _) = False"
| "list_provider _ = True"

definition member_all :: "ustr \<Rightarrow> (json \<Rightarrow> bool) \<Rightarrow> json \<Rightarrow> bool" where
  "member_all key P j =
     (case json_as_object j of Some m \<Rightarrow> list_all (\<lambda>(k, v). k \<noteq> key \<or> P v) m | None \<Rightarrow> True)"

definition list_providers :: "json \<Rightarrow> bool" where
  "list_providers stage \<longleftrightarrow>
     member_all (lit ''agent_provider'') list_provider stage \<and>
     list_all (\<lambda>key. member_all key (member_all (lit ''agent_provider'') list_provider) stage) POST_KEYS"

definition snapshot_shape :: "json \<Rightarrow> bool" where
  "snapshot_shape value \<longleftrightarrow>
     member_all (lit ''stages'')
       (\<lambda>stages. case stages of JArray vs \<Rightarrow> list_all list_providers vs | _ \<Rightarrow> True) value"

lemma json_update_id: "member_all key P j \<Longrightarrow> (\<And>v. P v \<Longrightarrow> f v = v) \<Longrightarrow> json_update key f j = j"
  by (cases j) (auto simp: member_all_def json_update_def list_all_iff intro!: map_idI)

lemma normalize_legacy_provider_csv_id: "list_provider j \<Longrightarrow> normalize_legacy_provider_csv j = j"
  by (cases j) (simp_all add: normalize_legacy_provider_csv_def)

lemma normalize_legacy_stage_id: "list_providers j \<Longrightarrow> normalize_legacy_stage j = j"
  by (simp add: normalize_legacy_stage_def list_providers_def POST_KEYS_def json_update_id
      [of _ "member_all (lit ''agent_provider'') list_provider"]
      json_update_id [of _ list_provider] normalize_legacy_provider_csv_id)

lemma normalize_legacy_id: "snapshot_shape value \<Longrightarrow> normalize_legacy_workflow_provider_csv value = value"
  unfolding normalize_legacy_workflow_provider_csv_def snapshot_shape_def
  by (erule json_update_id) (auto simp: list_all_iff normalize_legacy_stage_id intro!: map_idI split: json.splits)



section \<open>Where a name sits\<close>

lemma distinct_stage_names: "distinct (work_names stages) \<Longrightarrow> distinct (map st_name stages)"
proof (induction stages)
  case (Cons s stages)
  have "st_name ` set stages \<subseteq> set (work_names stages)"
    by (auto simp: work_names_def stage_names_def)
  then show ?case
    using Cons by (auto simp: stage_names_def)
qed simp

lemma position_unique:
  "i < length xs \<Longrightarrow> P (xs ! i) \<Longrightarrow> \<forall>j < i. \<not> P (xs ! j) \<Longrightarrow> position P xs = Some i"
proof (induction xs arbitrary: i)
  case (Cons x xs)
  show ?case
  proof (cases i)
    case 0
    then show ?thesis using Cons.prems by simp
  next
    case (Suc k)
    then have "\<forall>j < k. \<not> P (xs ! j)"
      using Cons.prems(3) by (metis Suc_mono nth_Cons_Suc)
    moreover have "\<not> P x"
      using Cons.prems(3) Suc by auto
    ultimately show ?thesis
      using Cons.IH [of k] Cons.prems Suc by simp
  qed
qed simp

lemma resolve_stage:
  assumes "distinct (map st_name (wf_stages w))" and "i < length (wf_stages w)"
  shows "resolve_stage_position w (st_name (wf_stages w ! i)) = Some (AtStage i)"
proof -
  have "st_name (wf_stages w ! j) \<noteq> st_name (wf_stages w ! i)" if "j < i" for j
    using that assms nth_eq_iff_index_eq [of "map st_name (wf_stages w)" j i] by auto
  then have "position (\<lambda>stage. st_name stage = st_name (wf_stages w ! i)) (wf_stages w) = Some i"
    using assms(2) by (intro position_unique) auto
  then show ?thesis
    by (simp add: resolve_stage_position_def)
qed

lemma resolve_position_sound:
  "resolve_stage_position w name = Some (AtStage i) \<Longrightarrow>
     i < length (wf_stages w) \<and> st_name (wf_stages w ! i) = name"
  "resolve_stage_position w name = Some (AtPost i) \<Longrightarrow>
     i < length (wf_stages w) \<and> post_named name (wf_stages w ! i)"
  by (auto simp: resolve_stage_position_def split: option.splits dest!: position_SomeD)

end
