(* ===== verification/Stage_Routing.thy ===== *)
theory Stage_Routing
  imports Workflow
begin

text \<open>
  Where a task goes next. The run history of a task as the queries and updates of
  \<^verbatim>\<open>crates/kanna-server/src/db/stage_runs.rs\<close> see it, and the routing of
  \<^verbatim>\<open>task_creator/stages.rs\<close>: an explicit advance, a completion verdict, and the request each hands to the
  spawn. Preparing a spawn (git, prompts, provider resolution) may fail; whether it does is a parameter.
\<close>

section \<open>Runs and tasks\<close>

text \<open>The columns of a run the actions read or decide on; its session, directory and timestamps are left out.\<close>

record stage_run =
  sr_id :: ustr
  sr_stage :: ustr
  sr_kind :: ustr
  sr_agent_provider :: "ustr option"
  sr_model :: "ustr option"
  sr_effort :: "ustr option"
  sr_status :: ustr
  sr_result :: "ustr option"
  sr_feedback :: "ustr option"
  sr_completion_transition :: "ustr option"
  sr_completion_bound :: bool
  sr_trigger :: ustr
  sr_provider_override :: "stage_provider_override option"

text \<open>The columns of a task the routing reads, with its runs in insertion order.\<close>

record task =
  tk_id :: ustr
  tk_closed :: bool
  tk_stage :: "ustr option"
  tk_branch :: "ustr option"
  tk_prompt :: "ustr option"
  tk_agent_provider :: "ustr option"
  tk_open_blockers :: nat
  tk_revision_rounds :: int
  tk_runs :: "stage_run list"
  tk_attempts :: "(ustr \<times> ustr \<times> ustr) list"

abbreviation RUNNING :: ustr where "RUNNING \<equiv> lit ''running''"

abbreviation SUCCEEDED :: ustr where "SUCCEEDED \<equiv> lit ''succeeded''"

abbreviation FAILED :: ustr where "FAILED \<equiv> lit ''failed''"

abbreviation CANCELLED :: ustr where "CANCELLED \<equiv> lit ''cancelled''"

abbreviation MAIN_KIND :: ustr where "MAIN_KIND \<equiv> lit ''main''"

abbreviation POST_KIND :: ustr where "POST_KIND \<equiv> lit ''post''"

text \<open>\<^verbatim>\<open>ORDER BY rowid DESC LIMIT 1\<close>.\<close>

definition newest :: "(stage_run \<Rightarrow> bool) \<Rightarrow> task \<Rightarrow> stage_run option" where
  "newest p t = find p (rev (tk_runs t))"

definition latest_stage_run :: "task \<Rightarrow> stage_run option" where
  "latest_stage_run t = newest (\<lambda>_. True) t"

definition latest_stage_run_for_stage :: "task \<Rightarrow> ustr \<Rightarrow> ustr \<Rightarrow> stage_run option" where
  "latest_stage_run_for_stage t stage kind = newest (\<lambda>run. sr_stage run = stage \<and> sr_kind run = kind) t"

definition running_stage_runs :: "task \<Rightarrow> stage_run list" where
  "running_stage_runs t = filter (\<lambda>run. sr_status run = RUNNING) (tk_runs t)"

definition latest_finished_stage_run_result :: "task \<Rightarrow> ustr option \<Rightarrow> ustr option" where
  "latest_finished_stage_run_result t kind =
     Option.bind
       (newest (\<lambda>run. (sr_status run = SUCCEEDED \<or> sr_status run = FAILED) \<and> is_Some (sr_result run) \<and>
          (case kind of Some k \<Rightarrow> sr_kind run = k | None \<Rightarrow> True)) t)
       sr_result"

definition find_stage_run :: "task \<Rightarrow> ustr \<Rightarrow> stage_run option" where
  "find_stage_run t run_id = find (\<lambda>run. sr_id run = run_id) (tk_runs t)"

text \<open>\<^verbatim>\<open>UPDATE stage_run SET status, result, feedback WHERE id\<close>; no row is an error.\<close>

definition finish_run :: "ustr \<Rightarrow> ustr option \<Rightarrow> ustr option \<Rightarrow> stage_run \<Rightarrow> stage_run" where
  "finish_run status result feedback run =
     run\<lparr>sr_status := status, sr_result := result, sr_feedback := feedback\<rparr>"

definition finish_stage_run ::
  "ustr \<Rightarrow> ustr \<Rightarrow> ustr option \<Rightarrow> ustr option \<Rightarrow> task \<Rightarrow> task option" where
  "finish_stage_run run_id status result feedback t =
     (if find_stage_run t run_id = None then None
      else Some (t\<lparr>tk_runs := map (\<lambda>run. if sr_id run = run_id then finish_run status result feedback run
                                         else run) (tk_runs t)\<rparr>))"

definition finish_latest_running_stage_run :: "ustr \<Rightarrow> task \<Rightarrow> task" where
  "finish_latest_running_stage_run status t =
     (case newest (\<lambda>run. sr_status run = RUNNING) t of
        None \<Rightarrow> t
      | Some run \<Rightarrow>
          (case finish_stage_run (sr_id run) status None None t of Some t' \<Rightarrow> t' | None \<Rightarrow> t))"

definition cancel_running_stage_runs :: "task \<Rightarrow> task" where
  "cancel_running_stage_runs t =
     t\<lparr>tk_runs := map (\<lambda>run. if sr_status run = lit ''pending'' \<or> sr_status run = RUNNING
                              then run\<lparr>sr_status := CANCELLED\<rparr> else run) (tk_runs t)\<rparr>"

definition insert_stage_run :: "stage_run \<Rightarrow> task \<Rightarrow> task" where
  "insert_stage_run run t = t\<lparr>tk_runs := tk_runs t @ [run]\<rparr>"

section \<open>What a route asks the spawn for\<close>

record spawn_overrides =
  so_provider :: "ustr option"
  so_model :: "ustr option"
  so_effort :: "ustr option"

definition no_overrides :: spawn_overrides where
  "no_overrides = \<lparr>so_provider = None, so_model = None, so_effort = None\<rparr>"

definition from_stage_run :: "stage_run \<Rightarrow> spawn_overrides" where
  "from_stage_run run =
     \<lparr>so_provider = sr_agent_provider run, so_model = sr_model run, so_effort = sr_effort run\<rparr>"

definition from_provider_override :: "stage_provider_override \<Rightarrow> spawn_overrides" where
  "from_provider_override ov =
     \<lparr>so_provider = Some (ov_provider ov), so_model = ov_model ov, so_effort = ov_effort ov\<rparr>"

datatype workspace_spec = CurrentWorkspace | ForkWorkspace | ResumeWorkspace

record run_request =
  rq_target :: workflow_stage
  rq_item_stage :: ustr
  rq_kind :: ustr
  rq_completion :: stage_transition
  rq_workspace :: workspace_spec
  rq_prompt_override :: "ustr option"
  rq_feedback :: "ustr option"
  rq_overrides :: spawn_overrides
  rq_suffix :: "ustr option"
  rq_trigger :: stage_trigger
  rq_provider_override :: "stage_provider_override option"
  rq_marker :: "(ustr \<times> ustr) option"

datatype stage_route = RunRoute run_request | PostRoute run_request | CloseRoute

datatype route_error =
    TaskClosed
  | TaskBlocked
  | TaskHasNoStage
  | TaskHasNoBranch
  | StageNotFound ustr
  | StageHasNoPost ustr
  | PostStillRunning ustr
  | OverrideAtPost ustr ustr ustr
  | OverrideAtClose ustr
  | InvalidCompletionTransition ustr
  | PrepareFailed

definition stage_trigger_from_stored :: "ustr option \<Rightarrow> stage_trigger" where
  "stage_trigger_from_stored trigger =
     (if trigger = Some (lit ''auto'') then Auto
      else if trigger = Some (lit ''operator'') then Operator
      else if trigger = Some (lit ''manager'') then Manager
      else Unspecified)"

text \<open>
  Preparing the run needs the task's branch; \<open>ready\<close> stands for everything else that can fail while the
  workspace is forked and the prompt and provider are resolved.
\<close>

definition prepare_stage_run_for_target ::
  "(run_request \<Rightarrow> bool) \<Rightarrow> task \<Rightarrow> run_request \<Rightarrow> route_error + run_request" where
  "prepare_stage_run_for_target ready t rq =
     (if tk_branch t = None then Inl TaskHasNoBranch
      else if \<not> ready rq then Inl PrepareFailed
      else Inr rq)"

definition REREVIEW_VERDICT_COMPLETION_INSTRUCTION :: ustr where
  "REREVIEW_VERDICT_COMPLETION_INSTRUCTION =
     lit ''Your run is not complete until you have called `kanna_complete_stage` or `kanna_request_revision`; a summary without one of these is an unfinished review.''"

definition target_request :: "task \<Rightarrow> workflow_stage \<Rightarrow> stage_trigger \<Rightarrow> stage_provider_override option \<Rightarrow> ustr \<Rightarrow> run_request" where
  "target_request t next_stage trigger ov from_stage =
     \<lparr>rq_target = next_stage, rq_item_stage = st_name next_stage, rq_kind = MAIN_KIND,
      rq_completion = pl_transition (st_policy next_stage), rq_workspace = ForkWorkspace,
      rq_prompt_override = None, rq_feedback = None,
      rq_overrides = (case ov of Some p \<Rightarrow> from_provider_override p | None \<Rightarrow> no_overrides),
      rq_suffix =
        (if st_agent next_stage = Some (lit ''review'') \<and>
            is_Some (latest_stage_run_for_stage t (st_name next_stage) MAIN_KIND)
         then Some REREVIEW_VERDICT_COMPLETION_INSTRUCTION else None),
      rq_trigger = trigger, rq_provider_override = ov,
      rq_marker = Some (from_stage, st_name next_stage)\<rparr>"

definition prepare_swap_to_index ::
  "(run_request \<Rightarrow> bool) \<Rightarrow> workflow_definition \<Rightarrow> task \<Rightarrow> nat \<Rightarrow> stage_trigger
     \<Rightarrow> stage_provider_override option \<Rightarrow> route_error + stage_route" where
  "prepare_swap_to_index ready w t next_index trigger ov =
     (case get (wf_stages w) next_index of
        None \<Rightarrow> (case ov of Some p \<Rightarrow> Inl (OverrideAtClose (ov_provider p)) | None \<Rightarrow> Inr CloseRoute)
      | Some next_stage \<Rightarrow>
          (case tk_stage t of
             None \<Rightarrow> Inl TaskHasNoStage
           | Some from_stage \<Rightarrow>
               map_sum id RunRoute
                 (prepare_stage_run_for_target ready t (target_request t next_stage trigger ov from_stage))))"

definition post_request :: "workflow_stage \<Rightarrow> workflow_stage \<Rightarrow> stage_trigger \<Rightarrow> run_request" where
  "post_request owner post_stage trigger =
     \<lparr>rq_target = post_stage, rq_item_stage = st_name owner, rq_kind = POST_KIND,
      rq_completion = pl_transition (st_policy post_stage), rq_workspace = CurrentWorkspace,
      rq_prompt_override = None, rq_feedback = None, rq_overrides = no_overrides, rq_suffix = None,
      rq_trigger = trigger, rq_provider_override = None, rq_marker = None\<rparr>"

definition prepare_post_dispatch ::
  "(run_request \<Rightarrow> bool) \<Rightarrow> workflow_definition \<Rightarrow> task \<Rightarrow> nat \<Rightarrow> stage_trigger \<Rightarrow> route_error + stage_route" where
  "prepare_post_dispatch ready w t owner_index trigger =
     (let owner = wf_stages w ! owner_index
      in case post_as_stage owner of
           None \<Rightarrow> Inl (StageHasNoPost (st_name owner))
         | Some post_stage \<Rightarrow>
             map_sum id PostRoute (prepare_stage_run_for_target ready t (post_request owner post_stage trigger)))"

section \<open>Advancing\<close>

record advance_intent =
  ai_trigger :: stage_trigger
  ai_override :: "stage_provider_override option"

definition post_pending :: "workflow_post \<Rightarrow> task \<Rightarrow> route_error + bool" where
  "post_pending post t =
     (case latest_stage_run t of
        Some run \<Rightarrow>
          if sr_kind run = POST_KIND \<and> sr_stage run = po_name post
          then if sr_status run = RUNNING then Inl (PostStillRunning (po_name post))
               else Inr (sr_status run = FAILED \<or> sr_status run = CANCELLED)
          else Inr True
      | None \<Rightarrow> Inr True)"

definition advance_from_stage ::
  "(run_request \<Rightarrow> bool) \<Rightarrow> workflow_definition \<Rightarrow> task \<Rightarrow> nat \<Rightarrow> advance_intent \<Rightarrow> route_error + stage_route" where
  "advance_from_stage ready w t index intent =
     (let swap = prepare_swap_to_index ready w t (index + 1) (ai_trigger intent) (ai_override intent)
      in case st_post (wf_stages w ! index) of
           None \<Rightarrow> swap
         | Some post \<Rightarrow>
             (case post_pending post t of
                Inl e \<Rightarrow> Inl e
              | Inr pending \<Rightarrow>
                  if \<not> pending then swap
                  else case ai_override intent of
                         Some p \<Rightarrow>
                           Inl (OverrideAtPost (po_name post)
                             (case get (wf_stages w) (index + 1) of
                                Some stage \<Rightarrow> st_name stage | None \<Rightarrow> lit ''task close'')
                             (ov_provider p))
                       | None \<Rightarrow> prepare_post_dispatch ready w t index (ai_trigger intent)))"

definition prepare_advance_stage ::
  "(run_request \<Rightarrow> bool) \<Rightarrow> workflow_definition \<Rightarrow> task \<Rightarrow> advance_intent \<Rightarrow> route_error + stage_route" where
  "prepare_advance_stage ready w t intent =
     (if tk_closed t then Inl TaskClosed
      else if tk_open_blockers t > 0 then Inl TaskBlocked
      else case tk_stage t of
             None \<Rightarrow> Inl TaskHasNoStage
           | Some stage \<Rightarrow>
               (case resolve_stage_position w stage of
                  None \<Rightarrow> Inl (StageNotFound stage)
                | Some (AtPost owner) \<Rightarrow>
                    prepare_swap_to_index ready w t (owner + 1) (ai_trigger intent) (ai_override intent)
                | Some (AtStage index) \<Rightarrow> advance_from_stage ready w t index intent))"

section \<open>Completing\<close>

record finished_run =
  fr_kind :: ustr
  fr_completion_transition :: "ustr option"
  fr_trigger :: ustr

definition effective_transition :: "stage_policy \<Rightarrow> ustr option \<Rightarrow> route_error + stage_transition" where
  "effective_transition policy stored =
     (case stored of
        None \<Rightarrow> Inr (pl_transition policy)
      | Some v \<Rightarrow>
          if v = lit ''manual'' then Inr Manual
          else if v = lit ''auto'' then Inr AutoTransition
          else Inl (InvalidCompletionTransition v))"

definition complete_from_stage ::
  "(run_request \<Rightarrow> bool) \<Rightarrow> workflow_definition \<Rightarrow> task \<Rightarrow> nat \<Rightarrow> finished_run option
     \<Rightarrow> route_error + stage_route option" where
  "complete_from_stage ready w t index finished =
     (let stage = wf_stages w ! index;
          trigger = stage_trigger_from_stored (map_option fr_trigger finished)
      in if map_option fr_kind finished = Some POST_KIND
         then map_sum id Some (prepare_swap_to_index ready w t (index + 1) trigger None)
         else case effective_transition (st_policy stage)
                     (Option.bind finished fr_completion_transition) of
                Inl e \<Rightarrow> Inl e
              | Inr Manual \<Rightarrow> Inr None
              | Inr AutoTransition \<Rightarrow>
                  if st_post stage \<noteq> None
                  then map_sum id Some (prepare_post_dispatch ready w t index Auto)
                  else if get (wf_stages w) (index + 1) = None then Inr None
                  else map_sum id Some (prepare_swap_to_index ready w t (index + 1) Auto None))"

definition prepare_stage_completion ::
  "(run_request \<Rightarrow> bool) \<Rightarrow> workflow_definition \<Rightarrow> task \<Rightarrow> finished_run option
     \<Rightarrow> route_error + stage_route option" where
  "prepare_stage_completion ready w t finished =
     (if tk_closed t then Inr None
      else case tk_stage t of
             None \<Rightarrow> Inl TaskHasNoStage
           | Some stage \<Rightarrow>
               (case resolve_stage_position w stage of
                  None \<Rightarrow> Inl (StageNotFound stage)
                | Some (AtPost owner) \<Rightarrow>
                    map_sum id Some
                      (prepare_swap_to_index ready w t (owner + 1)
                        (stage_trigger_from_stored (map_option fr_trigger finished)) None)
                | Some (AtStage index) \<Rightarrow> complete_from_stage ready w t index finished))"

definition resolve_stage_transition :: "workflow_definition \<Rightarrow> ustr \<Rightarrow> ustr option" where
  "resolve_stage_transition w stage_name =
     (case resolve_stage_position w stage_name of
        Some (AtStage index) \<Rightarrow> Some (transition_str (pl_transition (st_policy (wf_stages w ! index))))
      | Some (AtPost _) \<Rightarrow> Some (transition_str AutoTransition)
      | None \<Rightarrow> None)"

definition MERGE_APPROVE_POST :: ustr where
  "MERGE_APPROVE_POST = lit ''approve''"

definition stage_declares_merge_approve_post :: "workflow_definition \<Rightarrow> ustr \<Rightarrow> bool" where
  "stage_declares_merge_approve_post w stage_name =
     (case (case resolve_stage_position w stage_name of
              Some (AtStage index) \<Rightarrow> Some index | Some (AtPost owner) \<Rightarrow> Some owner | None \<Rightarrow> None) of
        None \<Rightarrow> False
      | Some owner \<Rightarrow>
          (case st_post (wf_stages w ! owner) of
             None \<Rightarrow> False
           | Some post \<Rightarrow> po_name post = MERGE_APPROVE_POST \<or> po_agent post = Some MERGE_APPROVE_POST))"

section \<open>What the routes guarantee\<close>

definition moves_to :: "workflow_definition \<Rightarrow> nat \<Rightarrow> stage_route \<Rightarrow> bool" where
  "moves_to w i r \<longleftrightarrow>
     (if i < length (wf_stages w)
      then (\<exists>rq. r = RunRoute rq \<and> rq_target rq = wf_stages w ! i \<and> rq_item_stage rq = st_name (wf_stages w ! i) \<and>
              rq_kind rq = MAIN_KIND \<and> rq_workspace rq = ForkWorkspace \<and>
              rq_completion rq = pl_transition (st_policy (wf_stages w ! i)))
      else r = CloseRoute)"

definition carries :: "stage_provider_override option \<Rightarrow> stage_route \<Rightarrow> bool" where
  "carries ov r \<longleftrightarrow>
     (case r of
        RunRoute rq \<Rightarrow>
          rq_provider_override rq = ov \<and>
          rq_overrides rq = (case ov of Some p \<Rightarrow> from_provider_override p | None \<Rightarrow> no_overrides)
      | _ \<Rightarrow> ov = None)"

definition dispatches_post :: "workflow_definition \<Rightarrow> nat \<Rightarrow> stage_route \<Rightarrow> bool" where
  "dispatches_post w i r \<longleftrightarrow>
     (\<exists>post rq. st_post (wf_stages w ! i) = Some post \<and> r = PostRoute rq \<and>
        rq_item_stage rq = st_name (wf_stages w ! i) \<and> st_name (rq_target rq) = po_name post \<and>
        rq_kind rq = POST_KIND \<and> rq_workspace rq = CurrentWorkspace \<and> rq_completion rq = AutoTransition)"

definition post_ran :: "workflow_post \<Rightarrow> task \<Rightarrow> bool" where
  "post_ran post t \<longleftrightarrow>
     (\<exists>run. latest_stage_run t = Some run \<and> sr_kind run = POST_KIND \<and> sr_stage run = po_name post \<and>
        sr_status run \<notin> {RUNNING, FAILED, CANCELLED})"

text \<open>The post is yet to run: it is not the task's latest run, or that run of it failed or was cancelled.\<close>

definition post_due :: "workflow_post \<Rightarrow> task \<Rightarrow> bool" where
  "post_due post t \<longleftrightarrow>
     (\<forall>run. latest_stage_run t = Some run \<and> sr_kind run = POST_KIND \<and> sr_stage run = po_name post \<longrightarrow>
        sr_status run \<in> {FAILED, CANCELLED})"

definition triggered_by :: "stage_trigger \<Rightarrow> stage_route \<Rightarrow> bool" where
  "triggered_by trigger r \<longleftrightarrow>
     (case r of RunRoute rq \<Rightarrow> rq_trigger rq = trigger | PostRoute rq \<Rightarrow> rq_trigger rq = trigger | CloseRoute \<Rightarrow> True)"

text \<open>The workflow with another policy at one stage.\<close>

definition repolicy :: "nat \<Rightarrow> stage_policy \<Rightarrow> workflow_definition \<Rightarrow> workflow_definition" where
  "repolicy i pl w = w\<lparr>wf_stages := (wf_stages w)[i := (wf_stages w ! i)\<lparr>st_policy := pl\<rparr>]\<rparr>"

text \<open>A two-stage workflow, \<^verbatim>\<open>build\<close> with the post \<^verbatim>\<open>commit\<close> and then \<^verbatim>\<open>pr\<close>, and a task in it.\<close>

definition sample_stage :: "ustr \<Rightarrow> stage_transition \<Rightarrow> workflow_post option \<Rightarrow> workflow_stage" where
  "sample_stage name transition post =
     \<lparr>st_name = name, st_description = None, st_agent = None, st_prompt = None, st_agent_provider = None,
      st_environment = None, st_policy = \<lparr>pl_transition = transition, pl_revision_transition = None\<rparr>, st_post = post\<rparr>"

definition sample_flow :: workflow_definition where
  "sample_flow =
     \<lparr>wf_name = None, wf_description = None,
      wf_stages = [sample_stage (lit ''build'') AutoTransition (Some (plain_post (lit ''commit''))),
                   sample_stage (lit ''pr'') Manual None],
      wf_environments = None, wf_revision_limit = None, wf_visibility = Public\<rparr>"

definition sample_run :: "ustr \<Rightarrow> ustr \<Rightarrow> ustr \<Rightarrow> ustr \<Rightarrow> stage_run" where
  "sample_run run_id stage kind status =
     \<lparr>sr_id = run_id, sr_stage = stage, sr_kind = kind, sr_agent_provider = None, sr_model = None,
      sr_effort = None, sr_status = status, sr_result = None, sr_feedback = None,
      sr_completion_transition = Some (lit ''auto''), sr_completion_bound = True,
      sr_trigger = lit ''auto'', sr_provider_override = None\<rparr>"

definition sample_task :: "stage_run list \<Rightarrow> task" where
  "sample_task runs =
     \<lparr>tk_id = lit ''t1'', tk_closed = False, tk_stage = Some (lit ''build''), tk_branch = Some (lit ''b1''),
      tk_prompt = None, tk_agent_provider = None, tk_open_blockers = 0, tk_revision_rounds = 0,
      tk_runs = runs, tk_attempts = []\<rparr>"

lemmas sample_defs = sample_stage_def sample_flow_def sample_run_def sample_task_def plain_post_def

lemma prepare_swap_spec:
  assumes "prepare_swap_to_index ready w t i trigger ov = Inr r"
  shows "moves_to w i r \<and> carries ov r"
  using assms
  by (auto simp: prepare_swap_to_index_def prepare_stage_run_for_target_def moves_to_def carries_def get_def
      target_request_def split: option.splits if_splits)

lemma prepare_post_spec:
  assumes "prepare_post_dispatch ready w t i trigger = Inr r"
  shows "dispatches_post w i r"
  using assms
  by (auto simp: prepare_post_dispatch_def prepare_stage_run_for_target_def dispatches_post_def Let_def
      post_request_def post_as_stage_def split: option.splits if_splits)

lemma post_pending_False: "post_pending post t = Inr False \<Longrightarrow> post_ran post t"
  by (auto simp: post_pending_def post_ran_def split: option.splits if_splits)

lemma post_pending_True: "post_pending post t = Inr True \<Longrightarrow> post_due post t"
  by (auto simp: post_pending_def post_due_def split: option.splits if_splits)

lemma post_ran_not_due: "post_ran post t \<Longrightarrow> \<not> post_due post t"
  by (auto simp: post_ran_def post_due_def)

lemma route_trigger:
  "prepare_swap_to_index ready w t i trigger ov = Inr r \<Longrightarrow> triggered_by trigger r"
  "prepare_post_dispatch ready w t i trigger = Inr r \<Longrightarrow> triggered_by trigger r"
  by (auto simp: prepare_swap_to_index_def prepare_post_dispatch_def prepare_stage_run_for_target_def Let_def
      triggered_by_def target_request_def post_request_def split: option.splits if_splits)

lemma advance_from_stage_cases:
  assumes "advance_from_stage ready w t i intent = Inr r"
  obtains (Post) "dispatches_post w i r" "ai_override intent = None" "triggered_by (ai_trigger intent) r"
      "\<forall>post. st_post (wf_stages w ! i) = Some post \<longrightarrow> post_due post t"
  | (Swap) "moves_to w (i + 1) r" "carries (ai_override intent) r"
      "\<forall>post. st_post (wf_stages w ! i) = Some post \<longrightarrow> post_ran post t" "triggered_by (ai_trigger intent) r"
proof (cases "st_post (wf_stages w ! i)")
  case None
  then show ?thesis
    using assms Swap prepare_swap_spec [of ready w t "i + 1"] route_trigger(1) [of ready w t "i + 1"]
    by (simp add: advance_from_stage_def Let_def)
next
  case (Some post)
  then obtain pending where p: "post_pending post t = Inr pending"
    using assms by (auto simp: advance_from_stage_def split: sum.splits)
  show ?thesis
  proof (cases pending)
    case True
    then show ?thesis
      using assms Some p Post prepare_post_spec [of ready w t i] route_trigger(2) [of ready w t i]
        post_pending_True [of post t]
      by (auto simp: advance_from_stage_def Let_def split: option.splits)
  next
    case False
    then show ?thesis
      using assms Some p Swap prepare_swap_spec [of ready w t "i + 1"] post_pending_False [of post t]
        route_trigger(1) [of ready w t "i + 1"]
      by (auto simp: advance_from_stage_def Let_def)
  qed
qed



lemma position_list_update:
  "(i < length xs \<Longrightarrow> p y = p (xs ! i)) \<Longrightarrow> position p (xs[i := y]) = position p xs"
  by (induction xs arbitrary: i) (auto split: nat.split)

lemma repolicy_beyond: "\<not> i < length (wf_stages w) \<Longrightarrow> repolicy i pl w = w"
  by (simp add: repolicy_def list_update_beyond)

lemma repolicy_stage: "i < length (wf_stages w) \<Longrightarrow> wf_stages (repolicy i pl w) ! i = (wf_stages w ! i)\<lparr>st_policy := pl\<rparr>"
  by (simp add: repolicy_def)

lemma repolicy_simps [simp]:
  "resolve_stage_position (repolicy i pl w) s = resolve_stage_position w s"
  "get (wf_stages (repolicy i pl w)) (Suc i) = get (wf_stages w) (Suc i)"
  by (simp_all add: resolve_stage_position_def repolicy_def position_list_update post_named_def get_def
      cong: option.case_cong)

lemma repolicy_post [simp]: "st_post (wf_stages (repolicy i pl w) ! i) = st_post (wf_stages w ! i)"
  by (cases "i < length (wf_stages w)") (simp_all add: repolicy_beyond repolicy_stage)

lemma prepare_repolicy [simp]:
  "prepare_swap_to_index ready (repolicy i pl w) t (Suc i) trigger ov = prepare_swap_to_index ready w t (Suc i) trigger ov"
  "prepare_post_dispatch ready (repolicy i pl w) t i trigger = prepare_post_dispatch ready w t i trigger"
proof -
  show "prepare_swap_to_index ready (repolicy i pl w) t (Suc i) trigger ov = prepare_swap_to_index ready w t (Suc i) trigger ov"
    by (simp add: prepare_swap_to_index_def)
  show "prepare_post_dispatch ready (repolicy i pl w) t i trigger = prepare_post_dispatch ready w t i trigger"
    by (cases "i < length (wf_stages w)")
      (auto simp: repolicy_beyond repolicy_stage prepare_post_dispatch_def Let_def post_as_stage_def post_request_def
        split: option.split)
qed

text \<open>An automatic completion at a stage: the post first, then the next stage, and never the close.\<close>

lemma complete_auto:
  assumes "fr_kind f \<noteq> POST_KIND" and "tk_stage t = Some s"
    and "effective_transition (st_policy (wf_stages w ! i)) (fr_completion_transition f) = Inr AutoTransition"
  shows "case complete_from_stage ready w t i (Some f) of
      Inl e \<Rightarrow> e = TaskHasNoBranch \<or> e = PrepareFailed
    | Inr None \<Rightarrow> st_post (wf_stages w ! i) = None \<and> length (wf_stages w) \<le> i + 1
    | Inr (Some r) \<Rightarrow>
        triggered_by Auto r \<and>
        (if st_post (wf_stages w ! i) = None
         then i + 1 < length (wf_stages w) \<and> moves_to w (i + 1) r \<and> carries None r
         else dispatches_post w i r)"
proof (cases "st_post (wf_stages w ! i)")
  case None
  show ?thesis
  proof (cases "i + 1 < length (wf_stages w)")
    case True
    show ?thesis
    proof (cases "prepare_swap_to_index ready w t (i + 1) Auto None")
      case (Inl e)
      with None True assms show ?thesis
        by (auto simp: complete_from_stage_def Let_def get_def prepare_swap_to_index_def
            prepare_stage_run_for_target_def split: if_splits)
    next
      case (Inr r)
      with None True assms prepare_swap_spec [OF Inr] route_trigger(1) [OF Inr] show ?thesis
        by (simp add: complete_from_stage_def Let_def get_def)
    qed
  next
    case False
    with None assms show ?thesis
      by (simp add: complete_from_stage_def Let_def get_def)
  qed
next
  case (Some post)
  show ?thesis
  proof (cases "prepare_post_dispatch ready w t i Auto")
    case (Inl e)
    with Some assms show ?thesis
      by (auto simp: complete_from_stage_def Let_def prepare_post_dispatch_def post_as_stage_def
          prepare_stage_run_for_target_def split: if_splits)
  next
    case (Inr r)
    with Some assms prepare_post_spec [OF Inr] route_trigger(2) [OF Inr] show ?thesis
      by (simp add: complete_from_stage_def Let_def)
  qed
qed

text \<open>
  C31: Where a success leads is settled by the run that earned it. A post run moves the task exactly one stage
  forward, or closes it after the last stage. A main run started under \<^verbatim>\<open>manual\<close> leaves the task parked;
  one started under \<^verbatim>\<open>auto\<close> dispatches the stage's post if there is one, else moves one stage forward, and
  never closes the task: after the last stage it parks. A run that recorded neither takes the stage's
  present policy, and one that recorded something else is refused. So once a run has its transition, or
  is a post run, no later edit of the stage's policy changes where its success leads. No completion
  carries a provider override.
\<close>

theorem completion_routes:
  assumes "\<not> tk_closed t" and "tk_stage t = Some s" and "resolve_stage_position w s = Some (AtStage i)"
  shows "(fr_kind f = POST_KIND \<longrightarrow>
       (\<forall>route. prepare_stage_completion ready w t (Some f) = Inr route \<longrightarrow>
          (\<exists>r. route = Some r \<and> moves_to w (i + 1) r \<and> carries None r))) \<and>
     (fr_kind f \<noteq> POST_KIND \<and> fr_completion_transition f = Some (lit ''manual'') \<longrightarrow>
        prepare_stage_completion ready w t (Some f) = Inr None) \<and>
     (fr_kind f \<noteq> POST_KIND \<and> fr_completion_transition f = Some (lit ''auto'') \<longrightarrow>
        (case prepare_stage_completion ready w t (Some f) of
           Inl e \<Rightarrow> e = TaskHasNoBranch \<or> e = PrepareFailed
         | Inr None \<Rightarrow> st_post (wf_stages w ! i) = None \<and> length (wf_stages w) \<le> i + 1
         | Inr (Some r) \<Rightarrow>
             triggered_by Auto r \<and>
             (if st_post (wf_stages w ! i) = None
              then i + 1 < length (wf_stages w) \<and> moves_to w (i + 1) r \<and> carries None r
              else dispatches_post w i r))) \<and>
     (\<forall>v. fr_kind f \<noteq> POST_KIND \<and> fr_completion_transition f = Some v \<and> v \<notin> {lit ''manual'', lit ''auto''} \<longrightarrow>
        prepare_stage_completion ready w t (Some f) = Inl (InvalidCompletionTransition v)) \<and>
     (fr_kind f \<noteq> POST_KIND \<and> fr_completion_transition f = None \<longrightarrow>
        prepare_stage_completion ready w t (Some f) =
        prepare_stage_completion ready w t
          (Some (f\<lparr>fr_completion_transition := Some (transition_str (pl_transition (st_policy (wf_stages w ! i))))\<rparr>))) \<and>
     (fr_kind f = POST_KIND \<or> fr_completion_transition f \<noteq> None \<longrightarrow>
        (\<forall>pl. prepare_stage_completion ready (repolicy i pl w) t (Some f) = prepare_stage_completion ready w t (Some f)))"
proof -
  have c: "prepare_stage_completion ready w t (Some g) = complete_from_stage ready w t i (Some g)" for g
    using assms by (simp add: prepare_stage_completion_def)
  have r: "prepare_stage_completion ready (repolicy i pl w) t (Some f) = complete_from_stage ready (repolicy i pl w) t i (Some f)" for pl
    using assms by (simp add: prepare_stage_completion_def)
  have "\<exists>r. route = Some r \<and> moves_to w (i + 1) r \<and> carries None r"
    if "fr_kind f = POST_KIND" "complete_from_stage ready w t i (Some f) = Inr route" for route
    using that prepare_swap_spec [of ready w t "i + 1" "stage_trigger_from_stored (Some (fr_trigger f))" None]
    by (cases "prepare_swap_to_index ready w t (i + 1) (stage_trigger_from_stored (Some (fr_trigger f))) None")
       (auto simp: complete_from_stage_def)
  moreover have "complete_from_stage ready (repolicy i pl w) t i (Some f) = complete_from_stage ready w t i (Some f)"
    if "fr_kind f = POST_KIND \<or> fr_completion_transition f \<noteq> None" for pl
    using that by (auto simp: complete_from_stage_def effective_transition_def Let_def)
  moreover have "complete_from_stage ready w t i (Some f) = complete_from_stage ready w t i
      (Some (f\<lparr>fr_completion_transition := Some (transition_str (pl_transition (st_policy (wf_stages w ! i))))\<rparr>))"
    if "fr_kind f \<noteq> POST_KIND" "fr_completion_transition f = None"
    using that by (cases "pl_transition (st_policy (wf_stages w ! i))")
      (simp_all add: complete_from_stage_def effective_transition_def Let_def)
  ultimately show ?thesis
    using complete_auto [OF _ assms(2), of f w i ready]
    by (simp add: c r complete_from_stage_def effective_transition_def Let_def)
qed

theorem completion_routes_witness:
  "\<exists>r. prepare_stage_completion (\<lambda>_. True) sample_flow
      (sample_task [sample_run (lit ''r1'') (lit ''build'') MAIN_KIND SUCCEEDED])
      (Some \<lparr>fr_kind = MAIN_KIND, fr_completion_transition = Some (lit ''auto''), fr_trigger = lit ''auto''\<rparr>)
      = Inr (Some r) \<and> dispatches_post sample_flow 0 r"
proof -
  let ?t = "sample_task [sample_run (lit ''r1'') (lit ''build'') MAIN_KIND SUCCEEDED]"
  let ?f = "\<lparr>fr_kind = MAIN_KIND, fr_completion_transition = Some (lit ''auto''), fr_trigger = lit ''auto''\<rparr>"
  have p: "resolve_stage_position sample_flow (lit ''build'') = Some (AtStage 0)"
    by code_simp
  obtain r where r: "prepare_stage_completion (\<lambda>_. True) sample_flow ?t (Some ?f) = Inr (Some r)"
    by (auto simp: prepare_stage_completion_def complete_from_stage_def effective_transition_def
        prepare_post_dispatch_def prepare_stage_run_for_target_def post_as_stage_def p sample_defs Let_def
        resolve_stage_position_def)
  have t: "\<not> tk_closed ?t" "tk_stage ?t = Some (lit ''build'')"
    by (simp_all add: sample_defs)
  have "fr_kind ?f \<noteq> POST_KIND" "st_post (wf_stages sample_flow ! 0) \<noteq> None"
    by (simp_all add: sample_defs)
  with completion_routes [OF t p, of ?f "\<lambda>_. True", THEN conjunct2, THEN conjunct2, THEN conjunct1] r
  show ?thesis
    by simp
qed

end
