(* ===== verification/Task_Engine.thy ===== *)
theory Task_Engine
  imports Stage_Routing
begin

text \<open>
  A task under its HTTP actions: advancing (\<^verbatim>\<open>http_api/task_actions.rs\<close> \<^verbatim>\<open>advance_stage\<close>), completing a run
  (\<^verbatim>\<open>complete_stage\<close>), and landing the transition a route asks for (\<^verbatim>\<open>task_creator/lifecycle.rs\<close>). Each action
  holds the task's mutation lease from its reads until its transition has landed, so it is one function of
  the task; what the daemon, git and the setup commands do is its \<open>outcome\<close> argument. The reply to a landing
  that failed, the task's pull-request columns, its session files and its events are left out, and so is the
  recovery of an operation whose delivery stayed uncertain.
\<close>

section \<open>Landing a transition\<close>

text \<open>
  \<open>oc_setup\<close> is the error of the workspace and stage setup commands, which a post does not run. \<open>Landed\<close>
  carries the branch of a workspace that is not the current one. \<open>OperationPending\<close> is the refusal while an
  earlier operation awaits reconciliation. \<open>SessionGone\<close> also covers a run whose completion context is a
  legacy one, which is replaced the same way.
\<close>

datatype landing =
    Landed "ustr option"
  | OperationPending
  | KillFailed
  | SpawnRejected ustr

datatype delivery = Delivered | SessionGone | DeliveryFailed

record outcome =
  oc_setup :: "ustr option"
  oc_landing :: landing
  oc_delivery :: delivery
  oc_close :: bool

text \<open>The provider, model and effort a request resolves to are the spawn's business.\<close>

type_synonym resolution = "run_request \<Rightarrow> ustr \<times> ustr option \<times> ustr option"

definition request_run ::
  "resolution \<Rightarrow> ustr \<Rightarrow> run_request \<Rightarrow> ustr \<Rightarrow> ustr option \<Rightarrow> ustr option \<Rightarrow> bool \<Rightarrow> stage_run" where
  "request_run resolve run_id rq status result feedback bound =
     (let (p, m, e) = resolve rq
      in \<lparr>sr_id = run_id, sr_stage = st_name (rq_target rq), sr_kind = rq_kind rq, sr_agent_provider = Some p,
          sr_model = m, sr_effort = e, sr_status = status, sr_result = result, sr_feedback = feedback,
          sr_completion_transition = Some (transition_str (rq_completion rq)), sr_completion_bound = bound,
          sr_trigger = stage_trigger_str (rq_trigger rq), sr_provider_override = rq_provider_override rq\<rparr>)"

definition SPAWN_FAILED :: "ustr \<Rightarrow> ustr" where
  "SPAWN_FAILED error = lit ''failed to start stage run: '' @ error"

definition record_stage_transition_failure :: "resolution \<Rightarrow> ustr \<Rightarrow> run_request \<Rightarrow> ustr \<Rightarrow> task \<Rightarrow> task" where
  "record_stage_transition_failure resolve run_id rq error t =
     insert_stage_run
       (request_run resolve run_id rq FAILED
          (Some (lit ''failed to start stage '' @ st_name (rq_target rq) @ lit '': '' @ error)) (rq_feedback rq) False) t"

definition fail_bound_stage_run :: "ustr \<Rightarrow> ustr \<Rightarrow> task \<Rightarrow> task" where
  "fail_bound_stage_run run_id error t =
     (case finish_stage_run run_id FAILED (Some (SPAWN_FAILED error)) (Some (lit ''stage spawn failed'')) t of
        Some t' \<Rightarrow> t' | None \<Rightarrow> t)"

definition record_stage_transition_run :: "resolution \<Rightarrow> ustr \<Rightarrow> run_request \<Rightarrow> task \<Rightarrow> task" where
  "record_stage_transition_run resolve run_id rq t =
     insert_stage_run (request_run resolve run_id rq RUNNING None (rq_feedback rq) True) t"

text \<open>\<^verbatim>\<open>reconcile_stage_operation_db\<close>: the row of an open task follows the run that now serves it.\<close>

definition reconcile_stage_operation :: "run_request \<Rightarrow> ustr option \<Rightarrow> task \<Rightarrow> task option" where
  "reconcile_stage_operation rq branch t =
     (if tk_closed t then None
      else Some (t\<lparr>tk_stage := Some (rq_item_stage rq),
                   tk_branch := (case branch of Some b \<Rightarrow> Some b | None \<Rightarrow> tk_branch t)\<rparr>))"

definition CLOSED_BEFORE_LANDING :: "task \<Rightarrow> ustr" where
  "CLOSED_BEFORE_LANDING t = lit ''task '' @ tk_id t @ lit '' closed before stage transition landed''"

definition finish_deferred_stage_setup :: "outcome \<Rightarrow> run_request \<Rightarrow> ustr option" where
  "finish_deferred_stage_setup oc rq = (if rq_kind rq = POST_KIND then None else oc_setup oc)"

definition spawn_prepared_stage_run :: "resolution \<Rightarrow> ustr \<Rightarrow> outcome \<Rightarrow> run_request \<Rightarrow> task \<Rightarrow> task" where
  "spawn_prepared_stage_run resolve run_id oc rq t =
     (if oc_landing oc = OperationPending then t
      else case finish_deferred_stage_setup oc rq of
             Some error \<Rightarrow> record_stage_transition_failure resolve run_id rq error t
           | None \<Rightarrow>
               (let accepted = finish_latest_running_stage_run SUCCEEDED t;
                    recorded = record_stage_transition_run resolve run_id rq accepted
                in case oc_landing oc of
                     OperationPending \<Rightarrow> t
                   | KillFailed \<Rightarrow> accepted
                   | SpawnRejected error \<Rightarrow> fail_bound_stage_run run_id error recorded
                   | Landed branch \<Rightarrow>
                       (case reconcile_stage_operation rq branch recorded of
                          Some t' \<Rightarrow> t'
                        | None \<Rightarrow> fail_bound_stage_run run_id (CLOSED_BEFORE_LANDING t) recorded)))"

definition post_run :: "resolution \<Rightarrow> ustr \<Rightarrow> stage_run option \<Rightarrow> run_request \<Rightarrow> stage_run" where
  "post_run resolve run_id inherited rq =
     (let run = request_run resolve run_id rq RUNNING None None True
      in case inherited of
           None \<Rightarrow> run
         | Some r \<Rightarrow>
             run\<lparr>sr_agent_provider := sr_agent_provider r, sr_model := sr_model r, sr_effort := sr_effort r\<rparr>)"

text \<open>\<^verbatim>\<open>finalize_post_operation\<close>: the run the post continues is accepted, the post's run starts.\<close>

definition finalize_post_operation :: "resolution \<Rightarrow> ustr \<Rightarrow> run_request \<Rightarrow> task \<Rightarrow> task" where
  "finalize_post_operation resolve run_id rq t =
     (let inherited = latest_stage_run t;
          t1 = (case inherited of
                  Some run \<Rightarrow>
                    if sr_status run = RUNNING
                    then (case finish_stage_run (sr_id run) SUCCEEDED None None t of Some t' \<Rightarrow> t' | None \<Rightarrow> t)
                    else t
                | None \<Rightarrow> t)
      in insert_stage_run (post_run resolve run_id inherited rq) t1)"

definition dispatch_prepared_post :: "resolution \<Rightarrow> ustr \<Rightarrow> outcome \<Rightarrow> run_request \<Rightarrow> task \<Rightarrow> task" where
  "dispatch_prepared_post resolve run_id oc rq t =
     (if (case latest_stage_run t of
            Some run \<Rightarrow> sr_kind run = POST_KIND \<and> sr_status run = RUNNING \<and> sr_stage run = st_name (rq_target rq)
          | None \<Rightarrow> False)
      then t
      else case oc_delivery oc of
             Delivered \<Rightarrow> finalize_post_operation resolve run_id rq t
           | SessionGone \<Rightarrow> spawn_prepared_stage_run resolve run_id oc rq t
           | DeliveryFailed \<Rightarrow> t)"

definition close_pipeline_item :: "task \<Rightarrow> task" where
  "close_pipeline_item t = cancel_running_stage_runs (t\<lparr>tk_closed := True\<rparr>)"

definition execute_stage_transition :: "resolution \<Rightarrow> ustr \<Rightarrow> outcome \<Rightarrow> stage_route \<Rightarrow> task \<Rightarrow> task" where
  "execute_stage_transition resolve run_id oc route t =
     (case route of
        RunRoute rq \<Rightarrow> spawn_prepared_stage_run resolve run_id oc rq t
      | PostRoute rq \<Rightarrow> dispatch_prepared_post resolve run_id oc rq t
      | CloseRoute \<Rightarrow> if oc_close oc then close_pipeline_item t else t)"

section \<open>Advancing a task\<close>

datatype action_error =
    StaleAdvance ustr
  | RouteRefused route_error
  | EmptyRunId
  | AmbiguousRun
  | InvalidStatus ustr
  | VerdictConflict ustr
  | NoRunToComplete
  | StaleCompletion ustr ustr
  | NotCompletable ustr ustr

definition running_post :: "task \<Rightarrow> bool" where
  "running_post t =
     (case latest_stage_run t of Some run \<Rightarrow> sr_kind run = POST_KIND \<and> sr_status run = RUNNING | None \<Rightarrow> False)"

definition advance_stage ::
  "(run_request \<Rightarrow> bool) \<Rightarrow> resolution \<Rightarrow> workflow_definition \<Rightarrow> ustr \<Rightarrow> outcome \<Rightarrow> ustr option \<Rightarrow> advance_intent
     \<Rightarrow> task \<Rightarrow> action_error + task" where
  "advance_stage ready resolve w run_id oc expected intent t =
     (if (case expected of Some e \<Rightarrow> map_option sr_id (latest_stage_run t) \<noteq> Some e | None \<Rightarrow> False)
      then Inl (StaleAdvance (the expected))
      else if running_post t then Inr t
      else case prepare_advance_stage ready w t intent of
             Inl e \<Rightarrow> Inl (RouteRefused e)
           | Inr route \<Rightarrow> Inr (execute_stage_transition resolve run_id oc route t))"

section \<open>Completing a run\<close>

definition resolve_action_run :: "task \<Rightarrow> ustr option \<Rightarrow> action_error + stage_run option" where
  "resolve_action_run t requested =
     (if (case requested of Some r \<Rightarrow> trim r = [] | None \<Rightarrow> False) then Inl EmptyRunId
      else case running_stage_runs t of
             [] \<Rightarrow> Inr (latest_stage_run t)
           | [run] \<Rightarrow> Inr (Some run)
           | running \<Rightarrow>
               (case find (\<lambda>run. Some (sr_id run) = requested) running of
                  Some run \<Rightarrow> Inr (Some run)
                | None \<Rightarrow> Inl AmbiguousRun))"

text \<open>\<open>cp_result\<close> is the verdict as it is stored: the request's status, summary and metadata serialised.\<close>

record completion =
  cp_status :: ustr
  cp_result :: ustr
  cp_summary :: ustr
  cp_run_id :: "ustr option"
  cp_attempt_key :: "ustr option"

datatype completion_reply =
    Replayed
  | AlreadyClosed
  | VerdictRecorded
  | RouteFailed route_error
  | ParkedAtStage
  | Transitioned

definition contextless_key :: "completion \<Rightarrow> ustr option" where
  "contextless_key c = (if cp_run_id c = None then cp_attempt_key c else None)"

definition record_attempt :: "completion \<Rightarrow> ustr \<Rightarrow> task \<Rightarrow> task" where
  "record_attempt c run_id t =
     (case contextless_key c of
        Some key \<Rightarrow> t\<lparr>tk_attempts := tk_attempts t @ [(key, run_id, cp_result c)]\<rparr>
      | None \<Rightarrow> t)"

definition run_status_of :: "completion \<Rightarrow> ustr" where
  "run_status_of c = (if cp_status c = lit ''success'' then SUCCEEDED else FAILED)"

definition same_verdict :: "completion \<Rightarrow> stage_run \<Rightarrow> bool" where
  "same_verdict c run \<longleftrightarrow> sr_status run = run_status_of c \<and> sr_result run = Some (cp_result c)"

definition completed_run_id :: "(ustr \<Rightarrow> ustr \<Rightarrow> ustr option) \<Rightarrow> completion \<Rightarrow> stage_run \<Rightarrow> ustr" where
  "completed_run_id legacy_retry c current =
     (let named = (case cp_run_id c of Some r \<Rightarrow> r | None \<Rightarrow> sr_id current)
      in case cp_attempt_key c of
           Some key \<Rightarrow> (case legacy_retry named key of Some original \<Rightarrow> original | None \<Rightarrow> named)
         | None \<Rightarrow> named)"

datatype record_result =
    RecordReplayed task
  | RecordClosed
  | RecordFinished task finished_run

text \<open>Recording the verdict: the first half of the action, one pass over the database.\<close>

definition record_verdict ::
  "(ustr \<Rightarrow> ustr \<Rightarrow> ustr option) \<Rightarrow> completion \<Rightarrow> stage_run \<Rightarrow> task \<Rightarrow> action_error + record_result" where
  "record_verdict legacy_retry c current t =
     (let run_id = completed_run_id legacy_retry c current
      in if sr_id current \<noteq> run_id
         then (case find_stage_run t run_id of
                 Some prior \<Rightarrow>
                   if same_verdict c prior then Inr (RecordReplayed (record_attempt c run_id t))
                   else Inl (StaleCompletion run_id (sr_id current))
               | None \<Rightarrow> Inl (StaleCompletion run_id (sr_id current)))
         else if same_verdict c current then Inr (RecordReplayed (record_attempt c run_id t))
         else if sr_status current \<notin> {RUNNING, SUCCEEDED, FAILED}
         then Inl (NotCompletable run_id (sr_status current))
         else case finish_stage_run run_id (run_status_of c) (Some (cp_result c)) (Some (cp_summary c)) t of
                None \<Rightarrow> Inl NoRunToComplete
              | Some t' \<Rightarrow>
                  Inr (RecordFinished (record_attempt c run_id t')
                    \<lparr>fr_kind = sr_kind current, fr_completion_transition = sr_completion_transition current,
                     fr_trigger = sr_trigger current\<rparr>))"

definition find_attempt :: "task \<Rightarrow> ustr \<Rightarrow> (ustr \<times> ustr) option" where
  "find_attempt t key = map_of (tk_attempts t) key"

definition record_completion ::
  "(ustr \<Rightarrow> ustr \<Rightarrow> ustr option) \<Rightarrow> completion \<Rightarrow> task \<Rightarrow> action_error + record_result" where
  "record_completion legacy_retry c t =
     (case Option.bind (contextless_key c) (find_attempt t) of
        Some (original, result) \<Rightarrow>
          if result \<noteq> cp_result c then Inl (VerdictConflict original) else Inr (RecordReplayed t)
      | None \<Rightarrow>
          if tk_closed t then Inr RecordClosed
          else case resolve_action_run t (cp_run_id c) of
                 Inl e \<Rightarrow> Inl e
               | Inr None \<Rightarrow> Inl NoRunToComplete
               | Inr (Some current) \<Rightarrow> record_verdict legacy_retry c current t)"

definition complete_stage ::
  "(run_request \<Rightarrow> bool) \<Rightarrow> resolution \<Rightarrow> (ustr \<Rightarrow> ustr \<Rightarrow> ustr option) \<Rightarrow> workflow_definition \<Rightarrow> ustr \<Rightarrow> outcome
     \<Rightarrow> completion \<Rightarrow> task \<Rightarrow> action_error + (task \<times> completion_reply)" where
  "complete_stage ready resolve legacy_retry w run_id oc c t =
     (if cp_status c \<noteq> lit ''success'' \<and> cp_status c \<noteq> lit ''failure'' then Inl (InvalidStatus (cp_status c))
      else case record_completion legacy_retry c t of
             Inl e \<Rightarrow> Inl e
           | Inr (RecordReplayed t') \<Rightarrow> Inr (t', Replayed)
           | Inr RecordClosed \<Rightarrow> Inr (t, AlreadyClosed)
           | Inr (RecordFinished t' finished) \<Rightarrow>
               if cp_status c \<noteq> lit ''success'' then Inr (t', VerdictRecorded)
               else case prepare_stage_completion ready w t' (Some finished) of
                      Inl e \<Rightarrow> Inr (t', RouteFailed e)
                    | Inr None \<Rightarrow> Inr (t', ParkedAtStage)
                    | Inr (Some route) \<Rightarrow> Inr (execute_stage_transition resolve run_id oc route t', Transitioned))"

section \<open>Run histories\<close>

lemma latest_stage_run_snoc [simp]: "tk_runs t = runs @ [run] \<Longrightarrow> latest_stage_run t = Some run"
  by (simp add: latest_stage_run_def newest_def)

lemma latest_stage_run_Nil [simp]: "tk_runs t = [] \<Longrightarrow> latest_stage_run t = None"
  by (simp add: latest_stage_run_def newest_def)

lemma latest_stage_run_mem: "latest_stage_run t = Some run \<Longrightarrow> run \<in> set (tk_runs t)"
  by (cases "tk_runs t" rule: rev_cases) (auto simp: latest_stage_run_def newest_def)

lemma running_stage_runs_Nil: "running_stage_runs t = [] \<longleftrightarrow> (\<forall>run \<in> set (tk_runs t). sr_status run \<noteq> RUNNING)"
  by (simp add: running_stage_runs_def filter_empty_conv)

lemma newest_None: "newest P t = None \<longleftrightarrow> (\<forall>run \<in> set (tk_runs t). \<not> P run)"
  by (auto simp: newest_def find_None_iff)

lemma finish_latest_settled [simp]:
  assumes "running_stage_runs t = []"
  shows "finish_latest_running_stage_run status t = t"
proof -
  have "newest (\<lambda>run. sr_status run = RUNNING) t = None"
    using assms by (simp add: running_stage_runs_Nil newest_None)
  then show ?thesis
    by (simp add: finish_latest_running_stage_run_def)
qed

lemma cancel_settled: "\<forall>run \<in> set (tk_runs t). sr_status run = SUCCEEDED \<Longrightarrow> cancel_running_stage_runs t = t"
  by (simp add: cancel_running_stage_runs_def map_idI)

lemma finish_stage_run_last:
  assumes "tk_runs t = runs @ [run]" and "sr_id run \<notin> sr_id ` set runs"
  shows "finish_stage_run (sr_id run) status result feedback t =
    Some (t\<lparr>tk_runs := runs @ [finish_run status result feedback run]\<rparr>)"
proof -
  have "find_stage_run t (sr_id run) \<noteq> None"
    using assms(1) by (auto simp: find_stage_run_def find_None_iff)
  moreover have "map (\<lambda>r. if sr_id r = sr_id run then finish_run status result feedback r else r) runs = runs"
    using assms(2) by (intro map_idI) (auto simp: image_iff)
  ultimately show ?thesis
    using assms(1) by (simp add: finish_stage_run_def)
qed

section \<open>Driving a workflow\<close>

text \<open>
  A task whose every run succeeds: the verdict of the current run is recorded, and where that parks the task
  its operator advances it.
\<close>

definition all_well :: "ustr option \<Rightarrow> outcome" where
  "all_well branch = \<lparr>oc_setup = None, oc_landing = Landed branch, oc_delivery = Delivered, oc_close = True\<rparr>"

definition success_verdict :: "ustr \<Rightarrow> completion" where
  "success_verdict result =
     \<lparr>cp_status = lit ''success'', cp_result = result, cp_summary = [], cp_run_id = None, cp_attempt_key = None\<rparr>"

definition drive_step :: "resolution \<Rightarrow> workflow_definition \<Rightarrow> ustr option \<Rightarrow> ustr \<Rightarrow> ustr \<Rightarrow> task \<Rightarrow> task" where
  "drive_step resolve w branch result run_id t =
     (case complete_stage (\<lambda>_. True) resolve (\<lambda>_ _. None) w run_id (all_well branch) (success_verdict result) t of
        Inr (t', ParkedAtStage) \<Rightarrow>
          (case advance_stage (\<lambda>_. True) resolve w run_id (all_well branch) None
                  \<lparr>ai_trigger = Operator, ai_override = None\<rparr> t' of
             Inr t'' \<Rightarrow> t''
           | Inl _ \<Rightarrow> t')
      | Inr (t', _) \<Rightarrow> t'
      | Inl _ \<Rightarrow> t)"

definition settled_at :: "workflow_definition \<Rightarrow> nat \<Rightarrow> task \<Rightarrow> bool" where
  "settled_at w i t \<longleftrightarrow>
     \<not> tk_closed t \<and> tk_branch t \<noteq> None \<and> tk_open_blockers t = 0 \<and>
     i < length (wf_stages w) \<and> tk_stage t = Some (st_name (wf_stages w ! i)) \<and>
     (\<forall>run \<in> set (tk_runs t). sr_status run = SUCCEEDED)"

definition working_at :: "workflow_definition \<Rightarrow> nat \<Rightarrow> bool \<Rightarrow> stage_run list \<Rightarrow> stage_run \<Rightarrow> task \<Rightarrow> bool" where
  "working_at w i post runs run t \<longleftrightarrow>
     tk_runs t = runs @ [run] \<and> sr_status run = RUNNING \<and> sr_id run \<notin> sr_id ` set runs \<and>
     settled_at w i (t\<lparr>tk_runs := runs\<rparr>) \<and>
     (if post then sr_kind run = POST_KIND
      else sr_kind run = MAIN_KIND \<and>
        sr_completion_transition run = Some (transition_str (pl_transition (st_policy (wf_stages w ! i)))))"

lemma working_verdict:
  fixes result :: ustr
  assumes "working_at w i post runs run t"
  defines "t1 \<equiv> t\<lparr>tk_runs := runs @ [finish_run SUCCEEDED (Some result) (Some []) run]\<rparr>"
  shows "record_completion (\<lambda>_ _. None) (success_verdict result) t =
      Inr (RecordFinished t1 \<lparr>fr_kind = sr_kind run, fr_completion_transition = sr_completion_transition run,
        fr_trigger = sr_trigger run\<rparr>)"
    and "settled_at w i t1"
proof -
  have w: "tk_runs t = runs @ [run]" "sr_status run = RUNNING" "sr_id run \<notin> sr_id ` set runs"
    "\<forall>r \<in> set runs. sr_status r = SUCCEEDED" "\<not> tk_closed t"
    using assms(1) by (auto simp: working_at_def settled_at_def)
  then have "running_stage_runs t = [run]"
    by (simp add: running_stage_runs_def filter_empty_conv)
  then show "record_completion (\<lambda>_ _. None) (success_verdict result) t =
      Inr (RecordFinished t1 \<lparr>fr_kind = sr_kind run, fr_completion_transition = sr_completion_transition run,
        fr_trigger = sr_trigger run\<rparr>)"
    using w finish_stage_run_last [OF w(1,3)]
    by (simp add: record_completion_def record_verdict_def resolve_action_run_def success_verdict_def
        contextless_key_def completed_run_id_def same_verdict_def run_status_of_def record_attempt_def t1_def)
  show "settled_at w i t1"
    using assms(1) by (auto simp: working_at_def settled_at_def t1_def finish_run_def)
qed

text \<open>What a verdict leads to: the stage's post, the next stage's main run, or the closed task.\<close>

definition next_work ::
  "workflow_definition \<Rightarrow> nat \<Rightarrow> bool \<Rightarrow> task \<Rightarrow> ustr \<Rightarrow> task \<Rightarrow> bool" where
  "next_work w i post t run_id t' \<longleftrightarrow>
     (if \<not> post \<and> st_post (wf_stages w ! i) \<noteq> None
      then \<exists>run. working_at w i True (tk_runs t) run t' \<and> sr_id run = run_id \<and>
             sr_stage run = po_name (the (st_post (wf_stages w ! i)))
      else if i + 1 < length (wf_stages w)
      then \<exists>run. working_at w (i + 1) False (tk_runs t) run t' \<and> sr_id run = run_id \<and>
             sr_stage run = st_name (wf_stages w ! (i + 1))
      else tk_closed t' \<and> tk_runs t' = tk_runs t)"

lemma settled_not_running: "settled_at w i t \<Longrightarrow> running_stage_runs t = []"
  by (simp add: settled_at_def running_stage_runs_Nil)

lemma request_run_simps [simp]:
  "sr_id (request_run resolve run_id rq status result feedback bound) = run_id"
  "sr_stage (request_run resolve run_id rq status result feedback bound) = st_name (rq_target rq)"
  "sr_kind (request_run resolve run_id rq status result feedback bound) = rq_kind rq"
  "sr_status (request_run resolve run_id rq status result feedback bound) = status"
  "sr_completion_transition (request_run resolve run_id rq status result feedback bound) =
     Some (transition_str (rq_completion rq))"
  by (simp_all add: request_run_def split: prod.split)

lemma post_run_simps [simp]:
  "sr_id (post_run resolve run_id inherited rq) = run_id"
  "sr_stage (post_run resolve run_id inherited rq) = st_name (rq_target rq)"
  "sr_kind (post_run resolve run_id inherited rq) = rq_kind rq"
  "sr_status (post_run resolve run_id inherited rq) = RUNNING"
  by (simp_all add: post_run_def Let_def split: option.split)

lemma swap_next_work:
  assumes "settled_at w i t" and "run_id \<notin> sr_id ` set (tk_runs t)"
    and "prepare_swap_to_index ready w t (i + 1) trigger None = Inr route"
    and "post \<or> st_post (wf_stages w ! i) = None"
  shows "next_work w i post t run_id (execute_stage_transition resolve run_id (all_well branch) route t)"
proof (cases "i + 1 < length (wf_stages w)")
  case True
  then obtain rq where r: "route = RunRoute rq" "rq_target rq = wf_stages w ! (i + 1)" "rq_kind rq = MAIN_KIND"
    "rq_item_stage rq = st_name (wf_stages w ! (i + 1))"
    "rq_completion rq = pl_transition (st_policy (wf_stages w ! (i + 1)))"
    using prepare_swap_spec [OF assms(3)] by (auto simp: moves_to_def)
  have "\<not> tk_closed t" "tk_branch t \<noteq> None"
    using assms(1) by (auto simp: settled_at_def)
  then show ?thesis
    using True r assms(1,2,4) settled_not_running [OF assms(1)]
    by (auto simp: next_work_def execute_stage_transition_def all_well_def spawn_prepared_stage_run_def Let_def
        finish_deferred_stage_setup_def
        record_stage_transition_run_def reconcile_stage_operation_def insert_stage_run_def working_at_def
        settled_at_def split: option.split)
next
  case False
  then have "route = CloseRoute"
    using prepare_swap_spec [OF assms(3)] by (simp add: moves_to_def)
  then show ?thesis
    using False assms(1,4) cancel_settled [of "t\<lparr>tk_closed := True\<rparr>"]
    by (auto simp: next_work_def execute_stage_transition_def all_well_def close_pipeline_item_def settled_at_def)
qed

lemma post_next_work:
  assumes "settled_at w i t" and "run_id \<notin> sr_id ` set (tk_runs t)"
    and "prepare_post_dispatch ready w t i trigger = Inr route"
  shows "next_work w i False t run_id (execute_stage_transition resolve run_id (all_well branch) route t)"
proof -
  obtain post rq where r: "st_post (wf_stages w ! i) = Some post" "route = PostRoute rq"
    "st_name (rq_target rq) = po_name post" "rq_kind rq = POST_KIND"
    using prepare_post_spec [OF assms(3)] by (auto simp: dispatches_post_def)
  have settled: "\<forall>run. latest_stage_run t = Some run \<longrightarrow> sr_status run = SUCCEEDED"
    using assms(1) by (auto simp: settled_at_def dest: latest_stage_run_mem)
  then have "dispatch_prepared_post resolve run_id (all_well branch) rq t =
      insert_stage_run (post_run resolve run_id (latest_stage_run t) rq) t"
    by (cases "latest_stage_run t")
      (simp_all add: dispatch_prepared_post_def all_well_def finalize_post_operation_def Let_def)
  then show ?thesis
    using r assms(1,2) by (auto simp: next_work_def execute_stage_transition_def insert_stage_run_def working_at_def
        settled_at_def)
qed

lemma swap_ready:
  assumes "settled_at w i t"
  obtains route where "prepare_swap_to_index (\<lambda>_. True) w t (i + 1) trigger None = Inr route"
  using assms
  by (cases "get (wf_stages w) (i + 1)")
    (auto simp: prepare_swap_to_index_def prepare_stage_run_for_target_def settled_at_def)

lemma post_ready:
  assumes "settled_at w i t" and "st_post (wf_stages w ! i) \<noteq> None"
  obtains route where "prepare_post_dispatch (\<lambda>_. True) w t i trigger = Inr route"
  using assms
  by (auto simp: prepare_post_dispatch_def prepare_stage_run_for_target_def settled_at_def post_as_stage_def Let_def)

lemma settled_position:
  assumes "settled_at w i t" and "distinct (map st_name (wf_stages w))"
  obtains "tk_stage t = Some (st_name (wf_stages w ! i))" "\<not> tk_closed t" "tk_open_blockers t = 0"
    "resolve_stage_position w (st_name (wf_stages w ! i)) = Some (AtStage i)"
  using assms resolve_stage [OF assms(2)] by (auto simp: settled_at_def)

lemma advance_settled:
  assumes s: "settled_at w i t" and d: "distinct (map st_name (wf_stages w))"
    and r: "latest_stage_run t = Some run" "sr_kind run = MAIN_KIND"
    and f: "run_id \<notin> sr_id ` set (tk_runs t)"
  obtains t' where "advance_stage (\<lambda>_. True) resolve w run_id (all_well branch) None
      \<lparr>ai_trigger = Operator, ai_override = None\<rparr> t = Inr t'" "next_work w i False t run_id t'"
proof (cases "st_post (wf_stages w ! i)")
  case None
  obtain route where "prepare_swap_to_index (\<lambda>_. True) w t (i + 1) Operator None = Inr route"
    using swap_ready [OF s] .
  then show ?thesis
    using that swap_next_work [OF s f, of "\<lambda>_. True" Operator route False] None r
    by (cases rule: settled_position [OF s d])
      (simp add: advance_stage_def running_post_def prepare_advance_stage_def advance_from_stage_def)
next
  case (Some post)
  obtain route where "prepare_post_dispatch (\<lambda>_. True) w t i Operator = Inr route"
    using post_ready [OF s] Some by blast
  then show ?thesis
    using that post_next_work [OF s f, of "\<lambda>_. True" Operator route] Some r
    by (cases rule: settled_position [OF s d])
      (simp add: advance_stage_def running_post_def prepare_advance_stage_def advance_from_stage_def post_pending_def)
qed

lemma success_status [simp]: "cp_status (success_verdict result) = lit ''success''"
  by (simp add: success_verdict_def)

lemma drive_step_next:
  fixes result :: ustr
  assumes "working_at w i post runs run t" and "distinct (map st_name (wf_stages w))"
    and "run_id \<notin> sr_id ` set (runs @ [run])"
  defines "t1 \<equiv> t\<lparr>tk_runs := runs @ [finish_run SUCCEEDED (Some result) (Some []) run]\<rparr>"
  shows "next_work w i post t1 run_id (drive_step resolve w branch result run_id t)"
proof -
  note verdict = working_verdict [OF assms(1), of result, folded t1_def]
  have s: "settled_at w i t1"
    by (rule verdict)
  have fresh: "run_id \<notin> sr_id ` set (tk_runs t1)"
    using assms(3) by (simp add: t1_def finish_run_def)
  have i: "i < length (wf_stages w)" "tk_stage t1 = Some (st_name (wf_stages w ! i))" "\<not> tk_closed t1"
    "tk_open_blockers t1 = 0" "tk_branch t1 \<noteq> None"
    using s by (auto simp: settled_at_def)
  have at: "resolve_stage_position w (st_name (wf_stages w ! i)) = Some (AtStage i)"
    by (rule resolve_stage [OF assms(2) i(1)])
  have last: "latest_stage_run t1 = Some (finish_run SUCCEEDED (Some result) (Some []) run)"
    by (simp add: t1_def)
  have complete: "complete_stage (\<lambda>_. True) resolve (\<lambda>_ _. None) w run_id (all_well branch) (success_verdict result) t =
      (case complete_from_stage (\<lambda>_. True) w t1 i (Some \<lparr>fr_kind = sr_kind run,
              fr_completion_transition = sr_completion_transition run, fr_trigger = sr_trigger run\<rparr>) of
         Inl e \<Rightarrow> Inr (t1, RouteFailed e)
       | Inr None \<Rightarrow> Inr (t1, ParkedAtStage)
       | Inr (Some route) \<Rightarrow> Inr (execute_stage_transition resolve run_id (all_well branch) route t1, Transitioned))"
    by (cases rule: settled_position [OF s assms(2)])
      (simp add: complete_stage_def verdict(1) prepare_stage_completion_def)
  show ?thesis
  proof (cases "post")
    case True
    then have k: "sr_kind run = POST_KIND"
      using assms(1) by (simp add: working_at_def)
    obtain route where "prepare_swap_to_index (\<lambda>_. True) w t1 (i + 1)
        (stage_trigger_from_stored (Some (sr_trigger run))) None = Inr route"
      using swap_ready [OF s] .
    then show ?thesis
      using k True swap_next_work [OF s fresh, of "\<lambda>_. True" _ route post]
      by (simp add: drive_step_def complete complete_from_stage_def effective_transition_def Let_def)
  next
    case False
    then have k: "sr_kind run = MAIN_KIND"
      "sr_completion_transition run = Some (transition_str (pl_transition (st_policy (wf_stages w ! i))))"
      using assms(1) by (simp_all add: working_at_def)
    have "sr_kind (finish_run SUCCEEDED (Some result) (Some []) run) = MAIN_KIND"
      by (simp add: k finish_run_def)
    with last obtain t' where parked: "advance_stage (\<lambda>_. True) resolve w run_id (all_well branch) None
        \<lparr>ai_trigger = Operator, ai_override = None\<rparr> t1 = Inr t'" "next_work w i False t1 run_id t'"
      using advance_settled [OF s assms(2) _ _ fresh] by blast
    obtain route where swap: "prepare_swap_to_index (\<lambda>_. True) w t1 (i + 1) Auto None = Inr route"
      using swap_ready [OF s] .
    show ?thesis
    proof (cases "pl_transition (st_policy (wf_stages w ! i))")
      case Manual
      then show ?thesis
        using k False parked by (simp add: drive_step_def complete complete_from_stage_def effective_transition_def Let_def)
    next
      case AutoTransition
      show ?thesis
      proof (cases "st_post (wf_stages w ! i)")
        case None
        then show ?thesis
          using k False AutoTransition parked swap swap_next_work [OF s fresh swap, of post]
          by (simp add: drive_step_def complete complete_from_stage_def effective_transition_def Let_def)
      next
        case (Some p)
        then obtain r where "prepare_post_dispatch (\<lambda>_. True) w t1 i Auto = Inr r"
          using post_ready [OF s] by blast
        then show ?thesis
          using k False AutoTransition Some post_next_work [OF s fresh, of "\<lambda>_. True" Auto r]
          by (simp add: drive_step_def complete complete_from_stage_def effective_transition_def Let_def)
      qed
    qed
  qed
qed

text \<open>The work still ahead of the current run, in order.\<close>

definition work_ahead :: "workflow_definition \<Rightarrow> nat \<Rightarrow> bool \<Rightarrow> ustr list" where
  "work_ahead w i post =
     (if post then [] else tl (stage_names (wf_stages w ! i))) @ work_names (drop (i + 1) (wf_stages w))"

lemma work_ahead_post:
  "st_post (wf_stages w ! i) = Some p \<Longrightarrow> work_ahead w i False = po_name p # work_ahead w i True"
  by (simp add: work_ahead_def stage_names_def)

lemma work_ahead_stage:
  assumes "post \<or> st_post (wf_stages w ! i) = None" and "i + 1 < length (wf_stages w)"
  shows "work_ahead w i post = st_name (wf_stages w ! (i + 1)) # work_ahead w (i + 1) False"
proof -
  have "drop (i + 1) (wf_stages w) = wf_stages w ! (i + 1) # drop (i + 1 + 1) (wf_stages w)"
    using assms(2) by (simp add: Cons_nth_drop_Suc)
  then show ?thesis
    using assms(1) by (auto simp: work_ahead_def stage_names_def)
qed

lemma work_ahead_end:
  assumes "post \<or> st_post (wf_stages w ! i) = None" and "\<not> i + 1 < length (wf_stages w)"
  shows "work_ahead w i post = []"
  using assms by (auto simp: work_ahead_def stage_names_def)

abbreviation drive :: "resolution \<Rightarrow> workflow_definition \<Rightarrow> ustr option \<Rightarrow> ustr \<Rightarrow> ustr list \<Rightarrow> task \<Rightarrow> task" where
  "drive resolve w branch result run_ids t \<equiv> fold (drive_step resolve w branch result) run_ids t"

lemma drive_working:
  assumes "working_at w i post runs run t" and "distinct (map st_name (wf_stages w))"
    and "distinct (map sr_id (runs @ [run]) @ run_ids)" and "length run_ids = Suc (length (work_ahead w i post))"
  shows "tk_closed (drive resolve w branch result run_ids t) \<and>
    map sr_stage (tk_runs (drive resolve w branch result run_ids t)) =
      map sr_stage (runs @ [run]) @ work_ahead w i post \<and>
    (\<forall>r \<in> set (tk_runs (drive resolve w branch result run_ids t)). sr_status r = SUCCEEDED)"
  using assms
proof (induction run_ids arbitrary: i post runs run t)
  case (Cons run_id run_ids)
  let ?run = "finish_run SUCCEEDED (Some result) (Some []) run"
  let ?t = "drive_step resolve w branch result run_id t"
  have same: "sr_id ?run = sr_id run" "sr_stage ?run = sr_stage run"
    by (simp_all add: finish_run_def)
  have n: "next_work w i post (t\<lparr>tk_runs := runs @ [?run]\<rparr>) run_id ?t"
    using Cons.prems by (intro drive_step_next) auto
  have ids: "distinct (map sr_id ((runs @ [?run]) @ [r]) @ run_ids)" if "sr_id r = run_id" for r
    using Cons.prems(3) that same by auto
  consider (post) p where "\<not> post" "st_post (wf_stages w ! i) = Some p"
    | (stage) "post \<or> st_post (wf_stages w ! i) = None" "i + 1 < length (wf_stages w)"
    | (finished) "post \<or> st_post (wf_stages w ! i) = None" "\<not> i + 1 < length (wf_stages w)"
    by auto
  then show ?case
  proof cases
    case post
    then obtain r where "working_at w i True (runs @ [?run]) r ?t" "sr_id r = run_id" "sr_stage r = po_name p"
      using n by (auto simp: next_work_def)
    then show ?thesis
      using Cons.IH [OF _ Cons.prems(2) ids, of i True r] Cons.prems(4) post same work_ahead_post [OF post(2)] by simp
  next
    case stage
    then obtain r where "working_at w (i + 1) False (runs @ [?run]) r ?t" "sr_id r = run_id"
      "sr_stage r = st_name (wf_stages w ! (i + 1))"
      using n by (auto simp: next_work_def)
    then show ?thesis
      using Cons.IH [OF _ Cons.prems(2) ids, of "i + 1" False r] Cons.prems(4) same work_ahead_stage [OF stage] by simp
  next
    case finished
    then have "run_ids = []"
      using Cons.prems(4) work_ahead_end [OF finished] by simp
    moreover have "tk_closed ?t" "tk_runs ?t = runs @ [?run]"
      using n finished by (auto simp: next_work_def)
    ultimately show ?thesis
      using Cons.prems(1) work_ahead_end [OF finished] same
      by (auto simp: working_at_def settled_at_def finish_run_def)
  qed
qed simp

text \<open>
  C5: A task whose runs all succeed finishes its workflow. Start with the first stage's main run under way
  and record a success verdict for each run, its operator advancing the task wherever that parks it. Then
  after exactly as many verdicts as the workflow has pieces of work the task is closed, and its run history
  is that work in order, each stage's main run followed by its post, each run once and each succeeded: no
  stage or post is skipped, repeated or left running, whatever mix of manual and automatic transitions the
  workflow declares.
\<close>

theorem workflow_runs_to_completion:
  assumes "distinct (map st_name (wf_stages w))" and "working_at w 0 False [] run t"
    and "sr_stage run = st_name (wf_stages w ! 0)"
    and "distinct (sr_id run # run_ids)" and "length run_ids = length (work_names (wf_stages w))"
  shows "tk_closed (drive resolve w branch result run_ids t) \<and>
    map sr_stage (tk_runs (drive resolve w branch result run_ids t)) = work_names (wf_stages w) \<and>
    (\<forall>r \<in> set (tk_runs (drive resolve w branch result run_ids t)). sr_status r = SUCCEEDED)"
proof -
  have "0 < length (wf_stages w)"
    using assms(2) by (simp add: working_at_def settled_at_def)
  then have "work_names (wf_stages w) = st_name (wf_stages w ! 0) # work_ahead w 0 False"
    by (cases "wf_stages w") (simp_all add: work_ahead_def stage_names_def work_names_def)
  then show ?thesis
    using drive_working [OF assms(2,1), of run_ids resolve branch result] assms(3-5) by simp
qed

theorem workflow_runs_to_completion_witness:
  "let t = drive (\<lambda>_. (lit ''codex'', None, None)) sample_flow (Some (lit ''b2'')) (lit ''ok'')
       [lit ''r2'', lit ''r3'', lit ''r4''] (sample_task [sample_run (lit ''r1'') (lit ''build'') MAIN_KIND RUNNING])
   in tk_closed t \<and> map sr_stage (tk_runs t) = [lit ''build'', lit ''commit'', lit ''pr'']"
proof -
  have "working_at sample_flow 0 False [] (sample_run (lit ''r1'') (lit ''build'') MAIN_KIND RUNNING)
      (sample_task [sample_run (lit ''r1'') (lit ''build'') MAIN_KIND RUNNING])"
    by (simp add: working_at_def settled_at_def sample_defs)
  from workflow_runs_to_completion [OF _ this, of "[lit ''r2'', lit ''r3'', lit ''r4'']"
      "\<lambda>_. (lit ''codex'', None, None)" "Some (lit ''b2'')" "lit ''ok''"]
  show ?thesis
    by (simp add: sample_defs stage_names_def Let_def)
qed

section \<open>A failed swap forgets the post\<close>

text \<open>
  A stage's post has succeeded and the task moves on, but the next stage's setup fails. The failed run that
  is recorded is now the task's latest, so the next advance dispatches the same post again.
\<close>

lemma failed_swap_reopens_post:
  assumes s: "settled_at w i t" and d: "distinct (map st_name (wf_stages w))"
    and p: "st_post (wf_stages w ! i) = Some post" "post_ran post t"
    and swap: "prepare_swap_to_index (\<lambda>_. True) w t (i + 1) trigger None = Inr (RunRoute rq)"
    and oc: "oc_landing oc \<noteq> OperationPending" "oc_setup oc = Some e"
  shows "\<exists>route. prepare_advance_stage (\<lambda>_. True) w (spawn_prepared_stage_run resolve run_id oc rq t)
      \<lparr>ai_trigger = Operator, ai_override = None\<rparr> = Inr route \<and> dispatches_post w i route"
proof -
  let ?t = "spawn_prepared_stage_run resolve run_id oc rq t"
  have k: "rq_kind rq = MAIN_KIND"
    using prepare_swap_spec [OF swap] by (simp add: moves_to_def split: if_splits)
  have failed: "?t = record_stage_transition_failure resolve run_id rq e t"
    using oc by (simp add: spawn_prepared_stage_run_def finish_deferred_stage_setup_def k)
  have t: "tk_stage ?t = tk_stage t" "tk_closed ?t = tk_closed t" "tk_open_blockers ?t = tk_open_blockers t"
    "tk_branch ?t = tk_branch t"
    by (simp_all add: failed record_stage_transition_failure_def insert_stage_run_def)
  have "\<exists>run. latest_stage_run ?t = Some run \<and> sr_kind run = MAIN_KIND"
    by (simp add: failed record_stage_transition_failure_def insert_stage_run_def k)
  then have pending: "post_pending post ?t = Inr True"
    by (auto simp: post_pending_def)
  have "tk_branch t \<noteq> None"
    using s by (simp add: settled_at_def)
  then obtain route where r: "prepare_post_dispatch (\<lambda>_. True) w ?t i Operator = Inr route"
    using p t by (auto simp: prepare_post_dispatch_def prepare_stage_run_for_target_def post_as_stage_def Let_def)
  show ?thesis
    using r prepare_post_spec [OF r] p(1) pending
    by (cases rule: settled_position [OF s d])
      (simp add: prepare_advance_stage_def advance_from_stage_def t Let_def)
qed

end
