(* ===== verification/Prompt.thy ===== *)
theory Prompt
  imports Workflow
begin

text \<open>
  Prompts of stage runs (\<^verbatim>\<open>crates/kanna-server/src/task_creator/prompt.rs\<close>): the substitution of \<^verbatim>\<open>$NAME\<close> and
  \<^verbatim>\<open>${NAME}\<close> in agent and stage templates, and the messages a revision sends. The body of an agent definition
  is an argument.
\<close>

section \<open>Substitution\<close>

record prompt_context =
  pc_task_prompt :: "ustr option"
  pc_prev_result :: "ustr option"
  pc_prev_main_result :: "ustr option"
  pc_branch :: "ustr option"
  pc_base_ref :: "ustr option"
  pc_source_worktree :: "ustr option"
  pc_stage_trigger :: ustr
  pc_vars :: "(ustr \<times> ustr) list option"

definition RESERVED_PROMPT_VARS :: "ustr list" where
  "RESERVED_PROMPT_VARS =
     [lit ''BASE_REF'', lit ''BRANCH'', lit ''KANNA_TASK_ID'', lit ''PREV_MAIN_RESULT'', lit ''PREV_RESULT'',
      lit ''SOURCE_WORKTREE'', lit ''STAGE_TRIGGER'', lit ''TASK_PROMPT'']"

abbreviation unwrap_or_empty :: "ustr option \<Rightarrow> ustr" where
  "unwrap_or_empty v \<equiv> (case v of Some s \<Rightarrow> s | None \<Rightarrow> [])"

definition prompt_var_value :: "prompt_context \<Rightarrow> ustr \<Rightarrow> ustr option" where
  "prompt_var_value context name =
     (if name = lit ''TASK_PROMPT'' then Some (unwrap_or_empty (pc_task_prompt context))
      else if name = lit ''PREV_RESULT'' then Some (unwrap_or_empty (pc_prev_result context))
      else if name = lit ''PREV_MAIN_RESULT'' then Some (unwrap_or_empty (pc_prev_main_result context))
      else if name = lit ''BRANCH'' then Some (unwrap_or_empty (pc_branch context))
      else if name = lit ''BASE_REF'' then Some (unwrap_or_empty (pc_base_ref context))
      else if name = lit ''SOURCE_WORKTREE'' then Some (unwrap_or_empty (pc_source_worktree context))
      else if name = lit ''STAGE_TRIGGER'' then Some (pc_stage_trigger context)
      else if name \<in> set RESERVED_PROMPT_VARS then None
      else Option.bind (pc_vars context) (\<lambda>vars. map_of vars name))"

abbreviation DOLLAR :: uchar where "DOLLAR \<equiv> 36"

abbreviation LBRACE :: uchar where "LBRACE \<equiv> 123"

abbreviation RBRACE :: uchar where "RBRACE \<equiv> 125"

definition name_char :: "uchar \<Rightarrow> bool" where
  "name_char c \<longleftrightarrow> is_ascii_digit c \<or> 65 \<le> c \<and> c \<le> 90 \<or> 97 \<le> c \<and> c \<le> 122 \<or> c = 95"

text \<open>The scan from one position: what is pushed onto the output, and how many characters are consumed.\<close>

definition substitute_at :: "(ustr \<Rightarrow> ustr option) \<Rightarrow> uchar \<Rightarrow> ustr \<Rightarrow> ustr \<times> nat" where
  "substitute_at var_value c rest =
     (if c \<noteq> DOLLAR then ([c], 0)
      else if get rest 0 = Some LBRACE
      then (case position (\<lambda>ch. ch = RBRACE) (drop 1 rest) of
              Some close \<Rightarrow>
                (case var_value (take close (drop 1 rest)) of
                   Some v \<Rightarrow> (v, close + 2)
                 | None \<Rightarrow> ([DOLLAR], 0))
            | None \<Rightarrow> ([DOLLAR], 0))
      else let name = takeWhile name_char rest
           in if name = [] then ([DOLLAR], 0)
              else case var_value name of
                     Some v \<Rightarrow> (v, length name)
                   | None \<Rightarrow> ([DOLLAR], 0))"

function substitute_vars :: "(ustr \<Rightarrow> ustr option) \<Rightarrow> ustr \<Rightarrow> ustr" where
  "substitute_vars var_value [] = []"
| "substitute_vars var_value (c # rest) =
     (let (out, used) = substitute_at var_value c rest in out @ substitute_vars var_value (drop used rest))"
  by pat_completeness auto

termination by (relation "measure (\<lambda>(_, s). length s)") auto

definition substitute_prompt_vars :: "ustr \<Rightarrow> prompt_context \<Rightarrow> ustr" where
  "substitute_prompt_vars template context = substitute_vars (prompt_var_value context) template"

section \<open>Sections of a stage prompt\<close>

definition BLANK_LINE :: ustr where
  "BLANK_LINE = [10, 10]"

definition build_prompt_section :: "ustr \<Rightarrow> ustr \<Rightarrow> prompt_context \<Rightarrow> ustr option" where
  "build_prompt_section heading template context =
     (let template = trim template
      in if template = [] then None
         else let body = substitute_prompt_vars template context
              in if trim body = [] then None else Some (heading @ BLANK_LINE @ body))"

definition build_stage_prompt :: "ustr \<Rightarrow> ustr option \<Rightarrow> prompt_context \<Rightarrow> ustr" where
  "build_stage_prompt agent_prompt stage_prompt context =
     join BLANK_LINE
       (filter_map id
          [build_prompt_section (lit ''## Agent Instructions'') agent_prompt context,
           Option.bind stage_prompt (\<lambda>p. build_prompt_section (lit ''## Your Task'') p context)])"

text \<open>\<^verbatim>\<open>agent\<close> looks an agent definition's prompt up by its selector.\<close>

definition build_target_stage_prompt_with_instructions ::
  "(ustr \<Rightarrow> 'e + ustr) \<Rightarrow> workflow_stage \<Rightarrow> prompt_context \<Rightarrow> ustr option \<Rightarrow> 'e + ustr" where
  "build_target_stage_prompt_with_instructions agent stage context additional =
     (case st_agent stage of
        Some agent_name \<Rightarrow>
          (case agent agent_name of
             Inl e \<Rightarrow> Inl e
           | Inr prompt \<Rightarrow>
               Inr (build_stage_prompt
                 (join BLANK_LINE (filter (\<lambda>part. part \<noteq> []) (map trim [prompt, unwrap_or_empty additional])))
                 (st_prompt stage) context))
      | None \<Rightarrow>
          if st_prompt stage \<noteq> None
          then Inr (build_stage_prompt (unwrap_or_empty additional) (st_prompt stage) context)
          else Inr (build_stage_prompt (unwrap_or_empty additional) (Some (lit ''$TASK_PROMPT'')) context))"

section \<open>Revision messages\<close>

record revision_round =
  rr_number :: int
  rr_limit :: int

definition dec_int :: "int \<Rightarrow> ustr" where
  "dec_int n = (if n < 0 then lit ''-'' @ dec (nat (- n)) else dec (nat n))"

definition round_instructions :: "revision_round \<Rightarrow> ustr" where
  "round_instructions r =
     lit ''Revision round '' @ dec_int (rr_number r) @ lit '' of '' @ dec_int (rr_limit r) @
     (lit '' for this task. Address exactly what the feedback below asks for, inside the original task's scope: do not rebuild, refactor, or re-architect code the feedback does not name, and do not add work the original task did not ask for. If a finding is out of scope, wrong, or would grow this task into a larger project, say so in your summary instead of implementing it.'') @
     (if rr_number r \<ge> rr_limit r then (lit '' This is the final automatic revision round: if review is not satisfied after it, Kanna parks the task for its human rather than starting another round.'') else [])"

definition build_revision_task_prompt :: "ustr \<Rightarrow> ustr \<Rightarrow> revision_round option \<Rightarrow> ustr" where
  "build_revision_task_prompt original_task_prompt feedback round =
     join BLANK_LINE
       ([lit ''Review feedback requires changes on this task.''] @
        (case round of Some r \<Rightarrow> [round_instructions r] | None \<Rightarrow> []) @
        (if trim original_task_prompt \<noteq> [] then [lit ''Original task:'' @ [10] @ trim original_task_prompt] else []) @
        [lit ''Reviewer feedback:'' @ [10] @ trim feedback])"

definition revision_completion_reminder :: "ustr \<Rightarrow> stage_transition \<Rightarrow> ustr" where
  "revision_completion_reminder task_id transition =
     (case transition of
        AutoTransition \<Rightarrow> (lit ''Address the feedback in this worktree, then record stage completion: call MCP `kanna_complete_stage {\"task_id\": \"'' @ task_id @ lit ''\", \"status\": \"success\", \"summary\": \"...\"}`; only if MCP tools are unavailable, fall back to `kanna-cli stage-complete --task-id \"'' @ task_id @ lit ''\" --status success --summary \"...\"`. Kanna will then advance this task's workflow.'')
      | Manual \<Rightarrow> (lit ''Address the feedback in this worktree, then finish with a clear summary of what you changed '' @ [8212] @ lit '' do not record stage completion; this stage advances manually, so the user reviews the revision and advances the task themselves. If you cannot address the feedback, record failure instead of stopping silently: call MCP `kanna_complete_stage {\"task_id\": \"'' @ task_id @ lit ''\", \"status\": \"failure\", \"summary\": \"...\"}`; only if MCP tools are unavailable, fall back to `kanna-cli stage-complete --task-id \"'' @ task_id @ lit ''\" --status failure --summary \"...\"`.''))"

definition build_revision_resume_message ::
  "ustr \<Rightarrow> ustr \<Rightarrow> ustr \<Rightarrow> stage_transition \<Rightarrow> revision_round option \<Rightarrow> ustr" where
  "build_revision_resume_message original_task_prompt feedback task_id transition round =
     build_revision_task_prompt original_task_prompt feedback round @ BLANK_LINE @
     revision_completion_reminder task_id transition"

section \<open>One pass\<close>

text \<open>The reference: cut the template into tokens, looking only at which names are bound, then render each.\<close>

datatype prompt_token = CharToken uchar | BareToken ustr | BracedToken ustr

primrec token_source :: "prompt_token \<Rightarrow> ustr" where
  "token_source (CharToken c) = [c]"
| "token_source (BareToken name) = DOLLAR # name"
| "token_source (BracedToken name) = [DOLLAR, LBRACE] @ name @ [RBRACE]"

primrec token_value :: "(ustr \<Rightarrow> ustr option) \<Rightarrow> prompt_token \<Rightarrow> ustr" where
  "token_value var_value (CharToken c) = [c]"
| "token_value var_value (BareToken name) = unwrap_or_empty (var_value name)"
| "token_value var_value (BracedToken name) = unwrap_or_empty (var_value name)"

definition token_at :: "(ustr \<Rightarrow> bool) \<Rightarrow> uchar \<Rightarrow> ustr \<Rightarrow> prompt_token" where
  "token_at bound c rest =
     (let braced = takeWhile (\<lambda>ch. ch \<noteq> RBRACE) (drop 1 rest);
          bare = takeWhile name_char rest
      in if c \<noteq> DOLLAR then CharToken c
         else if get rest 0 = Some LBRACE
         then if RBRACE \<in> set (drop 1 rest) \<and> bound braced then BracedToken braced else CharToken c
         else if bare \<noteq> [] \<and> bound bare then BareToken bare else CharToken c)"

function prompt_tokens :: "(ustr \<Rightarrow> bool) \<Rightarrow> ustr \<Rightarrow> prompt_token list" where
  "prompt_tokens bound [] = []"
| "prompt_tokens bound (c # rest) =
     (let tok = token_at bound c rest
      in tok # prompt_tokens bound (drop (length (token_source tok) - 1) rest))"
  by pat_completeness auto

termination by (relation "measure (\<lambda>(_, s). length s)") auto

lemma position_takeWhile:
  "position P xs = (if \<exists>x \<in> set xs. P x then Some (length (takeWhile (\<lambda>x. \<not> P x) xs)) else None)"
  by (induction xs) auto

lemma takeWhile_split:
  assumes "x \<in> set xs"
  shows "takeWhile (\<lambda>y. y \<noteq> x) xs @ x # drop (Suc (length (takeWhile (\<lambda>y. y \<noteq> x) xs))) xs = xs"
  using assms by (induction xs) auto

lemma get_0_Some: "get rest 0 = Some c \<longleftrightarrow> (\<exists>rest'. rest = c # rest')"
  by (cases rest) (auto simp: get_def)

lemma token_at_source:
  "\<exists>tail. token_source (token_at bound c rest) @ tail = c # rest"
proof (cases "token_at bound c rest")
  case (BracedToken name)
  then obtain rest' where r: "rest = LBRACE # rest'" "RBRACE \<in> set rest'" "c = DOLLAR"
    "name = takeWhile (\<lambda>ch. ch \<noteq> RBRACE) rest'"
    by (auto simp: token_at_def Let_def get_0_Some split: if_splits)
  then show ?thesis
    using takeWhile_split [OF r(2)] BracedToken by auto
next
  case (BareToken name)
  then have "c = DOLLAR" "name = takeWhile name_char rest"
    by (auto simp: token_at_def Let_def split: if_splits)
  then show ?thesis
    using BareToken by (auto intro: exI [of _ "dropWhile name_char rest"])
qed (auto simp: token_at_def Let_def split: if_splits)

lemma substitute_at_token:
  fixes v :: "ustr \<Rightarrow> ustr option"
  defines "tok \<equiv> token_at (\<lambda>name. v name \<noteq> None)"
  shows "substitute_at v c rest =
    (token_value v (tok c rest), length (token_source (tok c rest)) - 1)"
proof -
  have take_prefix: "take (length (takeWhile P xs)) xs = takeWhile P xs" for P and xs :: ustr
    by (metis takeWhile_eq_take length_takeWhile_le min.absorb1 length_take)
  show ?thesis
    by (auto simp: substitute_at_def tok_def token_at_def Let_def position_takeWhile take_prefix
        split: option.splits)
qed

lemma substitute_vars_tokens:
  "substitute_vars v s = concat (map (token_value v) (prompt_tokens (\<lambda>name. v name \<noteq> None) s))"
  by (induction v s rule: substitute_vars.induct) (simp_all add: substitute_at_token Let_def)

lemma token_source_nonempty: "token_source tok \<noteq> []"
  by (cases tok) simp_all

lemma token_at_drop:
  "token_source (token_at bound c rest) @ drop (length (token_source (token_at bound c rest)) - 1) rest = c # rest"
proof -
  obtain tail where t: "token_source (token_at bound c rest) @ tail = c # rest"
    using token_at_source by blast
  moreover obtain d ds where "token_source (token_at bound c rest) = d # ds"
    using token_source_nonempty by (meson list.exhaust)
  ultimately show ?thesis
    by auto
qed

lemma prompt_tokens_source: "concat (map token_source (prompt_tokens bound s)) = s"
proof (induction bound s rule: prompt_tokens.induct)
  case (2 bound c rest)
  then show ?case
    by (simp only: prompt_tokens.simps Let_def list.map concat.simps token_at_drop)
qed simp

text \<open>
  C40: Substituting a template is one pass. The template is cut into tokens by looking only at the template
  and at which names are bound, never at what they are bound to; the tokens spell the template; and the
  output is each token's value in turn. A value that itself contains \<^verbatim>\<open>$TASK_PROMPT\<close> is never scanned again.
\<close>

theorem substitution_single_pass:
  "substitute_prompt_vars template context =
     concat (map (token_value (prompt_var_value context))
       (prompt_tokens (\<lambda>name. prompt_var_value context name \<noteq> None) template)) \<and>
   concat (map token_source (prompt_tokens (\<lambda>name. prompt_var_value context name \<noteq> None) template)) = template"
  by (simp add: substitute_prompt_vars_def substitute_vars_tokens prompt_tokens_source)

text \<open>No configured variable shadows a name the engine binds.\<close>

lemma reserved_not_shadowed:
  "name \<in> set RESERVED_PROMPT_VARS \<Longrightarrow>
     prompt_var_value (context\<lparr>pc_vars := vars\<rparr>) name = prompt_var_value context name"
  by (simp add: prompt_var_value_def)

text \<open>A stage that declares no agent and no prompt of its own is given the task's prompt unchanged.\<close>

lemma plain_stage_prompt:
  assumes "st_agent stage = None" and "st_prompt stage = None" and "pc_task_prompt context = Some p" and "trim p \<noteq> []"
  shows "build_target_stage_prompt_with_instructions agent stage context None =
    Inr (lit ''## Your Task'' @ BLANK_LINE @ p)"
proof -
  have "trim (lit ''$TASK_PROMPT'') = lit ''$TASK_PROMPT''"
    by code_simp
  moreover have "prompt_tokens (\<lambda>name. prompt_var_value context name \<noteq> None) (lit ''$TASK_PROMPT'') =
      [BareToken (lit ''TASK_PROMPT'')]"
    using assms(3) by (simp add: lit_simps token_at_def get_def name_char_def is_ascii_digit_def prompt_var_value_def)
  moreover have "lit ''$TASK_PROMPT'' \<noteq> []"
    by (simp add: lit_def)
  ultimately show ?thesis
    using assms
    by (simp add: build_target_stage_prompt_with_instructions_def build_stage_prompt_def build_prompt_section_def
        substitute_prompt_vars_def substitute_vars_tokens prompt_var_value_def)
qed

end
