(* ===== verification/Revision.thy ===== *)
theory Revision
  imports Task_Engine Prompt
begin

text \<open>
  Revision requests (\<^verbatim>\<open>http_api/task_actions.rs\<close> \<^verbatim>\<open>request_revision\<close>, \<^verbatim>\<open>task_creator/stages.rs\<close>): who may send a
  task back to an earlier stage, the budget of automatic rounds, and the run the revision starts. With them
  the three actions on a task are complete, and the section on traces says what no sequence of them breaks.
\<close>

section \<open>Which run a revision concludes\<close>

text \<open>The request's metadata only enters the stored verdict, which \<open>verdict_json\<close> below serialises.\<close>

record revision_request =
  rv_target :: ustr
  rv_prompt :: ustr
  rv_summary :: ustr
  rv_run_id :: "ustr option"
  rv_agent :: bool

datatype revision_error =
    RevisionRun action_error
  | NoRunningReview ustr
  | NoRunToConclude ustr
  | ForeignRun ustr ustr
  | RunCannotRevise ustr
  | FindingsMissing
  | FeedbackMissing
  | RevisionRoute route_error
  | RevisionDatabase

definition running_id :: "stage_run option \<Rightarrow> ustr option" where
  "running_id current =
     (case current of Some run \<Rightarrow> if sr_status run = RUNNING then Some (sr_id run) else None | None \<Rightarrow> None)"

definition unanswered_review :: "stage_run option \<Rightarrow> stage_run option" where
  "unanswered_review current =
     (case current of
        Some run \<Rightarrow> if sr_status run \<noteq> RUNNING \<and> sr_completion_bound run then Some run else None
      | None \<Rightarrow> None)"

definition conclude_named_run ::
  "bool \<Rightarrow> stage_run option \<Rightarrow> ustr \<Rightarrow> revision_error + ustr option" where
  "conclude_named_run agent current named =
     (case current of
        None \<Rightarrow> Inl (NoRunToConclude named)
      | Some run \<Rightarrow>
          if sr_id run \<noteq> named then Inl (ForeignRun named (sr_id run))
          else if agent \<and> (sr_kind run \<noteq> MAIN_KIND \<or> sr_status run \<noteq> RUNNING) then Inl (RunCannotRevise named)
          else Inr (running_id current))"

definition validate_revision_run_binding :: "task \<Rightarrow> ustr option \<Rightarrow> bool \<Rightarrow> revision_error + ustr option" where
  "validate_revision_run_binding t requested agent =
     (case resolve_action_run t requested of
        Inl e \<Rightarrow> Inl (RevisionRun e)
      | Inr current \<Rightarrow>
          (case (if agent \<and> requested = None then unanswered_review current else None) of
             Some run \<Rightarrow> Inl (NoRunningReview (sr_id run))
           | None \<Rightarrow>
               (case (if requested = None then running_id current else requested) of
                  Some named \<Rightarrow> conclude_named_run agent current named
                | None \<Rightarrow> Inr None)))"

section \<open>Preparing the revision\<close>

definition stage_run_result_summary :: "(ustr \<Rightarrow> json option) \<Rightarrow> ustr option \<Rightarrow> ustr option" where
  "stage_run_result_summary from_str result =
     Option.bind result (\<lambda>r. Option.bind (from_str r) (\<lambda>v. Option.bind (json_get v (lit ''summary'')) (\<lambda>s.
       Option.bind (json_as_str s) (\<lambda>summary. if trim summary \<noteq> [] then Some summary else None))))"

definition resolve_revision_feedback :: "(ustr \<Rightarrow> json option) \<Rightarrow> task \<Rightarrow> ustr \<Rightarrow> revision_error + ustr" where
  "resolve_revision_feedback from_str t requested =
     (if trim requested \<noteq> [] then Inr requested
      else ok_or FeedbackMissing
        (Option.bind (latest_stage_run t) (\<lambda>run.
           case sr_feedback run of
             Some feedback \<Rightarrow>
               if trim feedback \<noteq> [] then Some feedback else stage_run_result_summary from_str (sr_result run)
           | None \<Rightarrow> stage_run_result_summary from_str (sr_result run))))"

text \<open>
  What the database and the file system say about the target's earlier runs: the run whose provider session
  can be resumed, whether a workflow edit superseded the last run, and whether one edited the stage.
\<close>

record revision_context =
  rx_resumable :: "stage_run option"
  rx_superseded :: bool
  rx_edited :: bool

definition resume_request ::
  "task \<Rightarrow> workflow_stage \<Rightarrow> ustr \<Rightarrow> revision_round option \<Rightarrow> stage_run \<Rightarrow> run_request" where
  "resume_request t target feedback round run =
     \<lparr>rq_target = target, rq_item_stage = st_name target, rq_kind = MAIN_KIND,
      rq_completion = revision_transition (st_policy target), rq_workspace = ResumeWorkspace,
      rq_prompt_override =
        Some (build_revision_resume_message (unwrap_or_empty (tk_prompt t)) feedback (tk_id t)
          (revision_transition (st_policy target)) round),
      rq_feedback = Some feedback, rq_overrides = from_stage_run run, rq_suffix = None,
      rq_trigger = stage_trigger_from_stored (Some (sr_trigger run)),
      rq_provider_override = sr_provider_override run, rq_marker = None\<rparr>"

definition revision_overrides :: "revision_context \<Rightarrow> task \<Rightarrow> stage_run option \<Rightarrow> spawn_overrides" where
  "revision_overrides ctx t last_run =
     (if rx_superseded ctx then no_overrides
      else if rx_edited ctx then (case last_run of Some run \<Rightarrow> from_stage_run run | None \<Rightarrow> no_overrides)
      else \<lparr>so_provider = tk_agent_provider t, so_model = Option.bind last_run sr_model,
            so_effort = Option.bind last_run sr_effort\<rparr>)"

definition fresh_request ::
  "revision_context \<Rightarrow> task \<Rightarrow> workflow_stage \<Rightarrow> ustr \<Rightarrow> ustr \<Rightarrow> ustr \<Rightarrow> revision_round option \<Rightarrow> run_request" where
  "fresh_request ctx t target item_stage kind feedback round =
     (let last_run = latest_stage_run_for_stage t (st_name target) kind
      in \<lparr>rq_target = target, rq_item_stage = item_stage, rq_kind = kind,
          rq_completion = revision_transition (st_policy target),
          rq_workspace = (if kind = MAIN_KIND then ForkWorkspace else CurrentWorkspace),
          rq_prompt_override = Some (build_revision_task_prompt (unwrap_or_empty (tk_prompt t)) feedback round),
          rq_feedback = Some feedback, rq_overrides = revision_overrides ctx t last_run, rq_suffix = None,
          rq_trigger = (case last_run of
                          Some run \<Rightarrow> stage_trigger_from_stored (Some (sr_trigger run)) | None \<Rightarrow> Unspecified),
          rq_provider_override =
            (if rx_edited ctx \<and> \<not> rx_superseded ctx then Option.bind last_run sr_provider_override else None),
          rq_marker = None\<rparr>)"

definition revision_target :: "workflow_definition \<Rightarrow> ustr \<Rightarrow> route_error + (workflow_stage \<times> ustr \<times> ustr)" where
  "revision_target w name =
     (case resolve_stage_position w name of
        None \<Rightarrow> Inl (StageNotFound name)
      | Some (AtStage index) \<Rightarrow>
          Inr (wf_stages w ! index, st_name (wf_stages w ! index), MAIN_KIND)
      | Some (AtPost owner) \<Rightarrow>
          (case post_as_stage (wf_stages w ! owner) of
             Some post_stage \<Rightarrow> Inr (post_stage, st_name (wf_stages w ! owner), POST_KIND)
           | None \<Rightarrow> Inl (StageHasNoPost (st_name (wf_stages w ! owner)))))"

definition prepare_revision_task ::
  "(run_request \<Rightarrow> bool) \<Rightarrow> (ustr \<Rightarrow> json option) \<Rightarrow> revision_context \<Rightarrow> workflow_definition \<Rightarrow> task \<Rightarrow> ustr \<Rightarrow> ustr
     \<Rightarrow> revision_round option \<Rightarrow> revision_error + run_request" where
  "prepare_revision_task ready from_str ctx w t target requested round =
     (if tk_closed t then Inl (RevisionRoute TaskClosed)
      else case resolve_revision_feedback from_str t requested of
             Inl e \<Rightarrow> Inl e
           | Inr feedback \<Rightarrow>
               (case (if tk_stage t = None then Inl TaskHasNoStage else revision_target w target) of
                  Inl e \<Rightarrow> Inl (RevisionRoute e)
                | Inr (stage, item_stage, kind) \<Rightarrow>
                    map_sum RevisionRoute id
                      (prepare_stage_run_for_target ready t
                        (case (if kind = MAIN_KIND then rx_resumable ctx else None) of
                           Some run \<Rightarrow> resume_request t stage feedback round run
                         | None \<Rightarrow> fresh_request ctx t stage item_stage kind feedback round))))"

section \<open>The budget of rounds\<close>

definition claim_agent_revision_round :: "int \<Rightarrow> task \<Rightarrow> (task \<times> int) option" where
  "claim_agent_revision_round limit t =
     (if limit > 0 \<and> tk_revision_rounds t \<ge> limit then None
      else Some (t\<lparr>tk_revision_rounds := tk_revision_rounds t + 1\<rparr>, tk_revision_rounds t + 1))"

definition reset_task_revision_rounds :: "task \<Rightarrow> task" where
  "reset_task_revision_rounds t = t\<lparr>tk_revision_rounds := 0\<rparr>"

datatype revision_reply = RevisionParked int int | RevisionStarted int int

definition PARKED_SUMMARY :: "int \<Rightarrow> ustr \<Rightarrow> ustr" where
  "PARKED_SUMMARY limit summary =
     lit ''Parked for human review: this task's automatic revision budget ('' @ dec_int limit @
     lit '' round(s)) is spent, so Kanna did not start another revision. Review verdict: '' @ summary"

text \<open>\<open>verdict_json\<close> serialises the failure verdict with the given summary.\<close>

definition finish_concluded_run :: "ustr option \<Rightarrow> ustr \<Rightarrow> ustr \<Rightarrow> task \<Rightarrow> revision_error + task" where
  "finish_concluded_run run_id result feedback t =
     (case run_id of
        None \<Rightarrow> Inr t
      | Some r \<Rightarrow> ok_or RevisionDatabase (finish_stage_run r FAILED (Some result) (Some feedback) t))"

definition park_exhausted_revision ::
  "(ustr \<Rightarrow> ustr) \<Rightarrow> revision_request \<Rightarrow> ustr option \<Rightarrow> int \<Rightarrow> task \<Rightarrow> revision_error + (task \<times> revision_reply)" where
  "park_exhausted_revision verdict_json rv concluded limit t =
     map_sum id (\<lambda>t'. (t', RevisionParked (tk_revision_rounds t) limit))
       (finish_concluded_run concluded (verdict_json (PARKED_SUMMARY limit (rv_summary rv))) (rv_prompt rv) t)"

text \<open>The closing transaction: the round is claimed or handed back and the concluded run is failed.\<close>

definition finalize_revision ::
  "(ustr \<Rightarrow> ustr) \<Rightarrow> revision_request \<Rightarrow> ustr option \<Rightarrow> int \<Rightarrow> task \<Rightarrow> revision_error + (task \<times> int)" where
  "finalize_revision verdict_json rv concluded limit t =
     (case (if rv_agent rv then claim_agent_revision_round limit t
            else Some (reset_task_revision_rounds t, 0)) of
        None \<Rightarrow> Inl RevisionDatabase
      | Some (t', rounds) \<Rightarrow>
          map_sum id (\<lambda>t''. (t'', rounds))
            (finish_concluded_run concluded (verdict_json (rv_summary rv)) (rv_summary rv) t'))"

definition announced_round :: "revision_request \<Rightarrow> int \<Rightarrow> task \<Rightarrow> revision_round option" where
  "announced_round rv limit t =
     (if rv_agent rv \<and> limit > 0 then Some \<lparr>rr_number = tk_revision_rounds t + 1, rr_limit = limit\<rparr> else None)"

definition start_revision ::
  "(run_request \<Rightarrow> bool) \<Rightarrow> (ustr \<Rightarrow> json option) \<Rightarrow> (ustr \<Rightarrow> ustr) \<Rightarrow> revision_context \<Rightarrow> resolution \<Rightarrow> workflow_definition
     \<Rightarrow> ustr \<Rightarrow> outcome \<Rightarrow> revision_request \<Rightarrow> ustr option \<Rightarrow> task \<Rightarrow> revision_error + (task \<times> revision_reply)" where
  "start_revision ready from_str verdict_json ctx resolve w run_id oc rv concluded t =
     (let limit = revision_limit w
      in case prepare_revision_task ready from_str ctx w t (rv_target rv)
                (if trim (rv_prompt rv) = [] then rv_summary rv else rv_prompt rv) (announced_round rv limit t) of
           Inl e \<Rightarrow> Inl e
         | Inr rq \<Rightarrow>
             (case finalize_revision verdict_json rv concluded limit t of
                Inl e \<Rightarrow> Inl e
              | Inr (t', rounds) \<Rightarrow>
                  Inr (execute_stage_transition resolve run_id oc (RunRoute rq) t', RevisionStarted rounds limit)))"

definition request_revision ::
  "(run_request \<Rightarrow> bool) \<Rightarrow> (ustr \<Rightarrow> json option) \<Rightarrow> (ustr \<Rightarrow> ustr) \<Rightarrow> revision_context \<Rightarrow> resolution \<Rightarrow> workflow_definition
     \<Rightarrow> ustr \<Rightarrow> outcome \<Rightarrow> revision_request \<Rightarrow> task \<Rightarrow> revision_error + (task \<times> revision_reply)" where
  "request_revision ready from_str verdict_json ctx resolve w run_id oc rv t =
     (if rv_agent rv \<and> trim (rv_prompt rv) = [] then Inl FindingsMissing
      else case validate_revision_run_binding t (rv_run_id rv) (rv_agent rv) of
             Inl e \<Rightarrow> Inl e
           | Inr concluded \<Rightarrow>
               if rv_agent rv \<and> revision_limit w > 0 \<and> tk_revision_rounds t \<ge> revision_limit w
               then park_exhausted_revision verdict_json rv concluded (revision_limit w) t
               else start_revision ready from_str verdict_json ctx resolve w run_id oc rv concluded t)"

text \<open>
  A human's request is refused after all when nobody said what to change: it carries neither a prompt nor a
  summary and the task's latest run recorded no verdict.
\<close>

lemma human_revision_refused:
  "request_revision (\<lambda>_. True) (\<lambda>_. None) (\<lambda>s. s)
     \<lparr>rx_resumable = None, rx_superseded = False, rx_edited = False\<rparr> (\<lambda>_. (lit ''codex'', None, None)) sample_flow
     (lit ''r2'') (all_well None)
     \<lparr>rv_target = lit ''build'', rv_prompt = [], rv_summary = [], rv_run_id = None, rv_agent = False\<rparr>
     (sample_task [sample_run (lit ''r1'') (lit ''build'') MAIN_KIND RUNNING]) = Inl FeedbackMissing"
proof -
  have "(case request_revision (\<lambda>_. True) (\<lambda>_. None) (\<lambda>s. s)
     \<lparr>rx_resumable = None, rx_superseded = False, rx_edited = False\<rparr> (\<lambda>_. (lit ''codex'', None, None)) sample_flow
     (lit ''r2'') (all_well None)
     \<lparr>rv_target = lit ''build'', rv_prompt = [], rv_summary = [], rv_run_id = None, rv_agent = False\<rparr>
     (sample_task [sample_run (lit ''r1'') (lit ''build'') MAIN_KIND RUNNING]) of
       Inl e \<Rightarrow> e = FeedbackMissing | Inr _ \<Rightarrow> False)"
    by code_simp
  then show ?thesis
    by (auto split: sum.splits)
qed

section \<open>Traces\<close>

text \<open>
  One accepted action on a task of workflow \<open>w\<close>, labelled by what it did. Every parameter of the actions is
  free in each step, and a new run's id is one the task does not have.
\<close>

datatype action_label = Advanced | Completed completion_reply | AgentRevised | AgentParked | HumanRevised

definition revision_label :: "revision_request \<Rightarrow> revision_reply \<Rightarrow> action_label" where
  "revision_label rv reply =
     (case reply of
        RevisionParked _ _ \<Rightarrow> AgentParked
      | RevisionStarted _ _ \<Rightarrow> if rv_agent rv then AgentRevised else HumanRevised)"

inductive task_trace :: "workflow_definition \<Rightarrow> task \<Rightarrow> action_label list \<Rightarrow> task \<Rightarrow> bool" for w where
  Done: "task_trace w t [] t"
| Advance: "task_trace w t labels u \<Longrightarrow> run_id \<notin> sr_id ` set (tk_runs u) \<Longrightarrow>
    advance_stage ready resolve w run_id oc expected intent u = Inr v \<Longrightarrow> task_trace w t (labels @ [Advanced]) v"
| Complete: "task_trace w t labels u \<Longrightarrow> run_id \<notin> sr_id ` set (tk_runs u) \<Longrightarrow>
    complete_stage ready resolve legacy_retry w run_id oc c u = Inr (v, reply) \<Longrightarrow>
    task_trace w t (labels @ [Completed reply]) v"
| Revise: "task_trace w t labels u \<Longrightarrow> run_id \<notin> sr_id ` set (tk_runs u) \<Longrightarrow>
    request_revision ready from_str verdict_json ctx resolve w run_id oc rv u = Inr (v, reply) \<Longrightarrow>
    task_trace w t (labels @ [revision_label rv reply]) v"

text \<open>What every action keeps, every trace keeps.\<close>

locale task_invariant =
  fixes w :: workflow_definition
    and inv :: "task \<Rightarrow> bool"
  assumes advance_keeps: "inv t \<Longrightarrow> run_id \<notin> sr_id ` set (tk_runs t) \<Longrightarrow>
      advance_stage ready resolve w run_id oc expected intent t = Inr t' \<Longrightarrow> inv t'"
    and complete_keeps: "inv t \<Longrightarrow> run_id \<notin> sr_id ` set (tk_runs t) \<Longrightarrow>
      complete_stage ready resolve legacy_retry w run_id oc c t = Inr (t', reply) \<Longrightarrow> inv t'"
    and revise_keeps: "inv t \<Longrightarrow> run_id \<notin> sr_id ` set (tk_runs t) \<Longrightarrow>
      request_revision ready from_str verdict_json ctx resolve w run_id oc rv t = Inr (t', answer) \<Longrightarrow> inv t'"
begin

lemma along_trace: "task_trace w t labels u \<Longrightarrow> inv t \<Longrightarrow> inv u"
  by (induction rule: task_trace.induct) (auto intro: advance_keeps complete_keeps revise_keeps)

end

subsection \<open>What landing a transition leaves alone\<close>

lemma finish_stage_run_frame:
  assumes "finish_stage_run run_id status result feedback t = Some t'"
  shows "tk_revision_rounds t' = tk_revision_rounds t" and "tk_attempts t' = tk_attempts t"
  using assms by (auto simp: finish_stage_run_def split: if_splits)

lemma finish_latest_frame [simp]:
  "tk_revision_rounds (finish_latest_running_stage_run status t) = tk_revision_rounds t"
  "tk_attempts (finish_latest_running_stage_run status t) = tk_attempts t"
  by (auto simp: finish_latest_running_stage_run_def finish_stage_run_frame split: option.split)

lemma insert_stage_run_frame [simp]:
  "tk_revision_rounds (insert_stage_run run t) = tk_revision_rounds t"
  "tk_attempts (insert_stage_run run t) = tk_attempts t"
  by (simp_all add: insert_stage_run_def)

lemma fail_bound_frame [simp]:
  "tk_revision_rounds (fail_bound_stage_run run_id error t) = tk_revision_rounds t"
  "tk_attempts (fail_bound_stage_run run_id error t) = tk_attempts t"
  by (auto simp: fail_bound_stage_run_def finish_stage_run_frame split: option.split)

lemma reconcile_frame:
  assumes "reconcile_stage_operation rq branch t = Some t'"
  shows "tk_revision_rounds t' = tk_revision_rounds t" and "tk_attempts t' = tk_attempts t"
  using assms by (auto simp: reconcile_stage_operation_def split: if_splits)

lemma spawn_frame [simp]:
  "tk_revision_rounds (spawn_prepared_stage_run resolve run_id oc rq t) = tk_revision_rounds t"
  "tk_attempts (spawn_prepared_stage_run resolve run_id oc rq t) = tk_attempts t"
  by (auto simp: spawn_prepared_stage_run_def record_stage_transition_failure_def record_stage_transition_run_def
      Let_def reconcile_frame split: option.split landing.split)

lemma dispatch_frame [simp]:
  "tk_revision_rounds (dispatch_prepared_post resolve run_id oc rq t) = tk_revision_rounds t"
  "tk_attempts (dispatch_prepared_post resolve run_id oc rq t) = tk_attempts t"
  by (auto simp: dispatch_prepared_post_def finalize_post_operation_def Let_def finish_stage_run_frame
      split: option.split delivery.split)

lemma execute_frame [simp]:
  "tk_revision_rounds (execute_stage_transition resolve run_id oc route t) = tk_revision_rounds t"
  "tk_attempts (execute_stage_transition resolve run_id oc route t) = tk_attempts t"
  by (simp_all add: execute_stage_transition_def close_pipeline_item_def cancel_running_stage_runs_def
      split: stage_route.split)

lemma advance_frame:
  assumes "advance_stage ready resolve w run_id oc expected intent t = Inr t'"
  shows "tk_revision_rounds t' = tk_revision_rounds t" and "tk_attempts t' = tk_attempts t"
  using assms by (auto simp: advance_stage_def split: if_splits sum.splits)

subsection \<open>What a verdict does\<close>

lemma record_attempt_simps [simp]:
  "tk_runs (record_attempt c run_id t) = tk_runs t" "tk_closed (record_attempt c run_id t) = tk_closed t"
  "tk_stage (record_attempt c run_id t) = tk_stage t"
  "tk_revision_rounds (record_attempt c run_id t) = tk_revision_rounds t"
  by (simp_all add: record_attempt_def split: option.split)

lemma record_attempt_attempts:
  "tk_attempts (record_attempt c run_id t) =
     tk_attempts t @ (case contextless_key c of Some key \<Rightarrow> [(key, run_id, cp_result c)] | None \<Rightarrow> [])"
  by (simp add: record_attempt_def split: option.split)

definition finished_of :: "stage_run \<Rightarrow> finished_run" where
  "finished_of run = \<lparr>fr_kind = sr_kind run, fr_completion_transition = sr_completion_transition run,
     fr_trigger = sr_trigger run\<rparr>"

lemma record_verdict_cases:
  assumes "record_verdict legacy_retry c current t = Inr res"
  obtains (Replay) run_id where "res = RecordReplayed (record_attempt c run_id t)"
  | (Finish) u where
      "finish_stage_run (sr_id current) (run_status_of c) (Some (cp_result c)) (Some (cp_summary c)) t = Some u"
      "res = RecordFinished (record_attempt c (sr_id current) u) (finished_of current)"
proof -
  let ?id = "completed_run_id legacy_retry c current"
  show ?thesis
  proof (cases "sr_id current = ?id \<and> \<not> same_verdict c current")
    case True
    then have "sr_id current = ?id" "\<not> same_verdict c current"
      by auto
    then show ?thesis
      using assms Finish
      by (auto simp: record_verdict_def Let_def finished_of_def split: if_splits option.splits)
  next
    case False
    then show ?thesis
      using assms Replay by (auto simp: record_verdict_def Let_def split: if_splits option.splits)
  qed
qed

lemma record_completion_cases:
  assumes "record_completion legacy_retry c t = Inr res"
  obtains (Known) run_id where "res = RecordReplayed t"
      "Option.bind (contextless_key c) (find_attempt t) = Some (run_id, cp_result c)"
  | (Closed) "res = RecordClosed" "tk_closed t"
  | (Verdict) current where "Option.bind (contextless_key c) (find_attempt t) = None" "\<not> tk_closed t"
      "resolve_action_run t (cp_run_id c) = Inr (Some current)" "record_verdict legacy_retry c current t = Inr res"
proof (cases "Option.bind (contextless_key c) (find_attempt t)")
  case None
  then show ?thesis
    using assms Closed Verdict by (auto simp: record_completion_def split: if_splits sum.splits option.splits)
next
  case (Some p)
  then show ?thesis
    using assms Known by (cases p) (auto simp: record_completion_def split: if_splits)
qed

lemma complete_stage_cases:
  assumes "complete_stage ready resolve legacy_retry w run_id oc c t = Inr (t', reply)"
  obtains (Known) r where "t' = t" "reply = Replayed"
      "Option.bind (contextless_key c) (find_attempt t) = Some (r, cp_result c)"
  | (Closed) "t' = t" "reply = AlreadyClosed" "tk_closed t"
  | (Replay) r where "t' = record_attempt c r t" "Option.bind (contextless_key c) (find_attempt t) = None"
  | (Record) current u where "Option.bind (contextless_key c) (find_attempt t) = None" "\<not> tk_closed t"
      "resolve_action_run t (cp_run_id c) = Inr (Some current)"
      "finish_stage_run (sr_id current) (run_status_of c) (Some (cp_result c)) (Some (cp_summary c)) t = Some u"
      "t' = record_attempt c (sr_id current) u \<or>
       (\<exists>route. prepare_stage_completion ready w (record_attempt c (sr_id current) u) (Some (finished_of current)) =
            Inr (Some route) \<and>
          t' = execute_stage_transition resolve run_id oc route (record_attempt c (sr_id current) u))"
proof -
  obtain res where res: "record_completion legacy_retry c t = Inr res"
    using assms by (auto simp: complete_stage_def split: if_splits sum.splits)
  from res show ?thesis
  proof (cases rule: record_completion_cases)
    case (Known r)
    then show ?thesis
      using assms res that(1) by (auto simp: complete_stage_def split: if_splits)
  next
    case Closed
    then show ?thesis
      using assms res that(2) by (auto simp: complete_stage_def split: if_splits)
  next
    case (Verdict current)
    from Verdict(4) show ?thesis
    proof (cases rule: record_verdict_cases)
      case (Replay r)
      then show ?thesis
        using assms res Verdict that(3) by (auto simp: complete_stage_def split: if_splits)
    next
      case (Finish u)
      then show ?thesis
        using assms res Verdict that(4)
        by (auto simp: complete_stage_def split: if_splits sum.splits option.splits)
    qed
  qed
qed

lemma complete_rounds:
  assumes "complete_stage ready resolve legacy_retry w run_id oc c t = Inr (t', reply)"
  shows "tk_revision_rounds t' = tk_revision_rounds t"
  using assms by (cases rule: complete_stage_cases) (auto simp: finish_stage_run_frame)

lemma complete_attempts:
  assumes "complete_stage ready resolve legacy_retry w run_id oc c t = Inr (t', reply)"
  obtains more where "tk_attempts t' = tk_attempts t @ more"
  using assms by (cases rule: complete_stage_cases) (auto simp: record_attempt_attempts finish_stage_run_frame)

subsection \<open>What a revision does\<close>

definition charged :: "revision_request \<Rightarrow> task \<Rightarrow> task" where
  "charged rv t = t\<lparr>tk_revision_rounds := (if rv_agent rv then tk_revision_rounds t + 1 else 0)\<rparr>"

lemma finalize_revision_cases:
  assumes "finalize_revision verdict_json rv concluded limit t = Inr (t', rounds)"
  obtains "finish_concluded_run concluded (verdict_json (rv_summary rv)) (rv_summary rv) (charged rv t) = Inr t'"
    "\<not> (rv_agent rv \<and> limit > 0 \<and> tk_revision_rounds t \<ge> limit)"
  using assms
  by (cases "finish_concluded_run concluded (verdict_json (rv_summary rv)) (rv_summary rv) (charged rv t)")
    (auto simp: finalize_revision_def claim_agent_revision_round_def reset_task_revision_rounds_def charged_def
      split: if_splits)

lemma request_revision_cases:
  assumes "request_revision ready from_str verdict_json ctx resolve w run_id oc rv t = Inr (t', reply)"
  obtains (Parked) concluded result where
      "validate_revision_run_binding t (rv_run_id rv) (rv_agent rv) = Inr concluded"
      "finish_concluded_run concluded result (rv_prompt rv) t = Inr t'" "revision_label rv reply = AgentParked"
  | (Started) concluded result rq u feedback round where
      "validate_revision_run_binding t (rv_run_id rv) (rv_agent rv) = Inr concluded"
      "prepare_revision_task ready from_str ctx w t (rv_target rv) feedback round = Inr rq"
      "finish_concluded_run concluded result (rv_summary rv) (charged rv t) = Inr u"
      "\<not> (rv_agent rv \<and> revision_limit w > 0 \<and> tk_revision_rounds t \<ge> revision_limit w)"
      "t' = execute_stage_transition resolve run_id oc (RunRoute rq) u"
      "revision_label rv reply = (if rv_agent rv then AgentRevised else HumanRevised)"
proof -
  obtain concluded where v: "validate_revision_run_binding t (rv_run_id rv) (rv_agent rv) = Inr concluded"
    using assms by (auto simp: request_revision_def split: if_splits sum.splits)
  show ?thesis
  proof (cases "rv_agent rv \<and> revision_limit w > 0 \<and> tk_revision_rounds t \<ge> revision_limit w")
    case True
    then have "park_exhausted_revision verdict_json rv concluded (revision_limit w) t = Inr (t', reply)"
      using assms v by (auto simp: request_revision_def split: if_splits)
    then show ?thesis
      by (cases "finish_concluded_run concluded
            (verdict_json (PARKED_SUMMARY (revision_limit w) (rv_summary rv))) (rv_prompt rv) t")
        (auto intro!: Parked [OF v] simp: park_exhausted_revision_def revision_label_def)
  next
    case False
    then have "start_revision ready from_str verdict_json ctx resolve w run_id oc rv concluded t = Inr (t', reply)"
      using assms v by (auto simp: request_revision_def split: if_splits)
    then obtain rq u rounds where p: "prepare_revision_task ready from_str ctx w t (rv_target rv)
          (if trim (rv_prompt rv) = [] then rv_summary rv else rv_prompt rv)
          (announced_round rv (revision_limit w) t) = Inr rq"
      and f: "finalize_revision verdict_json rv concluded (revision_limit w) t = Inr (u, rounds)"
      and t': "t' = execute_stage_transition resolve run_id oc (RunRoute rq) u"
      and r: "reply = RevisionStarted rounds (revision_limit w)"
      unfolding start_revision_def Let_def by (auto split: sum.splits)
    from f show ?thesis
      using r by (cases rule: finalize_revision_cases) (rule Started [OF v p _ False t'], simp_all add: revision_label_def)
  qed
qed

lemma finish_concluded_frame:
  assumes "finish_concluded_run concluded result feedback t = Inr t'"
  shows "tk_revision_rounds t' = tk_revision_rounds t" and "tk_attempts t' = tk_attempts t"
  using assms
  by (auto simp: finish_concluded_run_def ok_or_def finish_stage_run_frame split: option.splits)

lemma charged_simps [simp]:
  "tk_revision_rounds (charged rv t) = (if rv_agent rv then tk_revision_rounds t + 1 else 0)"
  "tk_attempts (charged rv t) = tk_attempts t" "tk_runs (charged rv t) = tk_runs t"
  "tk_closed (charged rv t) = tk_closed t" "tk_stage (charged rv t) = tk_stage t"
  by (simp_all add: charged_def)

lemma revision_attempts:
  assumes "request_revision ready from_str verdict_json ctx resolve w run_id oc rv t = Inr (t', reply)"
  shows "tk_attempts t' = tk_attempts t"
  using assms by (cases rule: request_revision_cases) (auto simp: finish_concluded_frame)

lemma revision_rounds_step:
  assumes "request_revision ready from_str verdict_json ctx resolve w run_id oc rv t = Inr (t', reply)"
    and "revision_label rv reply \<noteq> HumanRevised"
  shows "tk_revision_rounds t' = tk_revision_rounds t + (if revision_label rv reply = AgentRevised then 1 else 0) \<and>
    (revision_limit w > 0 \<and> tk_revision_rounds t \<le> revision_limit w \<longrightarrow> tk_revision_rounds t' \<le> revision_limit w)"
  using assms(1)
proof (cases rule: request_revision_cases)
  case (Parked concluded result)
  then show ?thesis
    by (simp add: finish_concluded_frame(1) [OF Parked(2)])
next
  case (Started concluded result rq u)
  then show ?thesis
    using assms(2) by (auto simp: finish_concluded_frame(1) [OF Started(3)] split: if_splits)
qed

subsection \<open>The properties of traces\<close>

text \<open>
  C8: Review agents cannot send a task around for ever. Take any sequence of advances, completions and
  revision requests on a task of a workflow that sets a positive limit, with no revision asked for by a
  human. The task's counter then counts exactly the revisions agents started, it never passes the limit, and
  so agents start at most as many revisions as the budget had left.
\<close>

theorem agent_revisions_bounded:
  assumes "task_trace w t labels u" and "revision_limit w > 0"
    and "tk_revision_rounds t \<le> revision_limit w" and "HumanRevised \<notin> set labels"
  shows "tk_revision_rounds u = tk_revision_rounds t + int (count_list labels AgentRevised) \<and>
    tk_revision_rounds u \<le> revision_limit w"
  using assms
proof (induction rule: task_trace.induct)
  case (Revise t labels u run_id ready from_str verdict_json ctx resolve oc rv v reply)
  then have "revision_label rv reply \<noteq> HumanRevised"
    by auto
  from revision_rounds_step [OF Revise.hyps(3) this] Revise show ?case
    by auto
qed (auto simp: advance_frame complete_rounds)

definition sample_revision :: "task \<Rightarrow> revision_error + (task \<times> revision_reply)" where
  "sample_revision =
     request_revision (\<lambda>_. True) (\<lambda>_. None) (\<lambda>s. s)
       \<lparr>rx_resumable = None, rx_superseded = False, rx_edited = False\<rparr> (\<lambda>_. (lit ''codex'', None, None)) sample_flow
       (lit ''r2'') (all_well (Some (lit ''b2'')))
       \<lparr>rv_target = lit ''build'', rv_prompt = lit ''fix it'', rv_summary = lit ''no'', rv_run_id = None, rv_agent = True\<rparr>"

theorem agent_revisions_bounded_witness:
  "\<exists>u. task_trace sample_flow (sample_task [sample_run (lit ''r1'') (lit ''build'') MAIN_KIND RUNNING]) [AgentRevised] u \<and>
     tk_revision_rounds u = 1 \<and> tk_revision_rounds u \<le> revision_limit sample_flow"
proof -
  let ?t = "sample_task [sample_run (lit ''r1'') (lit ''build'') MAIN_KIND RUNNING]"
  have "(case sample_revision ?t of Inr (_, reply) \<Rightarrow> reply = RevisionStarted 1 5 | Inl _ \<Rightarrow> False)"
    by code_simp
  then obtain u where "sample_revision ?t = Inr (u, RevisionStarted 1 5)"
    by (auto split: sum.splits)
  moreover have "lit ''r2'' \<notin> sr_id ` set (tk_runs ?t)"
    by (simp add: sample_defs)
  ultimately have trace: "task_trace sample_flow ?t [AgentRevised] u"
    using task_trace.Revise [OF task_trace.Done]
    by (fastforce simp: sample_revision_def revision_label_def)
  show ?thesis
    using trace agent_revisions_bounded [OF trace]
    by (auto simp: revision_limit_def DEFAULT_REVISION_LIMIT_def sample_defs)
qed

interpretation recorded_attempts: task_invariant w "\<lambda>t. \<exists>later. tk_attempts t = before @ later" for w before
proof
  fix t t' :: task and run_id ready resolve oc expected intent
  assume "advance_stage ready resolve w run_id oc expected intent t = Inr t'"
    and "\<exists>later. tk_attempts t = before @ later"
  then show "\<exists>later. tk_attempts t' = before @ later"
    by (simp add: advance_frame)
next
  fix t t' :: task and run_id ready resolve legacy_retry oc c reply
  assume c: "complete_stage ready resolve legacy_retry w run_id oc c t = Inr (t', reply)"
    and "\<exists>later. tk_attempts t = before @ later"
  then show "\<exists>later. tk_attempts t' = before @ later"
    using complete_attempts [OF c] by (metis append_assoc)
next
  fix t t' :: task and run_id ready from_str verdict_json ctx resolve oc rv answer
  assume "request_revision ready from_str verdict_json ctx resolve w run_id oc rv t = Inr (t', answer)"
    and "\<exists>later. tk_attempts t = before @ later"
  then show "\<exists>later. tk_attempts t' = before @ later"
    by (simp add: revision_attempts)
qed

lemma complete_records_key:
  assumes "complete_stage ready resolve legacy_retry w run_id oc c t = Inr (t', reply)"
    and "reply \<noteq> AlreadyClosed" and "contextless_key c = Some key"
  shows "\<exists>r. find_attempt t' key = Some (r, cp_result c)"
  using assms(1)
proof (cases rule: complete_stage_cases)
  case (Record current u)
  then have "tk_attempts t' = tk_attempts t @ [(key, sr_id current, cp_result c)]" "find_attempt t key = None"
    using assms(3) by (auto simp: record_attempt_attempts finish_stage_run_frame(2) [OF Record(4)])
  then show ?thesis
    by (simp add: find_attempt_def map_add_Some_iff)
qed (use assms(2,3) in \<open>auto simp: record_attempt_attempts find_attempt_def map_add_Some_iff\<close>)

lemma find_attempt_grows:
  "find_attempt t key = Some a \<Longrightarrow> tk_attempts u = tk_attempts t @ later \<Longrightarrow> find_attempt u key = Some a"
  by (simp add: find_attempt_def map_add_Some_iff)

lemma keyed_retry:
  assumes "complete_stage ready resolve legacy_retry w run_id oc c t = Inr (t1, reply)"
    and "reply \<noteq> AlreadyClosed" and "contextless_key c = Some key" and "task_trace w t1 labels u"
  shows "complete_stage ready' resolve' legacy_retry' w' run_id' oc' c u = Inr (u, Replayed)"
proof -
  obtain r where "find_attempt t1 key = Some (r, cp_result c)"
    using complete_records_key [OF assms(1-3)] by blast
  moreover obtain later where "tk_attempts u = tk_attempts t1 @ later"
    using recorded_attempts.along_trace [OF assms(4), of "tk_attempts t1"] by auto
  ultimately have "find_attempt u key = Some (r, cp_result c)"
    by (rule find_attempt_grows)
  then show ?thesis
    using assms(1,3) by (auto simp: complete_stage_def record_completion_def split: if_splits)
qed

subsection \<open>At most one run is under way\<close>

definition run_inv :: "workflow_definition \<Rightarrow> task \<Rightarrow> bool" where
  "run_inv w t \<longleftrightarrow>
     distinct (map sr_id (tk_runs t)) \<and> length (running_stage_runs t) \<le> 1 \<and>
     (\<exists>stage i. tk_stage t = Some stage \<and> resolve_stage_position w stage = Some (AtStage i) \<and>
        (running_stage_runs t = [] \<or> (\<exists>run. latest_stage_run t = Some run \<and> sr_status run = RUNNING) \<or>
         st_post (wf_stages w ! i) = None))"

lemma filter_finish:
  "status \<noteq> RUNNING \<Longrightarrow>
   filter (\<lambda>run. sr_status run = RUNNING)
     (map (\<lambda>run. if sr_id run = run_id then finish_run status result feedback run else run) runs) =
   filter (\<lambda>run. sr_id run \<noteq> run_id) (filter (\<lambda>run. sr_status run = RUNNING) runs)"
  by (induction runs) (auto simp: finish_run_def)

lemma finish_stage_run_runs:
  assumes "finish_stage_run run_id status result feedback t = Some t'" and "status \<noteq> RUNNING"
  shows "running_stage_runs t' = filter (\<lambda>run. sr_id run \<noteq> run_id) (running_stage_runs t)"
    and "map sr_id (tk_runs t') = map sr_id (tk_runs t)"
    and "tk_stage t' = tk_stage t" and "tk_closed t' = tk_closed t"
proof -
  have t': "t' = t\<lparr>tk_runs := map (\<lambda>run. if sr_id run = run_id then finish_run status result feedback run
      else run) (tk_runs t)\<rparr>"
    using assms(1) by (simp add: finish_stage_run_def split: if_splits)
  show "running_stage_runs t' = filter (\<lambda>run. sr_id run \<noteq> run_id) (running_stage_runs t)"
    using filter_finish [OF assms(2)] by (simp add: t' running_stage_runs_def)
  show "map sr_id (tk_runs t') = map sr_id (tk_runs t)"
    by (auto simp: t' finish_run_def)
  show "tk_stage t' = tk_stage t" "tk_closed t' = tk_closed t"
    by (simp_all add: t')
qed

lemma find_rev_filter: "filter P xs = [x] \<Longrightarrow> find P (rev xs) = Some x"
proof -
  have "find P ys = (case filter P ys of [] \<Rightarrow> None | y # _ \<Rightarrow> Some y)" for ys
    by (induction ys) auto
  moreover assume "filter P xs = [x]"
  then have "filter P (rev xs) = [x]"
    by (simp add: rev_filter [symmetric])
  ultimately show ?thesis
    by simp
qed

lemma at_most_one_cases:
  assumes "length (running_stage_runs t) \<le> 1"
  obtains (calm) "running_stage_runs t = []" | (one) run where "running_stage_runs t = [run]"
  using assms by (cases "running_stage_runs t" rule: list.exhaust; cases "tl (running_stage_runs t)") auto

lemma finish_latest_runs:
  assumes "length (running_stage_runs t) \<le> 1"
  defines "t' \<equiv> finish_latest_running_stage_run SUCCEEDED t"
  shows "running_stage_runs t' = [] \<and> map sr_id (tk_runs t') = map sr_id (tk_runs t) \<and>
    tk_stage t' = tk_stage t \<and> tk_closed t' = tk_closed t"
  using assms(1)
proof (cases rule: at_most_one_cases)
  case (one run)
  then have n: "newest (\<lambda>run. sr_status run = RUNNING) t = Some run"
    by (auto simp: newest_def running_stage_runs_def intro: find_rev_filter)
  have "run \<in> set (running_stage_runs t)"
    using one by simp
  then have "find_stage_run t (sr_id run) \<noteq> None"
    by (auto simp: find_stage_run_def find_None_iff running_stage_runs_def)
  then obtain u where "finish_stage_run (sr_id run) SUCCEEDED None None t = Some u"
    by (simp add: finish_stage_run_def)
  moreover from this have "t' = u"
    by (simp add: t'_def finish_latest_running_stage_run_def n)
  ultimately show ?thesis
    using finish_stage_run_runs [of "sr_id run" SUCCEEDED None None t u] one by simp
qed (simp add: t'_def)

lemma run_inv_calm:
  assumes "distinct (map sr_id (tk_runs t))" and "running_stage_runs t = []" and "tk_stage t = Some stage"
    and "resolve_stage_position w stage = Some (AtStage i)"
  shows "run_inv w t"
  using assms by (simp add: run_inv_def)

lemma running_insert:
  "running_stage_runs (insert_stage_run run t) =
     running_stage_runs t @ (if sr_status run = RUNNING then [run] else [])"
  by (simp add: running_stage_runs_def insert_stage_run_def)

lemma insert_stage_run_simps [simp]:
  "tk_runs (insert_stage_run run t) = tk_runs t @ [run]" "tk_stage (insert_stage_run run t) = tk_stage t"
  "tk_closed (insert_stage_run run t) = tk_closed t"
  by (simp_all add: insert_stage_run_def)

lemma run_inv_started:
  assumes "distinct (map sr_id (tk_runs t))" and "running_stage_runs t = []"
    and "sr_id run \<notin> sr_id ` set (tk_runs t)" and "tk_runs t' = tk_runs (insert_stage_run run t)"
    and "sr_status run = RUNNING" and "tk_stage t' = Some stage"
    and "resolve_stage_position w stage = Some (AtStage i)"
  shows "run_inv w t'"
proof -
  have "running_stage_runs t' = [run]"
    using assms(2,4,5) by (simp add: running_stage_runs_def)
  then show ?thesis
    using assms by (simp add: run_inv_def)
qed

lemma run_inv_failed:
  assumes "run_inv w t" and "sr_id run \<notin> sr_id ` set (tk_runs t)" and "sr_status run \<noteq> RUNNING"
    and "tk_stage t = Some stage" and "resolve_stage_position w stage = Some (AtStage i)"
    and "running_stage_runs t = [] \<or> st_post (wf_stages w ! i) = None"
  shows "run_inv w (insert_stage_run run t)"
  using assms by (auto simp: run_inv_def running_insert)

lemma fail_bound_runs:
  fixes error :: ustr
  assumes "run \<in> set (tk_runs t)" and "sr_id run = run_id" and "\<forall>r \<in> set (running_stage_runs t). sr_id r = run_id"
  defines "t' \<equiv> fail_bound_stage_run run_id error t"
  shows "running_stage_runs t' = [] \<and> map sr_id (tk_runs t') = map sr_id (tk_runs t) \<and> tk_stage t' = tk_stage t"
proof -
  have "find_stage_run t run_id \<noteq> None"
    using assms(1,2) by (auto simp: find_stage_run_def find_None_iff)
  then obtain u where u: "finish_stage_run run_id FAILED (Some (SPAWN_FAILED error)) (Some (lit ''stage spawn failed'')) t
      = Some u"
    by (simp add: finish_stage_run_def)
  then have "t' = u"
    by (simp add: t'_def fail_bound_stage_run_def)
  then show ?thesis
    using finish_stage_run_runs [OF u] assms(3) by (simp add: filter_empty_conv)
qed

lemma spawn_run_inv:
  assumes inv: "run_inv w t" and fresh: "run_id \<notin> sr_id ` set (tk_runs t)"
    and item: "resolve_stage_position w (rq_item_stage rq) = Some (AtStage j)"
    and s: "tk_stage t = Some stage" "resolve_stage_position w stage = Some (AtStage i)"
    and safe: "rq_kind rq = POST_KIND \<or> running_stage_runs t = [] \<or> st_post (wf_stages w ! i) = None"
  shows "run_inv w (spawn_prepared_stage_run resolve run_id oc rq t)"
proof -
  let ?acc = "finish_latest_running_stage_run SUCCEEDED t"
  let ?rec = "record_stage_transition_run resolve run_id rq ?acc"
  let ?run = "request_run resolve run_id rq RUNNING None (rq_feedback rq) True"
  have acc: "running_stage_runs ?acc = []" "map sr_id (tk_runs ?acc) = map sr_id (tk_runs t)" "tk_stage ?acc = tk_stage t"
    "distinct (map sr_id (tk_runs ?acc))"
    using finish_latest_runs inv by (simp_all add: run_inv_def)
  have ids: "run_id \<notin> sr_id ` set (tk_runs ?acc)"
    using fresh acc(2) by (metis list.set_map)
  have rec_runs: "tk_runs ?rec = tk_runs (insert_stage_run ?run ?acc)" "tk_stage ?rec = tk_stage t"
    "running_stage_runs ?rec = [?run]"
    by (simp_all add: record_stage_transition_run_def running_insert acc)
  have failed: "run_inv w (fail_bound_stage_run run_id error ?rec)" for error
    using fail_bound_runs [of ?run ?rec run_id error] rec_runs acc fresh s
    by (intro run_inv_calm [OF _ _ _ s(2)]) auto
  have started: "run_inv w t'" if "reconcile_stage_operation rq branch ?rec = Some t'" for t' branch
    by (rule run_inv_started [OF acc(4,1) _ _ _ _ item, of ?run])
      (use that ids in \<open>auto simp: reconcile_stage_operation_def record_stage_transition_run_def split: if_splits\<close>)
  have unready: "run_inv w (record_stage_transition_failure resolve run_id rq error t)"
    if "finish_deferred_stage_setup oc rq = Some error" for error
    unfolding record_stage_transition_failure_def
    using that safe by (intro run_inv_failed [OF inv _ _ s]) (auto simp: fresh finish_deferred_stage_setup_def split: if_splits)
  have "run_inv w ?acc"
    using acc s by (intro run_inv_calm [OF _ _ _ s(2)]) simp_all
  then show ?thesis
    using inv failed started unready
    by (simp add: spawn_prepared_stage_run_def Let_def split: option.split landing.split)
qed

lemma the_single: "length xs \<le> 1 \<Longrightarrow> x \<in> set xs \<Longrightarrow> xs = [x]"
  by (cases xs) auto

lemma latest_filter: "latest_stage_run t = Some run \<Longrightarrow> sr_status run = RUNNING \<Longrightarrow> run \<in> set (running_stage_runs t)"
  using latest_stage_run_mem by (simp add: running_stage_runs_def)

lemma finalize_post_run_inv:
  assumes inv: "run_inv w t" and fresh: "run_id \<notin> sr_id ` set (tk_runs t)"
    and s: "tk_stage t = Some stage" "resolve_stage_position w stage = Some (AtStage i)"
      "st_post (wf_stages w ! i) \<noteq> None"
  shows "run_inv w (finalize_post_operation resolve run_id rq t)"
proof -
  obtain u where u: "finalize_post_operation resolve run_id rq t =
      insert_stage_run (post_run resolve run_id (latest_stage_run t) rq) u"
    "running_stage_runs u = []" "map sr_id (tk_runs u) = map sr_id (tk_runs t)" "tk_stage u = tk_stage t"
  proof (cases "\<exists>run. latest_stage_run t = Some run \<and> sr_status run = RUNNING")
    case True
    then obtain run where r: "latest_stage_run t = Some run" "sr_status run = RUNNING"
      by blast
    then have one: "running_stage_runs t = [run]"
      using latest_filter [OF r] inv by (auto simp: run_inv_def intro: the_single)
    have "find_stage_run t (sr_id run) \<noteq> None"
      using latest_stage_run_mem [OF r(1)] by (auto simp: find_stage_run_def find_None_iff)
    then obtain u where "finish_stage_run (sr_id run) SUCCEEDED None None t = Some u"
      by (simp add: finish_stage_run_def)
    with that [of u] finish_stage_run_runs [OF this] r one show ?thesis
      by (simp add: finalize_post_operation_def)
  next
    case False
    then have "running_stage_runs t = []"
      using inv s by (auto simp: run_inv_def)
    then show ?thesis
      using that [of t] False by (auto simp: finalize_post_operation_def Let_def split: option.split)
  qed
  have "run_id \<notin> sr_id ` set (tk_runs u)"
    using fresh u(3) by (metis list.set_map)
  then show ?thesis
    using u inv s by (intro run_inv_started [of u "post_run resolve run_id (latest_stage_run t) rq"])
      (auto simp: run_inv_def)
qed

lemma stage_name_resolves:
  assumes "i < length (wf_stages w)"
  obtains j where "resolve_stage_position w (st_name (wf_stages w ! i)) = Some (AtStage j)"
proof -
  have "\<exists>stage \<in> set (wf_stages w). st_name stage = st_name (wf_stages w ! i)"
    using assms nth_mem by blast
  then show ?thesis
    using that by (auto simp: resolve_stage_position_def position_takeWhile)
qed

lemma close_run_inv: "run_inv w t \<Longrightarrow> run_inv w (close_pipeline_item t)"
proof -
  assume inv: "run_inv w t"
  have "running_stage_runs (close_pipeline_item t) = []"
    by (auto simp: close_pipeline_item_def cancel_running_stage_runs_def running_stage_runs_def filter_empty_conv)
  moreover have "map sr_id (tk_runs (close_pipeline_item t)) = map sr_id (tk_runs t)"
    by (auto simp: close_pipeline_item_def cancel_running_stage_runs_def)
  moreover have "tk_stage (close_pipeline_item t) = tk_stage t"
    by (simp add: close_pipeline_item_def cancel_running_stage_runs_def)
  ultimately show ?thesis
    using inv by (auto simp: run_inv_def)
qed

lemma swap_run_inv:
  assumes inv: "run_inv w t" and fresh: "run_id \<notin> sr_id ` set (tk_runs t)"
    and s: "tk_stage t = Some stage" "resolve_stage_position w stage = Some (AtStage i)"
    and safe: "running_stage_runs t = [] \<or> st_post (wf_stages w ! i) = None"
    and route: "moves_to w k route"
  shows "run_inv w (execute_stage_transition resolve run_id oc route t)"
proof (cases "k < length (wf_stages w)")
  case True
  obtain j where "resolve_stage_position w (st_name (wf_stages w ! k)) = Some (AtStage j)"
    using stage_name_resolves [OF True] .
  then obtain rq where "route = RunRoute rq" "resolve_stage_position w (rq_item_stage rq) = Some (AtStage j)"
    using True route by (auto simp: moves_to_def)
  then show ?thesis
    using spawn_run_inv [OF inv fresh _ s] safe by (simp add: execute_stage_transition_def)
next
  case False
  then have "route = CloseRoute"
    using route by (simp add: moves_to_def)
  then show ?thesis
    using inv close_run_inv by (simp add: execute_stage_transition_def)
qed

lemma post_run_inv:
  assumes inv: "run_inv w t" and fresh: "run_id \<notin> sr_id ` set (tk_runs t)"
    and s: "tk_stage t = Some stage" "resolve_stage_position w stage = Some (AtStage i)"
    and route: "dispatches_post w i route"
  shows "run_inv w (execute_stage_transition resolve run_id oc route t)"
proof -
  obtain rq where r: "route = PostRoute rq" "rq_kind rq = POST_KIND" "rq_item_stage rq = st_name (wf_stages w ! i)"
    and p: "st_post (wf_stages w ! i) \<noteq> None"
    using route by (auto simp: dispatches_post_def)
  have "st_name (wf_stages w ! i) = stage"
    using resolve_position_sound(1) [OF s(2)] by simp
  then have "resolve_stage_position w (rq_item_stage rq) = Some (AtStage i)"
    using s(2) r(3) by simp
  then show ?thesis
    using spawn_run_inv [OF inv fresh _ s] finalize_post_run_inv [OF inv fresh s p] inv r(1,2)
    by (simp add: execute_stage_transition_def dispatch_prepared_post_def split: delivery.split)
qed

lemma advance_run_inv:
  assumes inv: "run_inv w t" and fresh: "run_id \<notin> sr_id ` set (tk_runs t)"
    and a: "advance_stage ready resolve w run_id oc expected intent t = Inr t'"
  shows "run_inv w t'"
proof (cases "running_post t")
  case True
  then show ?thesis
    using inv a by (auto simp: advance_stage_def split: if_splits)
next
  case False
  obtain stage i where s: "tk_stage t = Some stage" "resolve_stage_position w stage = Some (AtStage i)"
    using inv by (auto simp: run_inv_def)
  obtain route where route: "prepare_advance_stage ready w t intent = Inr route"
    and t': "t' = execute_stage_transition resolve run_id oc route t"
    using a False by (auto simp: advance_stage_def split: if_splits sum.splits)
  have "advance_from_stage ready w t i intent = Inr route"
    using route s by (simp add: prepare_advance_stage_def split: if_splits)
  then show ?thesis
  proof (cases rule: advance_from_stage_cases)
    case Post
    then show ?thesis
      using post_run_inv [OF inv fresh s] t' by simp
  next
    case Swap
    have "running_stage_runs t = [] \<or> st_post (wf_stages w ! i) = None"
      using Swap(3) inv s by (auto simp: run_inv_def post_ran_def)
    then show ?thesis
      using swap_run_inv [OF inv fresh s _ Swap(1)] t' by simp
  qed
qed

lemma map_sum_eq_Inr: "map_sum f g x = Inr y \<longleftrightarrow> (\<exists>z. x = Inr z \<and> y = g z)"
  by (cases x) auto

lemma complete_from_stage_route:
  assumes "complete_from_stage ready w t i finished = Inr (Some route)"
  shows "moves_to w (i + 1) route \<or> dispatches_post w i route"
proof -
  consider (swap) trigger where "prepare_swap_to_index ready w t (i + 1) trigger None = Inr route"
    | (post) "prepare_post_dispatch ready w t i Auto = Inr route"
    using assms
    by (auto simp: complete_from_stage_def Let_def map_sum_eq_Inr split: if_splits sum.splits stage_transition.splits)
  then show ?thesis
    by cases (auto dest: prepare_swap_spec prepare_post_spec)
qed

lemma resolve_action_run_running:
  assumes "resolve_action_run t requested = Inr current" and "running_stage_runs t = [run]"
  shows "current = Some run"
  using assms by (auto simp: resolve_action_run_def split: if_splits)

lemma resolve_action_run_calm:
  assumes "resolve_action_run t requested = Inr (Some run)" and "running_stage_runs t = []"
  shows "sr_status run \<noteq> RUNNING"
  using assms latest_filter [of t run] by (auto simp: resolve_action_run_def split: if_splits)

lemma record_attempt_run_inv [simp]: "run_inv w (record_attempt c run_id t) = run_inv w t"
  by (simp add: run_inv_def running_stage_runs_def latest_stage_run_def newest_def)

lemma verdict_calms:
  assumes inv: "run_inv w t" and "resolve_action_run t requested = Inr (Some current)"
    and u: "finish_stage_run (sr_id current) status result feedback t = Some u" and "status \<noteq> RUNNING"
  shows "running_stage_runs u = []" and "run_inv w u" and "tk_stage u = tk_stage t"
    and "set (map sr_id (tk_runs u)) = set (map sr_id (tk_runs t))"
proof -
  note runs = finish_stage_run_runs [OF u assms(4)]
  have "length (running_stage_runs t) \<le> 1"
    using inv by (simp add: run_inv_def)
  then show calm: "running_stage_runs u = []"
    using runs(1) resolve_action_run_running [OF assms(2)] by (cases rule: at_most_one_cases) auto
  show "tk_stage u = tk_stage t" "set (map sr_id (tk_runs u)) = set (map sr_id (tk_runs t))"
    by (simp_all only: runs)
  show "run_inv w u"
    using inv calm runs by (auto simp: run_inv_def)
qed

lemma complete_run_inv:
  assumes inv: "run_inv w t" and fresh: "run_id \<notin> sr_id ` set (tk_runs t)"
    and c: "complete_stage ready resolve legacy_retry w run_id oc c t = Inr (t', reply)"
  shows "run_inv w t'"
  using c
proof (cases rule: complete_stage_cases)
  case (Record current u)
  have "run_status_of c \<noteq> RUNNING"
    by (simp add: run_status_of_def)
  note u = verdict_calms [OF inv Record(3,4) this]
  let ?u = "record_attempt c (sr_id current) u"
  obtain stage i where s: "tk_stage ?u = Some stage" "resolve_stage_position w stage = Some (AtStage i)"
    using u(2) by (auto simp: run_inv_def)
  have fresh': "run_id \<notin> sr_id ` set (tk_runs ?u)"
    using fresh u(4) by simp
  have calm: "running_stage_runs ?u = [] \<or> st_post (wf_stages w ! i) = None"
    using u(1) by (simp add: running_stage_runs_def)
  from Record(5) show ?thesis
  proof
    assume "\<exists>route. prepare_stage_completion ready w ?u (Some (finished_of current)) = Inr (Some route) \<and>
        t' = execute_stage_transition resolve run_id oc route ?u"
    then obtain route where route: "prepare_stage_completion ready w ?u (Some (finished_of current)) = Inr (Some route)"
      and t': "t' = execute_stage_transition resolve run_id oc route ?u"
      by blast
    have "moves_to w (i + 1) route \<or> dispatches_post w i route"
      using route s by (intro complete_from_stage_route) (auto simp: prepare_stage_completion_def split: if_splits)
    then show ?thesis
      using swap_run_inv [OF _ fresh' s calm] post_run_inv [OF _ fresh' s] u(2) t' by auto
  qed (simp add: u(2))
qed (use inv in simp_all)

lemma validate_concludes:
  assumes v: "validate_revision_run_binding t requested agent = Inr concluded" and one: "length (running_stage_runs t) \<le> 1"
  shows "concluded = (case running_stage_runs t of [] \<Rightarrow> None | run # _ \<Rightarrow> Some (sr_id run))"
proof -
  obtain current where current: "resolve_action_run t requested = Inr current"
    using v by (auto simp: validate_revision_run_binding_def split: sum.splits)
  have "running_id current = (case running_stage_runs t of [] \<Rightarrow> None | run # _ \<Rightarrow> Some (sr_id run))"
    using one
  proof (cases rule: at_most_one_cases)
    case calm
    then show ?thesis
      using resolve_action_run_calm [of t requested] current by (auto simp: running_id_def split: option.split)
  next
    case (one run)
    then have "run \<in> set (running_stage_runs t)"
      by simp
    then show ?thesis
      using resolve_action_run_running [OF current one] one by (simp add: running_id_def running_stage_runs_def)
  qed
  moreover have "concluded = running_id current"
    using v current
    by (auto simp: validate_revision_run_binding_def conclude_named_run_def running_id_def
        split: if_splits option.splits)
  ultimately show ?thesis
    by simp
qed

lemma concluded_calms:
  assumes inv: "run_inv w t" and v: "validate_revision_run_binding t requested agent = Inr concluded"
    and f: "finish_concluded_run concluded result feedback t' = Inr u" and t': "tk_runs t' = tk_runs t" "tk_stage t' = tk_stage t"
  shows "running_stage_runs u = [] \<and> run_inv w u \<and> set (map sr_id (tk_runs u)) = set (map sr_id (tk_runs t))"
proof -
  have same: "running_stage_runs t' = running_stage_runs t"
    by (simp add: running_stage_runs_def t')
  have one: "length (running_stage_runs t) \<le> 1"
    using inv by (simp add: run_inv_def)
  have u: "running_stage_runs u = [] \<and> map sr_id (tk_runs u) = map sr_id (tk_runs t) \<and> tk_stage u = tk_stage t"
    using one
  proof (cases rule: at_most_one_cases)
    case calm
    then show ?thesis
      using f validate_concludes [OF v one] same t' by (simp add: finish_concluded_run_def)
  next
    case (one run)
    then have "finish_stage_run (sr_id run) FAILED (Some result) (Some feedback) t' = Some u"
      using f validate_concludes [OF v \<open>length (running_stage_runs t) \<le> 1\<close>]
      by (auto simp: finish_concluded_run_def ok_or_def split: option.splits)
    from finish_stage_run_runs [OF this] one same t' show ?thesis
      by simp
  qed
  then have "set (map sr_id (tk_runs u)) = set (map sr_id (tk_runs t))"
    by (simp only:)
  moreover obtain stage i where "tk_stage u = Some stage" "resolve_stage_position w stage = Some (AtStage i)"
    using inv u by (auto simp: run_inv_def)
  moreover have "distinct (map sr_id (tk_runs u))"
    using inv u by (simp add: run_inv_def)
  ultimately show ?thesis
    using u run_inv_calm by blast
qed

lemma revision_item_stage:
  assumes "prepare_revision_task ready from_str ctx w t target feedback round = Inr rq"
  obtains j where "resolve_stage_position w (rq_item_stage rq) = Some (AtStage j)"
proof -
  obtain stage item kind where target: "revision_target w target = Inr (stage, item, kind)"
    and rq: "rq_item_stage rq = (if kind = MAIN_KIND \<and> rx_resumable ctx \<noteq> None then st_name stage else item)"
    using assms
    by (auto simp: prepare_revision_task_def map_sum_eq_Inr prepare_stage_run_for_target_def resume_request_def
        fresh_request_def Let_def split: if_splits sum.splits option.splits)
  then obtain i where "i < length (wf_stages w)" "rq_item_stage rq = st_name (wf_stages w ! i)"
    by (auto simp: revision_target_def dest: resolve_position_sound split: option.splits stage_position.splits if_splits)
  then show ?thesis
    using that stage_name_resolves by metis
qed

lemma revision_run_inv:
  assumes inv: "run_inv w t" and fresh: "run_id \<notin> sr_id ` set (tk_runs t)"
    and r: "request_revision ready from_str verdict_json ctx resolve w run_id oc rv t = Inr (t', reply)"
  shows "run_inv w t'"
  using r
proof (cases rule: request_revision_cases)
  case (Parked concluded result)
  then show ?thesis
    using concluded_calms [OF inv Parked(1,2)] by simp
next
  case (Started concluded result rq u)
  have u: "running_stage_runs u = []" "run_inv w u" "run_id \<notin> sr_id ` set (tk_runs u)"
    using concluded_calms [OF inv Started(1,3)] fresh by simp_all
  obtain j where item: "resolve_stage_position w (rq_item_stage rq) = Some (AtStage j)"
    using revision_item_stage [OF Started(2)] .
  obtain stage i where s: "tk_stage u = Some stage" "resolve_stage_position w stage = Some (AtStage i)"
    using u(2) by (auto simp: run_inv_def)
  show ?thesis
    using spawn_run_inv [OF u(2,3) item s] u(1) Started(5) by (simp add: execute_stage_transition_def)
qed

interpretation single_run: task_invariant w "run_inv w" for w
  by unfold_locales (fact advance_run_inv complete_run_inv revision_run_inv)+

text \<open>
  C6: No sequence of advances, completions and revisions, each with any outcome of the setup commands, the
  daemon and the close, ever leaves a task with two runs under way. A run that is under way is the task's
  newest, except at a stage without a post, and the ids of the runs stay distinct, so the ambiguous-run
  refusal is never met.
\<close>

theorem one_run_under_way:
  assumes "task_trace w t labels u" and "run_inv w t"
  shows "run_inv w u"
  using assms by (rule single_run.along_trace)

theorem one_run_under_way_witness:
  "\<exists>u. task_trace sample_flow (sample_task [sample_run (lit ''r1'') (lit ''build'') MAIN_KIND RUNNING]) [Advanced] u \<and>
     length (tk_runs u) = 2 \<and> run_inv sample_flow u"
proof -
  let ?t = "sample_task [sample_run (lit ''r1'') (lit ''build'') MAIN_KIND RUNNING]"
  let ?advance = "advance_stage (\<lambda>_. True) (\<lambda>_. (lit ''codex'', None, None)) sample_flow (lit ''r2'') (all_well None)
      None \<lparr>ai_trigger = Operator, ai_override = None\<rparr> ?t"
  have p: "resolve_stage_position sample_flow (lit ''build'') = Some (AtStage 0)"
    by code_simp
  have inv: "run_inv sample_flow ?t"
    using p by (simp add: run_inv_def running_stage_runs_def latest_stage_run_def newest_def sample_defs
        resolve_stage_position_def)
  have "(case ?advance of Inr u \<Rightarrow> length (tk_runs u) = 2 | Inl _ \<Rightarrow> False)"
    by code_simp
  then obtain u where u: "?advance = Inr u" "length (tk_runs u) = 2"
    by (auto split: sum.splits)
  have "lit ''r2'' \<notin> sr_id ` set (tk_runs ?t)"
    by (simp add: sample_defs)
  from task_trace.Advance [OF task_trace.Done this u(1)]
  have trace: "task_trace sample_flow ?t [Advanced] u"
    by simp
  show ?thesis
    using trace u(2) one_run_under_way [OF trace inv] by blast
qed

subsection \<open>Completions delivered twice\<close>

lemma find_stage_run_distinct:
  "distinct (map sr_id (tk_runs t)) \<Longrightarrow> run \<in> set (tk_runs t) \<Longrightarrow> find_stage_run t (sr_id run) = Some run"
proof -
  have "distinct (map sr_id runs) \<Longrightarrow> run \<in> set runs \<Longrightarrow> find (\<lambda>r. sr_id r = sr_id run) runs = Some run" for runs
    by (induction runs) (auto simp: rev_image_eqI)
  then show "distinct (map sr_id (tk_runs t)) \<Longrightarrow> run \<in> set (tk_runs t) \<Longrightarrow> find_stage_run t (sr_id run) = Some run"
    by (simp add: find_stage_run_def)
qed

lemma accepted_status:
  "complete_stage ready resolve legacy_retry w run_id oc c t = Inr r \<Longrightarrow>
   cp_status c = lit ''success'' \<or> cp_status c = lit ''failure''"
  by (auto simp: complete_stage_def split: if_splits)

text \<open>With at most one run under way the run acted on is found, and it is one of the task's.\<close>

lemma resolve_action_run_single:
  assumes "run_inv w t" and "tk_runs t \<noteq> []" and "trim r \<noteq> []"
  obtains current where "resolve_action_run t (Some r) = Inr (Some current)" and "current \<in> set (tk_runs t)"
proof -
  have "length (running_stage_runs t) \<le> 1"
    using assms(1) by (simp add: run_inv_def)
  then show thesis
  proof (cases rule: at_most_one_cases)
    case calm
    have "latest_stage_run t = Some (last (tk_runs t))"
      using assms(2) by (cases "tk_runs t" rule: rev_cases) simp_all
    with calm assms(2,3) that [of "last (tk_runs t)"] show ?thesis
      by (simp add: resolve_action_run_def)
  next
    case (one run)
    then have "run \<in> set (tk_runs t)"
      by (auto simp: running_stage_runs_def filter_eq_Cons_iff)
    with one assms(3) that show ?thesis
      by (simp add: resolve_action_run_def)
  qed
qed

lemma run_bound_retry:
  assumes inv: "run_inv w u" and status: "cp_status c = lit ''success'' \<or> cp_status c = lit ''failure''"
    and bound: "cp_run_id c = Some r" "trim r \<noteq> []" and legacy: "\<forall>key. legacy_retry r key = None"
    and held: "find_stage_run u r = Some run" "same_verdict c run"
  shows "complete_stage ready resolve legacy_retry w' run_id oc c u =
    Inr (u, if tk_closed u then AlreadyClosed else Replayed)"
proof (cases "tk_closed u")
  case True
  with status bound show ?thesis
    by (auto simp: complete_stage_def record_completion_def contextless_key_def)
next
  case False
  have run: "run \<in> set (tk_runs u)" "sr_id run = r"
    using held(1) by (auto simp: find_stage_run_def find_Some_iff)
  then have "tk_runs u \<noteq> []" by auto
  then obtain current where current: "resolve_action_run u (Some r) = Inr (Some current)" "current \<in> set (tk_runs u)"
    using resolve_action_run_single [OF inv _ bound(2)] by blast
  have "completed_run_id legacy_retry c current = r"
    using bound legacy by (simp add: completed_run_id_def split: option.split)
  moreover have "same_verdict c current" if "sr_id current = r"
    using find_stage_run_distinct [OF _ current(2)] inv that held by (simp add: run_inv_def)
  ultimately have "record_verdict legacy_retry c current u = Inr (RecordReplayed u)"
    using held bound by (simp add: record_verdict_def Let_def record_attempt_def contextless_key_def)
  with False status bound current show ?thesis
    by (auto simp: complete_stage_def record_completion_def contextless_key_def)
qed


definition keyed_verdict :: completion where
  "keyed_verdict = (success_verdict (lit ''ok''))\<lparr>cp_attempt_key := Some (lit ''k1'')\<rparr>"

definition bound_verdict :: completion where
  "bound_verdict = (success_verdict (lit ''ok''))\<lparr>cp_run_id := Some (lit ''r1'')\<rparr>"


end
