(* ===== verification/Spec2Isabelle.thy ===== *)
theory Spec2Isabelle
  imports Version Progress Session_Status Local_Config Session_Manager Fanout_Wakeup Viewer_Size Revision
begin

text \<open>
  A verification of the Rust core of Kanna: the daemon that owns the terminal sessions of coding agents
  (\<^verbatim>\<open>crates/daemon\<close>) and the parts of the server and of the shared crates that decide something about
  them (\<^verbatim>\<open>crates/kanna-server\<close>, \<^verbatim>\<open>crates/kanna-agent-protocol\<close>).

  \<^bold>\<open>The program.\<close> A daemon session is a child process on a PTY. Its stream task (\<^verbatim>\<open>output.rs\<close>) reads the
  PTY, mirrors every chunk into a headless terminal (\<^verbatim>\<open>headless_terminal.rs\<close>), hands the chunk to the
  subscribers of the session (\<^verbatim>\<open>fanout.rs\<close>), and writes queued input (\<^verbatim>\<open>session.rs\<close>) to the PTY. From the
  mirrored screen a classifier driven by a rule file (\<^verbatim>\<open>detection/\<close>) tells whether the agent is busy,
  waiting or idle and whether its composer holds typed text. Clients attach as viewers with a size
  (\<^verbatim>\<open>client.rs\<close>); sessions are created, killed and handed to a successor through a registry
  (\<^verbatim>\<open>SessionManager\<close>). The server windows a terminal snapshot for remote viewers (\<^verbatim>\<open>terminal_window.rs\<close>)
  and picks the provider, model and effort of an agent (\<^verbatim>\<open>task_creator/provider.rs\<close>). It also drives a task
  through its workflow: a list of stages, each with an optional post, read from a definition
  (\<^verbatim>\<open>task_creator/definitions.rs\<close>). An operator's advance, an agent's verdict or a request for a revision
  (\<^verbatim>\<open>http_api/task_actions.rs\<close>) is routed (\<^verbatim>\<open>task_creator/stages.rs\<close>) to a new run, a post in the live session
  or the close of the task, and landed (\<^verbatim>\<open>task_creator/lifecycle.rs\<close>) on the run history of the database.

  \<^bold>\<open>Theories.\<close> Each models one part; its definitions follow the source in order and keep its names.
  \<^item> \<^verbatim>\<open>Prelude\<close>: Rust strings as lists of Unicode scalar values, the part of the standard library the code
    calls (UTF-8 lengths, splitting, trimming, saturating arithmetic), and the contract \<open>ord_contract\<close> of
    a Rust \<^verbatim>\<open>Ord\<close>. \<^verbatim>\<open>Utf8\<close>: encoding and decoding, with their round trips. \<^verbatim>\<open>Json\<close>: JSON values and ordered
    maps, with the map contract \<open>map_contract\<close>.
  \<^item> \<^verbatim>\<open>Version\<close> (\<^verbatim>\<open>detection/version.rs\<close>): scanning, ordering and ranges of CLI versions. The order meets
    \<open>ord_contract\<close>; parsing is a left inverse of printing.
  \<^item> \<^verbatim>\<open>Progress\<close> (\<^verbatim>\<open>detection/progress.rs\<close>): the OSC 9;4 scanner, a byte automaton; reports are read across
    any splitting into chunks, and its buffer is bounded.
  \<^item> \<^verbatim>\<open>Rules\<close>, \<^verbatim>\<open>Resolve\<close> (\<^verbatim>\<open>detection/schema.rs\<close>, \<^verbatim>\<open>rules.rs\<close>): compiling rule files, merging an override,
    resolving for a provider and version. The locales \<open>fresh_ids\<close> and \<open>keyed_merge\<close> carry the facts shared
    by the kinds of entry.
  \<^item> \<^verbatim>\<open>Detection\<close> (\<^verbatim>\<open>detection/mod.rs\<close>): the active rules and their generation, with publishers and cached
    readers interleaved at their atomic accesses.
  \<^item> \<^verbatim>\<open>Matching\<close>, \<^verbatim>\<open>Classify\<close> (\<^verbatim>\<open>detection/classify.rs\<close>): what a rendered screen says.
  \<^item> \<^verbatim>\<open>Headless_Terminal\<close> (\<^verbatim>\<open>headless_terminal.rs\<close>): reading the emulator's grid. The emulator (libghostty)
    is the parameter record \<open>vt\<close>.
  \<^item> \<^verbatim>\<open>Draft_Bytes\<close> (\<^verbatim>\<open>draft_bytes.rs\<close>), \<^verbatim>\<open>Session_Input\<close>, \<^verbatim>\<open>Session_Status\<close> (\<^verbatim>\<open>session.rs\<close>, \<^verbatim>\<open>output.rs\<close>): the
    input queue, draft ledger and PTY writer as one step relation; status detection and publication.
  \<^item> \<^verbatim>\<open>Fanout\<close>, \<^verbatim>\<open>Fanout_Wakeup\<close> (\<^verbatim>\<open>fanout.rs\<close>): mailboxes, lag and resynchronisation; the lag handshake one
    atomic access at a time.
  \<^item> \<^verbatim>\<open>Viewer_Size\<close> (\<^verbatim>\<open>client.rs\<close>, resize commands of \<^verbatim>\<open>connection.rs\<close>): who controls the PTY's size.
  \<^item> \<^verbatim>\<open>Session_Manager\<close> (\<^verbatim>\<open>session.rs\<close>, \<^verbatim>\<open>connection.rs\<close>, \<^verbatim>\<open>output.rs\<close>, \<^verbatim>\<open>handoff.rs\<close>): the registry and the
    interleaving of Spawn, Kill, exit, handoff and shutdown.
  \<^item> \<^verbatim>\<open>Terminal_Window\<close> (\<^verbatim>\<open>terminal_window.rs\<close>): windows, retained history, the output ring.
  \<^item> \<^verbatim>\<open>Providers\<close> (\<^verbatim>\<open>providers.rs\<close>, \<^verbatim>\<open>task_creator/provider.rs\<close>, \<^verbatim>\<open>db/stage_runs.rs\<close>): selectors and provider
    resolution.
  \<^item> \<^verbatim>\<open>Wildcards\<close>, \<^verbatim>\<open>Repo_Config\<close> (\<^verbatim>\<open>task_creator/definitions.rs\<close>), \<^verbatim>\<open>Local_Config\<close> (\<^verbatim>\<open>local_config.rs\<close>): the
    repository's configuration, the provider preference of an agent by pattern, and the machine-local layer.
    The pattern matcher returns on every input and matches exactly the glob language where the value has no
    star; what is read is well formed; an accepted local layer is in force.
  \<^item> \<^verbatim>\<open>Workflow\<close> (\<^verbatim>\<open>definitions.rs\<close>): workflow definitions, their normalisation and the place of a stage name.
    Normalising keeps the work; a pinned workflow reads back.
  \<^item> \<^verbatim>\<open>Prompt\<close> (\<^verbatim>\<open>prompt.rs\<close>): variable substitution in one pass, prompt sections, revision messages.
  \<^item> \<^verbatim>\<open>Stage_Routing\<close> (\<^verbatim>\<open>stages.rs\<close>, \<^verbatim>\<open>db/stage_runs.rs\<close>): a task as its row and run history, and where an advance
    or a verdict sends it.
  \<^item> \<^verbatim>\<open>Task_Engine\<close> (\<^verbatim>\<open>task_actions.rs\<close>, \<^verbatim>\<open>lifecycle.rs\<close>): the advance and completion endpoints and the landing of
    a transition under every outcome. A task whose runs succeed runs its whole workflow once, in order, and
    is closed.
  \<^item> \<^verbatim>\<open>Revision\<close> (\<^verbatim>\<open>task_actions.rs\<close>, \<^verbatim>\<open>stages.rs\<close>): revision requests and their budget, and traces of all three
    actions. The locale \<open>task_invariant\<close> carries an invariant of the actions to traces; it is interpreted
    for the single run under way and for the recorded completion attempts.

  \<^bold>\<open>Conventions.\<close> A struct is a record, an enum a datatype, an early return or \<^verbatim>\<open>Err\<close> a value of a sum or
  option. A task that takes a lock is modelled from lock to unlock; tasks interleave between those
  sections by step relations, and invariants are proved by rule induction. Handles, sockets and locks
  are numbers. Clocks, \<^verbatim>\<open>write(2)\<close> counts and outcomes of system calls are arguments. Third-party code
  (serde, the emulator, Unicode lower-casing) is a parameter. An HTTP action on a task holds the task's
  mutation lease, so it is one function of the task. Every loop is total: structural recursion, a measure,
  a fold, or, in \<^verbatim>\<open>Wildcards\<close>, \<open>while_option\<close> with a proof that it returns; nothing uses
  fuel. Integers are natural numbers with the saturation or wrap written out where the code can reach it.

  \<^bold>\<open>Not modelled.\<close> Process spawning, descriptors and signals (\<^verbatim>\<open>pty.rs\<close>, \<^verbatim>\<open>reaper.rs\<close>, \<^verbatim>\<open>fd_transfer.rs\<close>),
  SQL beyond the run-history queries, git worktrees and setup commands, the recovery of operations whose
  delivery stayed uncertain, reruns of a stage, the other HTTP endpoints, the relay and peer networking
  layers, the desktop front end and the FFI bindings: they act on the operating system or on third-party
  libraries and take few decisions of their own.
\<close>

end
